(* ===== verification/Prelude.thy ===== *)
theory Prelude
  imports Main "HOL-Library.Monad_Syntax" "HOL-Library.Code_Target_Numeral"
begin

text \<open>
  The prelude of the development: the collections of rewrite rules the component
  theories fill, the checked machine integers of the C++ code, and the list facts that
  several components share.

  A signed integer of the code is an \<open>int\<close>. Signed overflow is undefined behaviour in C++,
  so every addition, subtraction or multiplication that the code performs at a fixed width
  goes through \<open>i64\<close> or \<open>i32\<close>, whose value \<open>None\<close> stands for undefined behaviour. A theorem that
  an operation returns \<open>Some\<close> is therefore also a theorem that it never overflows.
\<close>

named_theorems plan_simps \<open>unfoldings of the planner's operations\<close>
named_theorems str_simps \<open>facts about the string operations\<close>
named_theorems pool_simps \<open>facts about the proxy pool's operations\<close>
named_theorems frame_simps \<open>fields that an operation leaves alone\<close>

section \<open>Checked machine integers\<close>

definition in_i64 :: "int \<Rightarrow> bool" where
  "in_i64 x \<longleftrightarrow> - (2 ^ 63) \<le> x \<and> x < 2 ^ 63"

definition in_i32 :: "int \<Rightarrow> bool" where
  "in_i32 x \<longleftrightarrow> - (2 ^ 31) \<le> x \<and> x < 2 ^ 31"

definition i64 :: "int \<Rightarrow> int option" where
  "i64 x = (if in_i64 x then Some x else None)"

definition i32 :: "int \<Rightarrow> int option" where
  "i32 x = (if in_i32 x then Some x else None)"

lemma i64_Some [simp]: "in_i64 x \<Longrightarrow> i64 x = Some x"
  by (simp add: i64_def)

lemma i32_Some [simp]: "in_i32 x \<Longrightarrow> i32 x = Some x"
  by (simp add: i32_def)

lemma i64_eq_Some_iff: "i64 x = Some y \<longleftrightarrow> in_i64 x \<and> y = x"
  by (auto simp: i64_def)

lemma i32_eq_Some_iff: "i32 x = Some y \<longleftrightarrow> in_i32 x \<and> y = x"
  by (auto simp: i32_def)

lemma in_i64_between: "in_i64 y \<Longrightarrow> 0 \<le> x \<Longrightarrow> x \<le> y \<Longrightarrow> in_i64 x"
  by (simp add: in_i64_def)

lemma in_i32_between: "in_i32 y \<Longrightarrow> 0 \<le> x \<Longrightarrow> x \<le> y \<Longrightarrow> in_i32 x"
  by (simp add: in_i32_def)

lemma in_i32_in_i64: "in_i32 x \<Longrightarrow> in_i64 x"
  by (simp add: in_i32_def in_i64_def)

section \<open>Lists\<close>

lemma upto_append:
  fixes a b c :: int
  assumes "a \<le> b + 1" "b \<le> c"
  shows "[a..b] @ [b + 1..c] = [a..c]"
  using assms
proof (induction "nat (b + 1 - a)" arbitrary: a)
  case 0
  then have "a = b + 1" by simp
  then show ?case by simp
next
  case (Suc n)
  then have "a \<le> b" by simp
  moreover from Suc have "[a + 1..b] @ [b + 1..c] = [a + 1..c]" by simp
  ultimately show ?case using Suc.prems by (simp add: upto_rec1)
qed

lemma nth_upto_int: "0 \<le> i \<Longrightarrow> a + i \<le> b \<Longrightarrow> [a..b] ! nat i = a + i" for a b i :: int
  by simp

lemma map_nth_slice:
  assumes "0 \<le> a" "a \<le> b + 1" "b < int (length xs)"
  shows "map (\<lambda>i. xs ! nat i) [a..b] = take (nat (b - a + 1)) (drop (nat a) xs)"
proof (rule nth_equalityI)
  show "length (map (\<lambda>i. xs ! nat i) [a..b]) = length (take (nat (b - a + 1)) (drop (nat a) xs))"
    using assms by simp
next
  fix k assume "k < length (map (\<lambda>i. xs ! nat i) [a..b])"
  then have "int k < b - a + 1" by simp
  then show "map (\<lambda>i. xs ! nat i) [a..b] ! k = take (nat (b - a + 1)) (drop (nat a) xs) ! k"
    using assms by (simp add: nat_add_distrib add.commute zless_nat_conj)
qed

lemma dropWhile_hd: "dropWhile P xs \<noteq> [] \<Longrightarrow> \<not> P (hd (dropWhile P xs))"
  by (rule hd_dropWhile)

lemma takeWhile_all: "\<forall>x\<in>set xs. P x \<Longrightarrow> takeWhile P xs = xs"
  by simp

lemma takeWhile_append_stop: "\<forall>x\<in>set xs. P x \<Longrightarrow> \<not> P y \<Longrightarrow> takeWhile P (xs @ y # ys) = xs"
  by (simp add: takeWhile_append)

lemma dropWhile_append_stop: "\<forall>x\<in>set xs. P x \<Longrightarrow> \<not> P y \<Longrightarrow> dropWhile P (xs @ y # ys) = y # ys"
  by (simp add: dropWhile_append)

end
