(* ===== verification/Double.thy ===== *)
theory Double
  imports Complex_Main Prelude
begin

text \<open>
  The C++ type \<open>double\<close>: IEEE 754 binary64 with round to nearest, ties to even. A finite value
  is the rational number it denotes; the two zeros are one value, since no operation of the
  program tells them apart. \<open>dgt\<close> is the operator \<open>>\<close>, false as soon as one side is a NaN.
  The total order of the \<open>linorder\<close> instance puts NaN first; on numbers it is the same order.

  The program uses \<open>double\<close> for proxy speeds: an exponential average (\<open>proxy_engine.cpp\<close>
  line 173), a demotion factor (line 180) and the measured throughput. What the pool needs of
  them is that a speed never becomes NaN, because \<open>std::sort\<close> with \<open>>\<close> is undefined on NaN;
  \<open>speed_ok\<close> below is closed under all three computations.
\<close>

section \<open>Values and rounding\<close>

datatype double = NaN | MInf | Fin rat | PInf

definition pow2 :: "int \<Rightarrow> rat" where
  "pow2 e = (if 0 \<le> e then 2 ^ nat e else 1 / 2 ^ nat (- e))"

text \<open>The exponent of the leading bit of a positive natural number, and of a positive rational.\<close>

fun nat_log2 :: "nat \<Rightarrow> nat" where
  "nat_log2 n = (if n < 2 then 0 else Suc (nat_log2 (n div 2)))"

declare nat_log2.simps [simp del]

definition rat_log2 :: "rat \<Rightarrow> int" where
  "rat_log2 x =
     (let (p, q) = quotient_of x;
          k = int (nat_log2 (nat p)) - int (nat_log2 (nat q))
      in if pow2 k \<le> x then k else k - 1)"

definition round_even :: "rat \<Rightarrow> int" where
  "round_even x =
     (let f = \<lfloor>x\<rfloor>; r = x - of_int f
      in if r < 1 / 2 then f else if 1 / 2 < r then f + 1 else if even f then f else f + 1)"

text \<open>The weight of the last mantissa bit for numbers of the size of \<open>x\<close>.\<close>

definition dbl_ulp :: "rat \<Rightarrow> rat" where
  "dbl_ulp x = pow2 (max (rat_log2 \<bar>x\<bar>) (-1022) - 52)"

definition dbl_round :: "rat \<Rightarrow> double" where
  "dbl_round x =
     (if x = 0 then Fin 0
      else let y = of_int (round_even (x / dbl_ulp x)) * dbl_ulp x
           in if \<bar>y\<bar> < pow2 1024 then Fin y else if 0 < x then PInf else MInf)"

text \<open>An evaluation that does not compute the overflow threshold for small numbers.\<close>

lemma dbl_round_code [code]:
  "dbl_round x =
     (if x = 0 then Fin 0
      else let y = of_int (round_even (x / dbl_ulp x)) * dbl_ulp x
           in if \<bar>y\<bar> < 1152921504606846976 then Fin y
              else if \<bar>y\<bar> < pow2 1024 then Fin y else if 0 < x then PInf else MInf)"
proof -
  have "(1152921504606846976 :: rat) < pow2 1024" by (simp add: pow2_def)
  then show ?thesis by (auto simp: dbl_round_def Let_def)
qed

section \<open>Operations\<close>

fun dadd :: "double \<Rightarrow> double \<Rightarrow> double" where
  "dadd NaN _ = NaN"
| "dadd _ NaN = NaN"
| "dadd PInf MInf = NaN"
| "dadd MInf PInf = NaN"
| "dadd PInf _ = PInf"
| "dadd MInf _ = MInf"
| "dadd _ PInf = PInf"
| "dadd _ MInf = MInf"
| "dadd (Fin x) (Fin y) = dbl_round (x + y)"

definition inf_of_sign :: "rat \<Rightarrow> double" where
  "inf_of_sign s = (if s = 0 then NaN else if 0 < s then PInf else MInf)"

fun dmul :: "double \<Rightarrow> double \<Rightarrow> double" where
  "dmul NaN _ = NaN"
| "dmul _ NaN = NaN"
| "dmul (Fin x) (Fin y) = dbl_round (x * y)"
| "dmul (Fin x) PInf = inf_of_sign x"
| "dmul (Fin x) MInf = inf_of_sign (- x)"
| "dmul PInf (Fin y) = inf_of_sign y"
| "dmul MInf (Fin y) = inf_of_sign (- y)"
| "dmul PInf PInf = PInf"
| "dmul PInf MInf = MInf"
| "dmul MInf PInf = MInf"
| "dmul MInf MInf = PInf"

text \<open>
  Division, with a positive finite divisor only: the code divides by \<open>1024.0 * 1024.0\<close> and by a
  time that it has clamped to at least 0.01.
\<close>

definition ddiv_pos :: "double \<Rightarrow> rat \<Rightarrow> double" where
  "ddiv_pos x d = (case x of Fin y \<Rightarrow> dbl_round (y / d) | _ \<Rightarrow> x)"

fun dgt :: "double \<Rightarrow> double \<Rightarrow> bool" where
  "dgt NaN _ = False"
| "dgt _ NaN = False"
| "dgt PInf y = (y \<noteq> PInf)"
| "dgt (Fin x) (Fin y) = (y < x)"
| "dgt (Fin x) MInf = True"
| "dgt (Fin x) PInf = False"
| "dgt MInf _ = False"

section \<open>The total order\<close>

instantiation double :: linorder
begin

fun less_eq_double :: "double \<Rightarrow> double \<Rightarrow> bool" where
  "less_eq_double NaN _ = True"
| "less_eq_double _ NaN = False"
| "less_eq_double MInf _ = True"
| "less_eq_double _ MInf = False"
| "less_eq_double (Fin x) (Fin y) = (x \<le> y)"
| "less_eq_double _ PInf = True"
| "less_eq_double PInf (Fin y) = False"

definition less_double :: "double \<Rightarrow> double \<Rightarrow> bool" where
  "less_double x y = (x \<le> y \<and> \<not> y \<le> x)" for x y :: double

instance
proof
  fix x y z :: double
  show "x < y \<longleftrightarrow> x \<le> y \<and> \<not> y \<le> x" by (simp add: less_double_def)
  show "x \<le> x" by (cases x) auto
  show "x \<le> y \<Longrightarrow> y \<le> z \<Longrightarrow> x \<le> z" by (cases x; cases y; cases z) auto
  show "x \<le> y \<Longrightarrow> y \<le> x \<Longrightarrow> x = y" by (cases x; cases y) auto
  show "x \<le> y \<or> y \<le> x" by (cases x; cases y) auto
qed

end

lemma dgt_iff_less: "x \<noteq> NaN \<Longrightarrow> y \<noteq> NaN \<Longrightarrow> dgt x y \<longleftrightarrow> y < x"
  by (cases x; cases y) (auto simp: less_double_def)

lemma not_dgt_iff_le: "x \<noteq> NaN \<Longrightarrow> y \<noteq> NaN \<Longrightarrow> \<not> dgt x y \<longleftrightarrow> x \<le> y"
  by (simp add: dgt_iff_less not_less)

section \<open>Speeds\<close>

text \<open>
  What the code keeps true of a speed: a number, not negative, and, where finite, below the
  overflow threshold of the format.
\<close>

definition speed_ok :: "double \<Rightarrow> bool" where
  "speed_ok x = (case x of Fin q \<Rightarrow> 0 \<le> q \<and> q < pow2 1024 | PInf \<Rightarrow> True | _ \<Rightarrow> False)"

lemma speed_ok_simps [simp]:
  "speed_ok (Fin q) \<longleftrightarrow> 0 \<le> q \<and> q < pow2 1024" "speed_ok PInf" "\<not> speed_ok MInf" "\<not> speed_ok NaN"
  by (simp_all add: speed_ok_def)

lemma speed_ok_not_NaN: "speed_ok x \<Longrightarrow> x \<noteq> NaN"
  by auto

lemma pow2_pos [simp]: "0 < pow2 e"
  by (simp add: pow2_def)

lemma speed_ok_zero [simp]: "speed_ok (Fin 0)"
  by simp

lemma dbl_ulp_pos [simp]: "0 < dbl_ulp x"
  by (simp add: dbl_ulp_def)

lemma round_even_nonneg: "0 \<le> x \<Longrightarrow> 0 \<le> round_even x"
proof -
  assume "0 \<le> x"
  then have "0 \<le> \<lfloor>x\<rfloor>" by simp
  then show ?thesis by (auto simp: round_even_def Let_def)
qed

text \<open>Rounding at most doubles a number that is not negative: below one half it gives zero.\<close>

lemma round_even_le_double:
  assumes "0 \<le> x"
  shows "of_int (round_even x) \<le> 2 * x"
proof -
  have f: "0 \<le> \<lfloor>x\<rfloor>" "of_int \<lfloor>x\<rfloor> \<le> x" using assms by simp_all
  show ?thesis
  proof (cases "\<lfloor>x\<rfloor> = 0")
    case True
    then show ?thesis using assms by (auto simp: round_even_def Let_def)
  next
    case False
    with f(1) have "1 \<le> \<lfloor>x\<rfloor>" by linarith
    then have g: "(1::rat) \<le> of_int \<lfloor>x\<rfloor>" by (simp only: of_int_1_le_iff)
    have "round_even x = \<lfloor>x\<rfloor> \<or> round_even x = \<lfloor>x\<rfloor> + 1"
      by (simp add: round_even_def Let_def)
    then have "of_int (round_even x) \<le> (of_int \<lfloor>x\<rfloor> :: rat) + 1" by auto
    with g f(2) show ?thesis by linarith
  qed
qed

lemma dbl_round_not_NaN [simp]: "dbl_round x \<noteq> NaN"
  by (simp add: dbl_round_def Let_def)

lemma dbl_round_speed_ok: "0 \<le> x \<Longrightarrow> speed_ok (dbl_round x)"
  using round_even_nonneg [of "x / dbl_ulp x"] less_imp_le [OF dbl_ulp_pos [of x]]
  by (auto simp: dbl_round_def Let_def)

lemma dbl_round_le_double:
  assumes "0 \<le> x" "2 * x < pow2 1024"
  shows "\<exists>y. dbl_round x = Fin y \<and> 0 \<le> y \<and> y \<le> 2 * x"
proof -
  define m where "m = (of_int (round_even (x / dbl_ulp x)) :: rat)"
  have "0 \<le> m" "m \<le> 2 * (x / dbl_ulp x)"
    unfolding m_def using assms round_even_le_double [of "x / dbl_ulp x"]
    by (simp_all add: round_even_nonneg less_imp_le)
  then have "0 \<le> m * dbl_ulp x" "m * dbl_ulp x \<le> 2 * x"
    by (simp_all add: less_imp_le flip: pos_le_divide_eq)
  then show ?thesis
    using assms by (auto simp: dbl_round_def Let_def simp flip: m_def)
qed

lemma dadd_speed_ok: "speed_ok x \<Longrightarrow> speed_ok y \<Longrightarrow> speed_ok (dadd x y)"
  by (cases x; cases y) (auto simp: dbl_round_speed_ok)

lemma dmul_speed_ok: "speed_ok x \<Longrightarrow> 0 < c \<Longrightarrow> speed_ok (dmul x (Fin c))"
  by (cases x) (auto simp: dbl_round_speed_ok inf_of_sign_def)

lemma dmul_pos_speed_ok: "dgt x (Fin 0) \<Longrightarrow> 0 < c \<Longrightarrow> speed_ok (dmul x (Fin c))"
  by (cases x) (auto simp: dbl_round_speed_ok inf_of_sign_def)

lemma ddiv_speed_ok: "speed_ok x \<Longrightarrow> 0 < d \<Longrightarrow> speed_ok (ddiv_pos x d)"
  by (cases x) (auto simp: dbl_round_speed_ok ddiv_pos_def)

text \<open>The demotion factor 0.25 lowers a speed, strictly unless it is zero or infinite.\<close>

lemma dmul_quarter_le: "speed_ok x \<Longrightarrow> dmul x (Fin (1 / 4)) \<le> x"
proof (cases x)
  case (Fin q)
  assume "speed_ok x"
  with Fin have "0 \<le> q / 4" "2 * (q / 4) < pow2 1024" by auto
  then obtain y where "dbl_round (q / 4) = Fin y" "0 \<le> y" "y \<le> 2 * (q / 4)"
    using dbl_round_le_double by blast
  with Fin show ?thesis by simp
qed (auto simp: inf_of_sign_def)

lemma dmul_quarter_less:
  assumes "0 < q" "q < pow2 1024"
  shows "dmul (Fin q) (Fin (1 / 4)) < Fin q"
proof -
  from assms have "0 \<le> q / 4" "2 * (q / 4) < pow2 1024" by auto
  then obtain y where "dbl_round (q / 4) = Fin y" "0 \<le> y" "y \<le> 2 * (q / 4)"
    using dbl_round_le_double by blast
  then show ?thesis using assms by (simp add: less_double_def)
qed

text \<open>Rounding by its defining inequalities, which is how the literals of the code are computed.\<close>

lemma round_even_eqI:
  assumes "of_int m - 1 / 2 < x" "x < of_int m + 1 / 2"
  shows "round_even x = m"
proof -
  have "x < of_int (m + 1)" using assms(2) by simp
  then have "\<lfloor>x\<rfloor> < m + 1" by (simp only: floor_less_iff)
  moreover have "of_int (m - 1) \<le> x" using assms(1) by simp
  then have "m - 1 \<le> \<lfloor>x\<rfloor>" by (simp only: le_floor_iff)
  ultimately have "\<lfloor>x\<rfloor> = m \<or> \<lfloor>x\<rfloor> = m - 1" by linarith
  then show ?thesis using assms by (auto simp: round_even_def Let_def)
qed

lemma dbl_round_eqI:
  assumes "0 < x" "rat_log2 x = k" "-1022 \<le> k"
    "(of_int m - 1 / 2) * pow2 (k - 52) < x" "x < (of_int m + 1 / 2) * pow2 (k - 52)"
    "0 \<le> m" "of_int m * pow2 (k - 52) < pow2 1024"
  shows "dbl_round x = Fin (of_int m * pow2 (k - 52))"
proof -
  have u: "dbl_ulp x = pow2 (k - 52)" using assms(1-3) by (simp add: dbl_ulp_def)
  have "round_even (x / pow2 (k - 52)) = m"
    using assms(4,5) by (intro round_even_eqI) (simp_all add: field_simps)
  moreover have "\<bar>of_int m * pow2 (k - 52)\<bar> = of_int m * pow2 (k - 52)"
    using assms(6) less_imp_le [OF pow2_pos] by simp
  ultimately show ?thesis using assms by (simp add: dbl_round_def u)
qed

lemma rat_log2_literals:
  "rat_log2 (7 / 10) = -1" "rat_log2 (3 / 10) = -2" "rat_log2 (1 / 4) = -2" "rat_log2 (1 / 100) = -7"
  by code_simp+

lemma dbl_round_07: "dbl_round (7 / 10) = Fin (6305039478318694 / 2 ^ 53)"
  using dbl_round_eqI [of "7 / 10" "-1" 6305039478318694] by (simp add: rat_log2_literals pow2_def)

lemma dbl_round_03: "dbl_round (3 / 10) = Fin (5404319552844595 / 2 ^ 54)"
  using dbl_round_eqI [of "3 / 10" "-2" 5404319552844595] by (simp add: rat_log2_literals pow2_def)

lemma dbl_round_025: "dbl_round (1 / 4) = Fin (1 / 4)"
  using dbl_round_eqI [of "1 / 4" "-2" "2 ^ 52"] by (simp add: rat_log2_literals pow2_def)

end
