(* ===== verification/Cpp_String.thy ===== *)
theory Cpp_String
  imports Double
begin

text \<open>
  What the program uses of \<open>std::string\<close>, \<open>std::string_view\<close>, \<open><cctype>\<close>, the \<open>sto*\<close> family and
  the two number formats it prints (\<open>%.4f\<close> and the stream default). A string is a list of
  bytes, \<open>npos\<close> is \<open>None\<close>, a C++ exception of \<open>stoi\<close>, \<open>stoll\<close>, \<open>stod\<close> is \<open>None\<close>. The only C++ source
  these definitions translate is \<open>trim\<close> (\<open>plan.hpp\<close>); the others state the standard library.
\<close>

section \<open>Searching\<close>

abbreviation (input) nl :: char where "nl \<equiv> CHR 0x0A"
abbreviation (input) cr :: char where "cr \<equiv> CHR 0x0D"
abbreviation (input) tab :: char where "tab \<equiv> CHR 0x09"
abbreviation (input) sp :: char where "sp \<equiv> CHR 0x20"
abbreviation (input) dquote :: char where "dquote \<equiv> CHR 0x22"
abbreviation (input) squote :: char where "squote \<equiv> CHR 0x27"
abbreviation (input) bslash :: char where "bslash \<equiv> CHR 0x5C"

fun find_if :: "('a \<Rightarrow> bool) \<Rightarrow> 'a list \<Rightarrow> nat option" where
  "find_if P [] = None"
| "find_if P (x # xs) = (if P x then Some 0 else map_option Suc (find_if P xs))"

definition find_char :: "char \<Rightarrow> string \<Rightarrow> nat option" where
  "find_char c s = find_if (\<lambda>x. x = c) s"

definition starts_with :: "string \<Rightarrow> string \<Rightarrow> bool" where
  "starts_with s p \<longleftrightarrow> take (length p) s = p"

fun find_str :: "string \<Rightarrow> string \<Rightarrow> nat option" where
  "find_str needle [] = (if needle = [] then Some 0 else None)"
| "find_str needle (x # xs) =
     (if starts_with (x # xs) needle then Some 0 else map_option Suc (find_str needle xs))"

text \<open>\<open>find_last_of\<close> for one character.\<close>

definition find_last_char :: "char \<Rightarrow> string \<Rightarrow> nat option" where
  "find_last_char c s = map_option (\<lambda>i. length s - 1 - i) (find_char c (rev s))"

lemma find_if_None: "find_if P s = None \<longleftrightarrow> (\<forall>x\<in>set s. \<not> P x)"
  by (induction s) auto

lemma find_if_Some_take:
  "find_if P s = Some i \<Longrightarrow> i < length s \<and> P (s ! i) \<and> (\<forall>x\<in>set (take i s). \<not> P x)"
proof (induction s arbitrary: i)
  case (Cons x s)
  show ?case
  proof (cases "P x")
    case False
    with Cons.prems obtain j where "find_if P s = Some j" "i = Suc j" by auto
    with Cons.IH False show ?thesis by auto
  qed (use Cons.prems in auto)
qed simp

lemma find_if_append_stop:
  "\<forall>x\<in>set s. \<not> P x \<Longrightarrow> P y \<Longrightarrow> find_if P (s @ y # t) = Some (length s)"
  by (induction s) auto

lemma find_char_None [str_simps]: "find_char c s = None \<longleftrightarrow> c \<notin> set s"
  by (auto simp: find_char_def find_if_None)

lemma find_char_append_stop [str_simps]: "c \<notin> set s \<Longrightarrow> find_char c (s @ c # t) = Some (length s)"
  unfolding find_char_def by (rule find_if_append_stop) auto

lemma find_char_SomeD:
  "find_char c s = Some i \<Longrightarrow> i < length s \<and> s = take i s @ c # drop (Suc i) s \<and> c \<notin> set (take i s)"
  unfolding find_char_def by (drule find_if_Some_take) (auto simp: id_take_nth_drop)

lemma starts_with_append [simp]: "starts_with (p @ s) p"
  by (simp add: starts_with_def)

lemma starts_with_iff: "starts_with s p \<longleftrightarrow> (\<exists>t. s = p @ t)"
  unfolding starts_with_def by (metis append_eq_conv_conj append_take_drop_id)

lemma find_str_SomeD:
  "find_str needle s = Some i \<Longrightarrow> i + length needle \<le> length s \<and> take (length needle) (drop i s) = needle"
proof (induction s arbitrary: i)
  case (Cons x s)
  show ?case
  proof (cases "starts_with (x # s) needle")
    case True
    then have "length needle \<le> length (x # s)" unfolding starts_with_def
      by (metis length_take min.cobounded1)
    with True Cons.prems show ?thesis by (auto simp: starts_with_def)
  next
    case False
    with Cons.prems obtain j where "find_str needle s = Some j" "i = Suc j" by auto
    with Cons.IH show ?thesis by auto
  qed
qed (auto split: if_splits)

lemma find_str_None_append: "find_str needle s = None \<Longrightarrow> s \<noteq> p @ needle @ t"
proof (induction s arbitrary: p)
  case Nil
  then show ?case by (auto split: if_splits)
next
  case (Cons x xs)
  then show ?case by (cases p) (auto split: if_splits simp: starts_with_iff)
qed

section \<open>Characters, trimming, lines\<close>

text \<open>The four characters \<open>trim\<close> and the tokenizers call white space.\<close>

definition is_blank :: "char \<Rightarrow> bool" where
  "is_blank c \<longleftrightarrow> c = sp \<or> c = tab \<or> c = cr \<or> c = nl"

text \<open>\<open>isspace\<close> in the C locale, as \<open>strtol\<close> and \<open>strtod\<close> skip it.\<close>

definition is_space :: "char \<Rightarrow> bool" where
  "is_space c \<longleftrightarrow> is_blank c \<or> c = CHR 0x0B \<or> c = CHR 0x0C"

definition char_code :: "char \<Rightarrow> nat" where
  "char_code c = of_char c"

definition is_digit :: "char \<Rightarrow> bool" where
  "is_digit c \<longleftrightarrow> 48 \<le> char_code c \<and> char_code c \<le> 57"

definition is_xdigit :: "char \<Rightarrow> bool" where
  "is_xdigit c \<longleftrightarrow> is_digit c \<or> 65 \<le> char_code c \<and> char_code c \<le> 70 \<or> 97 \<le> char_code c \<and> char_code c \<le> 102"

text \<open>\<open>trim\<close> (\<open>plan.hpp\<close>): the two loops that drop blanks at the front and at the back.\<close>

definition trim :: "string \<Rightarrow> string" where
  "trim sv = rev (dropWhile is_blank (rev (dropWhile is_blank sv)))"

text \<open>The lines \<open>std::getline\<close> delivers until it fails.\<close>

function getlines :: "string \<Rightarrow> string list" where
  "getlines s =
     (if s = [] then []
      else takeWhile (\<lambda>c. c \<noteq> nl) s # getlines (tl (dropWhile (\<lambda>c. c \<noteq> nl) s)))"
  by pat_completeness auto
termination
proof (relation "measure length")
  fix s :: string
  assume "s \<noteq> []"
  then have "length (tl (dropWhile (\<lambda>c. c \<noteq> nl) s)) < length s"
    using length_dropWhile_le [of "\<lambda>c. c \<noteq> nl" s] by (cases s) (auto simp: less_Suc_eq_le)
  then show "(tl (dropWhile (\<lambda>c. c \<noteq> nl) s), s) \<in> measure length" by simp
qed simp

declare getlines.simps [simp del]

lemma getlines_Nil [simp]: "getlines [] = []"
  by (simp add: getlines.simps)

lemma getlines_line: "nl \<notin> set l \<Longrightarrow> getlines (l @ nl # rest) = l # getlines rest"
proof -
  assume "nl \<notin> set l"
  then have all: "\<forall>x\<in>set l. x \<noteq> nl" by auto
  then have "takeWhile (\<lambda>c. c \<noteq> nl) (l @ nl # rest) = l"
    "dropWhile (\<lambda>c. c \<noteq> nl) (l @ nl # rest) = nl # rest"
    by (simp_all add: takeWhile_append_stop dropWhile_append_stop)
  then show ?thesis by (simp add: getlines.simps [of "l @ nl # rest"])
qed

lemma getlines_last: "nl \<notin> set l \<Longrightarrow> l \<noteq> [] \<Longrightarrow> getlines l = [l]"
proof -
  assume "nl \<notin> set l" "l \<noteq> []"
  then have "\<forall>x\<in>set l. x \<noteq> nl" by auto
  then have td: "takeWhile (\<lambda>c. c \<noteq> nl) l = l" "dropWhile (\<lambda>c. c \<noteq> nl) l = []" by simp_all
  have "getlines l = takeWhile (\<lambda>c. c \<noteq> nl) l # getlines (tl (dropWhile (\<lambda>c. c \<noteq> nl) l))"
    using \<open>l \<noteq> []\<close> by (simp only: getlines.simps [of l] if_False)
  then show ?thesis by (simp only: td list.sel getlines_Nil)
qed

lemma getlines_concat:
  "\<forall>l\<in>set ls. nl \<notin> set l \<Longrightarrow> getlines (concat (map (\<lambda>l. l @ [nl]) ls)) = ls"
  by (induction ls) (auto simp: getlines_line)

lemma trim_no_front: "trim s \<noteq> [] \<Longrightarrow> \<not> is_blank (hd (trim s))"
proof -
  assume "trim s \<noteq> []"
  define t where "t = dropWhile is_blank s"
  have "\<exists>u. t = trim s @ u"
    unfolding trim_def t_def [symmetric]
    by (metis rev_append rev_rev_ident takeWhile_dropWhile_id)
  then obtain u where u: "t = trim s @ u" by blast
  with \<open>trim s \<noteq> []\<close> have "t \<noteq> []" "hd t = hd (trim s)" by auto
  then show ?thesis using hd_dropWhile [of is_blank s] by (simp add: t_def)
qed

lemma trim_no_back: "trim s \<noteq> [] \<Longrightarrow> \<not> is_blank (last (trim s))"
  unfolding trim_def by (metis last_rev rev.simps(1) rev_rev_ident hd_dropWhile)

lemma trim_id: "s = [] \<or> \<not> is_blank (hd s) \<and> \<not> is_blank (last s) \<Longrightarrow> trim s = s"
proof (cases "s = []")
  case True
  then show ?thesis by (simp add: trim_def)
next
  case False
  assume "s = [] \<or> \<not> is_blank (hd s) \<and> \<not> is_blank (last s)"
  with False have "dropWhile is_blank s = s" "dropWhile is_blank (rev s) = rev s"
    by (auto simp: dropWhile_eq_self_iff hd_rev)
  then show ?thesis by (simp add: trim_def)
qed

lemma trim_trim [simp]: "trim (trim s) = trim s"
  by (rule trim_id) (use trim_no_front trim_no_back in blast)

lemma set_dropWhile_subset: "set (dropWhile P xs) \<subseteq> set xs"
  by (metis set_append sup_ge2 takeWhile_dropWhile_id)

lemma set_trim: "set (trim s) \<subseteq> set s"
  unfolding trim_def using set_dropWhile_subset by (metis order_trans set_rev)

end
