(* ===== verification/Cpp_Number.thy ===== *)
theory Cpp_Number
  imports Cpp_String
begin

text \<open>
  Numbers as text: \<open>std::to_string\<close> and \<open>%zu\<close>, \<open>%.4f\<close>, the stream format of a \<open>double\<close>
  (\<open>%g\<close> with six digits), and the parsers \<open>atoi\<close>, \<open>stoi\<close>, \<open>stoll\<close>, \<open>stoul\<close>, \<open>stod\<close>. These
  definitions state the standard library (base 10 of the C locale); an exception is \<open>None\<close>.
\<close>

section \<open>Decimal digits\<close>

definition digit_char :: "nat \<Rightarrow> char" where
  "digit_char d = char_of (48 + d)"

fun show_nat :: "nat \<Rightarrow> string" where
  "show_nat n = (if n < 10 then [digit_char n] else show_nat (n div 10) @ [digit_char (n mod 10)])"

declare show_nat.simps [simp del]

definition show_int :: "int \<Rightarrow> string" where
  "show_int i = (if i < 0 then CHR ''-'' # show_nat (nat (- i)) else show_nat (nat i))"

definition digit_val :: "char \<Rightarrow> nat" where
  "digit_val c = char_code c - 48"

definition digits_val :: "string \<Rightarrow> nat" where
  "digits_val ds = foldl (\<lambda>n c. 10 * n + digit_val c) 0 ds"

lemma char_code_digit_char: "d < 10 \<Longrightarrow> char_code (digit_char d) = 48 + d"
  by (simp add: char_code_def digit_char_def of_char_of take_bit_eq_mod)

lemma is_digit_digit_char: "d < 10 \<Longrightarrow> is_digit (digit_char d)"
  by (simp add: is_digit_def char_code_digit_char)

lemma digit_val_digit_char: "d < 10 \<Longrightarrow> digit_val (digit_char d) = d"
  by (simp add: digit_val_def char_code_digit_char)

lemma show_nat_digits: "\<forall>c\<in>set (show_nat n). is_digit c"
proof (induction n rule: show_nat.induct)
  case (1 n)
  then show ?case by (cases "n < 10") (auto simp: show_nat.simps [of n] is_digit_digit_char)
qed

lemma show_nat_nonempty [simp]: "show_nat n \<noteq> []"
  by (subst show_nat.simps) simp

lemma digits_val_snoc: "digits_val (ds @ [c]) = 10 * digits_val ds + digit_val c"
  by (simp add: digits_val_def)

lemma digits_val_show_nat [simp]: "digits_val (show_nat n) = n"
proof (induction n rule: show_nat.induct)
  case (1 n)
  show ?case
  proof (cases "n < 10")
    case True
    then show ?thesis
      by (simp add: show_nat.simps [of n] digits_val_def digit_val_digit_char)
  next
    case False
    with 1 have "digits_val (show_nat (n div 10)) = n div 10" by simp
    with False show ?thesis
      by (simp add: show_nat.simps [of n] digits_val_snoc digit_val_digit_char)
  qed
qed

text \<open>A digit is none of the bytes that separate tokens and lines.\<close>

lemma char_code_inj: "char_code c = char_code d \<longleftrightarrow> c = d"
  by (simp add: char_code_def)

lemma digit_not_space: "is_digit c \<Longrightarrow> \<not> is_space c"
  by (auto simp: is_digit_def is_space_def is_blank_def char_code_def)

lemma digit_not_sign: "is_digit c \<Longrightarrow> c \<noteq> CHR ''-'' \<and> c \<noteq> CHR ''+''"
  by (auto simp: is_digit_def char_code_def)

section \<open>Parsing integers\<close>

text \<open>
  \<open>strtol\<close> in base 10: leading white space, an optional sign, then the longest run of digits;
  \<open>None\<close> if there is no digit.
\<close>

definition strtol10 :: "string \<Rightarrow> int option" where
  "strtol10 s =
     (let t = dropWhile is_space s;
          neg = (t \<noteq> [] \<and> hd t = CHR ''-'');
          u = (if t \<noteq> [] \<and> (hd t = CHR ''-'' \<or> hd t = CHR ''+'') then tl t else t);
          ds = takeWhile is_digit u
      in if ds = [] then None
         else Some (if neg then - int (digits_val ds) else int (digits_val ds)))"

definition stoi :: "string \<Rightarrow> int option" where
  "stoi s = Option.bind (strtol10 s) i32"

definition stoll :: "string \<Rightarrow> int option" where
  "stoll s = Option.bind (strtol10 s) i64"

text \<open>\<open>stoul\<close>: \<open>strtoul\<close> negates a number with a minus sign modulo \<open>2 ^ 64\<close>.\<close>

definition stoul :: "string \<Rightarrow> nat option" where
  "stoul s =
     (case strtol10 s of
        None \<Rightarrow> None
      | Some v \<Rightarrow> if \<bar>v\<bar> < 2 ^ 64 then Some (nat (v mod 2 ^ 64)) else None)"

text \<open>\<open>atoi\<close>: 0 when there is no number, undefined (\<open>None\<close>) when it does not fit an \<open>int\<close>.\<close>

definition atoi :: "string \<Rightarrow> int option" where
  "atoi s = (case strtol10 s of None \<Rightarrow> Some 0 | Some v \<Rightarrow> i32 v)"

lemma takeWhile_digits_show_nat:
  "rest = [] \<or> \<not> is_digit (hd rest) \<Longrightarrow> takeWhile is_digit (show_nat n @ rest) = show_nat n"
  using show_nat_digits [of n] by (cases rest) (auto simp: takeWhile_append)

lemma strtol10_show_nat:
  assumes "rest = [] \<or> \<not> is_digit (hd rest)"
  shows "strtol10 (show_nat n @ rest) = Some (int n)"
proof -
  obtain c cs where c: "show_nat n = c # cs" by (cases "show_nat n") auto
  with show_nat_digits [of n] have "is_digit c" by simp
  then have sp: "\<not> is_space c" "c \<noteq> CHR ''-''" "c \<noteq> CHR ''+''"
    using digit_not_space digit_not_sign by blast+
  have tw: "takeWhile is_digit (c # cs @ rest) = c # cs"
    using takeWhile_digits_show_nat [OF assms, of n] by (simp only: c append_Cons)
  have "digits_val (c # cs) = n"
    using digits_val_show_nat [of n] by (simp only: c)
  moreover have "show_nat n @ rest = c # cs @ rest" by (simp only: c append_Cons)
  ultimately show ?thesis
    using sp tw by (simp only: strtol10_def Let_def) simp
qed

lemma stoi_show_nat: "int n < 2 ^ 31 \<Longrightarrow> stoi (show_nat n) = Some (int n)"
  using strtol10_show_nat [of "[]" n] by (simp add: stoi_def in_i32_def)

lemma stoul_show_nat:
  assumes "n < 2 ^ 64"
  shows "stoul (show_nat n) = Some n"
proof -
  from assms have "int n < int (2 ^ 64)" by (simp only: of_nat_less_iff)
  then have lt: "int n < 2 ^ 64" by simp
  have "strtol10 (show_nat n) = Some (int n)"
    using strtol10_show_nat [of "[]" n] by simp
  with lt show ?thesis by (simp add: stoul_def)
qed

section \<open>Printing doubles\<close>

definition pad_left :: "nat \<Rightarrow> string \<Rightarrow> string" where
  "pad_left w s = replicate (w - length s) CHR ''0'' @ s"

text \<open>\<open>%.4f\<close>: the exact binary value rounded to four decimals, ties to even.\<close>

definition fixed4 :: "double \<Rightarrow> string" where
  "fixed4 x =
     (case x of
        NaN \<Rightarrow> ''nan''
      | PInf \<Rightarrow> ''inf''
      | MInf \<Rightarrow> ''-inf''
      | Fin q \<Rightarrow>
          (let n = nat (round_even (\<bar>q\<bar> * 10000))
           in (if q < 0 then ''-'' else '''') @ show_nat (n div 10000) @ ''.'' @
              pad_left 4 (show_nat (n mod 10000))))"

fun nat_log10 :: "nat \<Rightarrow> nat" where
  "nat_log10 n = (if n < 10 then 0 else Suc (nat_log10 (n div 10)))"

declare nat_log10.simps [simp del]

definition pow10 :: "int \<Rightarrow> rat" where
  "pow10 e = (if 0 \<le> e then 10 ^ nat e else 1 / 10 ^ nat (- e))"

definition rat_log10 :: "rat \<Rightarrow> int" where
  "rat_log10 x =
     (let (p, q) = quotient_of x;
          k = int (nat_log10 (nat p)) - int (nat_log10 (nat q))
      in if pow10 k \<le> x then k else k - 1)"

text \<open>A fraction without its trailing zeros; no point when nothing is left.\<close>

definition strip_fraction :: "string \<Rightarrow> string" where
  "strip_fraction ds =
     (let t = rev (dropWhile (\<lambda>c. c = CHR ''0'') (rev ds))
      in if t = [] then [] else CHR ''.'' # t)"

text \<open>\<open>operator<<\<close> of a stream in its default state: \<open>%g\<close> with six significant digits.\<close>

definition stream_double :: "double \<Rightarrow> string" where
  "stream_double x =
     (case x of
        NaN \<Rightarrow> ''nan''
      | PInf \<Rightarrow> ''inf''
      | MInf \<Rightarrow> ''-inf''
      | Fin q \<Rightarrow>
          if q = 0 then ''0''
          else
            (let e0 = rat_log10 \<bar>q\<bar>;
                 m0 = nat (round_even (\<bar>q\<bar> * pow10 (5 - e0)));
                 (e, m) = (if m0 = 1000000 then (e0 + 1, 100000) else (e0, m0));
                 sign = (if q < 0 then ''-'' else '''')
             in if -4 \<le> e \<and> e < 6
                then (let d = nat (5 - e)
                      in sign @ show_nat (m div 10 ^ d) @
                         strip_fraction (if d = 0 then [] else pad_left d (show_nat (m mod 10 ^ d))))
                else sign @ show_nat (m div 100000) @
                     strip_fraction (pad_left 5 (show_nat (m mod 100000))) @
                     (if e < 0 then ''e-'' else ''e+'') @ pad_left 2 (show_nat (nat \<bar>e\<bar>))))"

section \<open>Parsing doubles\<close>

definition to_lower :: "char \<Rightarrow> char" where
  "to_lower c = (if 65 \<le> char_code c \<and> char_code c \<le> 90 then char_of (char_code c + 32) else c)"

definition starts_with_ci :: "string \<Rightarrow> string \<Rightarrow> bool" where
  "starts_with_ci s p \<longleftrightarrow> map to_lower (take (length p) s) = p"

definition xdigit_val :: "char \<Rightarrow> nat" where
  "xdigit_val c =
     (let n = char_code c in if n \<le> 57 then n - 48 else if n \<le> 70 then n - 55 else n - 87)"

definition xdigits_val :: "string \<Rightarrow> nat" where
  "xdigits_val ds = foldl (\<lambda>n c. 16 * n + xdigit_val c) 0 ds"

text \<open>An exponent part, after the mantissa: 0 unless the letter, a sign and a digit are there.\<close>

definition exponent_part :: "char \<Rightarrow> string \<Rightarrow> int" where
  "exponent_part letter s =
     (case s of
        [] \<Rightarrow> 0
      | c # t \<Rightarrow>
          if to_lower c \<noteq> letter then 0
          else (let neg = (t \<noteq> [] \<and> hd t = CHR ''-'');
                    u = (if t \<noteq> [] \<and> (hd t = CHR ''-'' \<or> hd t = CHR ''+'') then tl t else t);
                    ds = takeWhile is_digit u
                in if neg then - int (digits_val ds) else int (digits_val ds)))"

text \<open>The mantissa: digits, and a point with more digits; \<open>None\<close> without a single digit.\<close>

definition split_mantissa :: "(char \<Rightarrow> bool) \<Rightarrow> string \<Rightarrow> (string \<times> string \<times> string) option" where
  "split_mantissa isd s =
     (let a = takeWhile isd s;
          r = dropWhile isd s;
          b = (if r \<noteq> [] \<and> hd r = CHR ''.'' then takeWhile isd (tl r) else []);
          rest = (if r \<noteq> [] \<and> hd r = CHR ''.'' then dropWhile isd (tl r) else r)
      in if a = [] \<and> b = [] then None else Some (a, b, rest))"

text \<open>
  The magnitude \<open>strtod\<close> reads (after white space and sign): a rational or a special value.
\<close>

definition strtod_mag :: "string \<Rightarrow> (rat + double) option" where
  "strtod_mag s =
     (if starts_with_ci s ''inf'' then Some (Inr PInf)
      else if starts_with_ci s ''nan'' then Some (Inr NaN)
      else
        (let hex = (if starts_with_ci s ''0x'' then split_mantissa is_xdigit (drop 2 s) else None)
         in case hex of
              Some (a, b, rest) \<Rightarrow>
                Some (Inl (of_nat (xdigits_val (a @ b)) *
                           pow2 (exponent_part CHR ''p'' rest - 4 * int (length b))))
            | None \<Rightarrow>
                (case split_mantissa is_digit s of
                   None \<Rightarrow> None
                 | Some (a, b, rest) \<Rightarrow>
                     Some (Inl (of_nat (digits_val (a @ b)) *
                                pow10 (exponent_part CHR ''e'' rest - int (length b)))))))"

definition dneg :: "double \<Rightarrow> double" where
  "dneg x = (case x of NaN \<Rightarrow> NaN | PInf \<Rightarrow> MInf | MInf \<Rightarrow> PInf | Fin q \<Rightarrow> Fin (- q))"

text \<open>\<open>ERANGE\<close>: the rounded value overflows, or is subnormal and inexact.\<close>

definition dbl_erange :: "rat \<Rightarrow> bool" where
  "dbl_erange r =
     (case dbl_round r of
        Fin y \<Rightarrow> r \<noteq> 0 \<and> \<bar>y\<bar> < pow2 (-1022) \<and> y \<noteq> r
      | _ \<Rightarrow> True)"

definition stod :: "string \<Rightarrow> double option" where
  "stod s =
     (let t = dropWhile is_space s;
          neg = (t \<noteq> [] \<and> hd t = CHR ''-'');
          u = (if t \<noteq> [] \<and> (hd t = CHR ''-'' \<or> hd t = CHR ''+'') then tl t else t)
      in case strtod_mag u of
           None \<Rightarrow> None
         | Some (Inr v) \<Rightarrow> Some (if neg then dneg v else v)
         | Some (Inl r) \<Rightarrow>
             if dbl_erange r then None
             else Some (if neg then dneg (dbl_round r) else dbl_round r))"

section \<open>What printed numbers do not contain\<close>

text \<open>A printed number holds no white space, so it is one token of a line.\<close>

definition solid :: "string \<Rightarrow> bool" where
  "solid s \<longleftrightarrow> (\<forall>c\<in>set s. \<not> is_space c)"

lemma solid_Nil [simp]: "solid []"
  by (simp add: solid_def)

lemma solid_Cons [simp]: "solid (c # s) \<longleftrightarrow> \<not> is_space c \<and> solid s"
  by (simp add: solid_def)

lemma solid_append [simp]: "solid (s @ t) \<longleftrightarrow> solid s \<and> solid t"
  by (auto simp: solid_def)

lemma solid_show_nat [simp]: "solid (show_nat n)"
  using show_nat_digits [of n] digit_not_space by (auto simp: solid_def)

lemma number_char_not_space [simp]:
  "\<not> is_space CHR ''0''" "\<not> is_space CHR ''.''" "\<not> is_space CHR ''-''" "\<not> is_space CHR ''+''"
  "\<not> is_space CHR ''e''" "\<not> is_space CHR ''i''" "\<not> is_space CHR ''n''" "\<not> is_space CHR ''f''"
  "\<not> is_space CHR ''a''"
  by (simp_all add: is_space_def is_blank_def)

lemma solid_replicate [simp]: "\<not> is_space c \<Longrightarrow> solid (replicate n c)"
  by (simp add: solid_def)

lemma solid_rev [simp]: "solid (rev s) = solid s"
  by (simp add: solid_def)

lemma solid_dropWhile [simp]: "solid s \<Longrightarrow> solid (dropWhile P s)"
  by (auto simp: solid_def dest: set_dropWhileD)

lemma solid_pad_left [simp]: "solid s \<Longrightarrow> solid (pad_left w s)"
  by (simp add: pad_left_def)

lemma solid_strip_fraction [simp]: "solid s \<Longrightarrow> solid (strip_fraction s)"
  by (simp add: strip_fraction_def Let_def)

lemma solid_fixed4 [simp]: "solid (fixed4 x)"
  by (cases x) (auto simp: fixed4_def Let_def)

lemma solid_stream_double [simp]: "solid (stream_double x)"
  by (cases x) (auto simp: stream_double_def Let_def split: prod.splits)

lemma fixed4_nonempty [simp]: "fixed4 x \<noteq> []"
  by (cases x) (auto simp: fixed4_def Let_def)

lemma stream_double_nonempty [simp]: "stream_double x \<noteq> []"
  by (cases x) (auto simp: stream_double_def Let_def split: prod.splits)

lemma solid_no_newline: "solid s \<Longrightarrow> nl \<notin> set s"
  by (auto simp: solid_def is_space_def is_blank_def)

lemma solid_no_space: "solid s \<Longrightarrow> sp \<notin> set s"
  by (auto simp: solid_def is_space_def is_blank_def)

end
