(* ===== verification/Proxy_List.thy ===== *)
theory Proxy_List
  imports Cpp_Number
begin

text \<open>
  The text formats of the proxy lists and the output name: \<open>normalize_proxy_line\<close>,
  \<open>load_proxy_file\<close>, \<open>default_output_name\<close> (\<open>include/proxchunk/plan.hpp\<close>), and the two readers of
  \<open>src/proxy_engine.cpp\<close>, \<open>parse_proxy_body\<close> for fetched lists and \<open>load_cache\<close> for the scored
  cache. The content of a file is a \<open>string option\<close>, \<open>None\<close> when it cannot be opened.
\<close>

section \<open>The model\<close>

definition scheme_sep :: string where
  "scheme_sep = ''://''"

text \<open>\<open>normalize_proxy_line\<close>.\<close>

definition normalize_proxy_line :: "string \<Rightarrow> string \<Rightarrow> string" where
  "normalize_proxy_line raw default_scheme =
     (let line = trim raw
      in if line = [] \<or> hd line = CHR ''#'' \<or> hd line = CHR ''/'' then []
         else if find_str scheme_sep line = None
              then if find_char CHR '':'' line = None then [] else default_scheme @ line
              else line)"

text \<open>\<open>load_proxy_file\<close>: one normalized line after the other, the empty ones left out.\<close>

fun load_proxy_lines :: "string list \<Rightarrow> string \<Rightarrow> string list" where
  "load_proxy_lines [] scheme = []"
| "load_proxy_lines (raw # raws) scheme =
     (let url = normalize_proxy_line raw scheme
      in if url \<noteq> [] then url # load_proxy_lines raws scheme else load_proxy_lines raws scheme)"

definition load_proxy_file :: "string option \<Rightarrow> string \<Rightarrow> string list" where
  "load_proxy_file content scheme =
     (case content of None \<Rightarrow> [] | Some text \<Rightarrow> load_proxy_lines (getlines text) scheme)"

text \<open>\<open>ProxyEngine::parse_proxy_body\<close>, whose loop continues on the lines it skips.\<close>

fun parse_proxy_lines :: "string list \<Rightarrow> string \<Rightarrow> string list" where
  "parse_proxy_lines [] bare_scheme = []"
| "parse_proxy_lines (l # ls) bare_scheme =
     (let line = trim l
      in if line = [] \<or> hd line = CHR ''#'' \<or> hd line = CHR ''/''
         then parse_proxy_lines ls bare_scheme
         else if find_str scheme_sep line = None
              then if find_char CHR '':'' line = None then parse_proxy_lines ls bare_scheme
                   else (bare_scheme @ line) # parse_proxy_lines ls bare_scheme
              else line # parse_proxy_lines ls bare_scheme)"

definition parse_proxy_body :: "string \<Rightarrow> string \<Rightarrow> string list" where
  "parse_proxy_body body bare_scheme = parse_proxy_lines (getlines body) bare_scheme"

text \<open>\<open>ProxyEngine::load_cache\<close>: the address is the line up to its first space.\<close>

fun load_cache_lines :: "string list \<Rightarrow> string list" where
  "load_cache_lines [] = []"
| "load_cache_lines (l # ls) =
     (let line = trim l
      in if line = [] \<or> hd line = CHR ''#'' then load_cache_lines ls
         else (let addr = (case find_char sp line of None \<Rightarrow> line | Some i \<Rightarrow> take i line)
               in if find_str scheme_sep addr = None
                  then if find_char CHR '':'' addr = None then load_cache_lines ls
                       else (''http://'' @ addr) # load_cache_lines ls
                  else addr # load_cache_lines ls))"

definition load_cache :: "string option \<Rightarrow> string list" where
  "load_cache content = (case content of None \<Rightarrow> [] | Some text \<Rightarrow> load_cache_lines (getlines text))"

text \<open>\<open>default_output_name\<close>.\<close>

definition default_output_name :: "string \<Rightarrow> string" where
  "default_output_name url =
     (let name0 = (case find_last_char CHR ''/'' url of None \<Rightarrow> url | Some pos \<Rightarrow> drop (pos + 1) url);
          name = (case find_char CHR ''?'' name0 of None \<Rightarrow> name0 | Some q \<Rightarrow> take q name0)
      in if name = [] \<or> name = ''.'' \<or> name = ''..'' then ''download.bin'' else name)"

section \<open>Normalized lines\<close>

text \<open>A scheme prefix as the callers pass it: it starts with a letter and ends in \<open>://\<close>.\<close>

definition scheme_prefix :: "string \<Rightarrow> bool" where
  "scheme_prefix p \<longleftrightarrow>
     (\<exists>c n. p = (c # n) @ scheme_sep \<and> \<not> is_blank c \<and> c \<noteq> CHR ''#'' \<and> c \<noteq> CHR ''/'')"

lemma scheme_prefix_http [simp]: "scheme_prefix ''http://''"
  unfolding scheme_prefix_def scheme_sep_def
  by (rule exI [of _ "CHR ''h''"], rule exI [of _ "''ttp''"]) (simp add: is_blank_def)

lemma scheme_prefix_socks5h [simp]: "scheme_prefix ''socks5h://''"
  unfolding scheme_prefix_def scheme_sep_def
  by (rule exI [of _ "CHR ''s''"], rule exI [of _ "''ocks5h''"]) (simp add: is_blank_def)

lemma find_str_prefix_Some: "scheme_prefix p \<Longrightarrow> find_str scheme_sep (p @ s) \<noteq> None"
proof
  assume "scheme_prefix p" "find_str scheme_sep (p @ s) = None"
  then obtain q where "p = q @ scheme_sep" by (auto simp: scheme_prefix_def)
  with \<open>find_str scheme_sep (p @ s) = None\<close> find_str_None_append [of scheme_sep "p @ s" q s]
  show False by simp
qed

text \<open>
  A URL as the engine stores it: it contains \<open>://\<close>, does not look like a comment, and has no
  white space at either end.
\<close>

definition proxy_url :: "string \<Rightarrow> bool" where
  "proxy_url u \<longleftrightarrow>
     u \<noteq> [] \<and> hd u \<noteq> CHR ''#'' \<and> hd u \<noteq> CHR ''/'' \<and> trim u = u \<and> find_str scheme_sep u \<noteq> None"

lemma normalize_proxy_line_url:
  assumes "scheme_prefix p" "normalize_proxy_line raw p \<noteq> []"
  shows "proxy_url (normalize_proxy_line raw p)"
proof -
  define line where "line = trim raw"
  have ne: "line \<noteq> []" "hd line \<noteq> CHR ''#''" "hd line \<noteq> CHR ''/''"
    using assms(2) by (auto simp: normalize_proxy_line_def line_def Let_def split: if_splits)
  have tl: "trim line = line" by (simp add: line_def)
  show ?thesis
  proof (cases "find_str scheme_sep line = None")
    case False
    then have "normalize_proxy_line raw p = line"
      using ne by (auto simp: normalize_proxy_line_def Let_def simp flip: line_def)
    with ne tl False show ?thesis by (simp add: proxy_url_def)
  next
    case True
    then have eq: "normalize_proxy_line raw p = p @ line"
      using assms(2) ne by (auto simp: normalize_proxy_line_def Let_def simp flip: line_def split: if_splits)
    obtain c n where p: "p = (c # n) @ scheme_sep" "\<not> is_blank c" "c \<noteq> CHR ''#''" "c \<noteq> CHR ''/''"
      using assms(1) by (auto simp: scheme_prefix_def)
    have "\<not> is_blank (last line)"
      using trim_no_back [of raw] ne by (simp add: line_def)
    then have "trim (p @ line) = p @ line"
      using p ne by (intro trim_id) simp
    with eq p find_str_prefix_Some [OF assms(1), of line] show ?thesis
      by (simp add: proxy_url_def)
  qed
qed

lemma normalize_proxy_url: "proxy_url u \<Longrightarrow> normalize_proxy_line u p = u"
  by (auto simp: proxy_url_def normalize_proxy_line_def)

lemma normalize_bytes: "set (normalize_proxy_line raw p) \<subseteq> set p \<union> set raw"
  using set_trim [of raw] by (auto simp: normalize_proxy_line_def Let_def)

lemma load_proxy_lines_url:
  "scheme_prefix p \<Longrightarrow> \<forall>u\<in>set (load_proxy_lines ls p). proxy_url u"
  by (induction ls) (auto simp: Let_def normalize_proxy_line_url)

lemma parse_load_lines: "parse_proxy_lines ls p = load_proxy_lines ls p"
  if "scheme_prefix p"
  using that
proof (induction ls)
  case (Cons l ls)
  then have "p \<noteq> []" by (auto simp: scheme_prefix_def)
  with Cons show ?case by (auto simp: normalize_proxy_line_def Let_def)
qed simp

section \<open>The cache\<close>

text \<open>An address that survives the cache and the wire: a URL without white space.\<close>

definition wire_url :: "string \<Rightarrow> bool" where
  "wire_url u \<longleftrightarrow> u \<noteq> [] \<and> hd u \<noteq> CHR ''#'' \<and> solid u \<and> find_str scheme_sep u \<noteq> None"

lemma solid_not_blank: "solid s \<Longrightarrow> c \<in> set s \<Longrightarrow> \<not> is_blank c"
  by (auto simp: solid_def is_space_def)

lemma load_cache_row:
  assumes "wire_url u" "solid num" "num \<noteq> []"
  shows "load_cache_lines ((u @ sp # num) # ls) = u # load_cache_lines ls"
proof -
  from assms have u: "u \<noteq> []" "hd u \<noteq> CHR ''#''" "solid u" "find_str scheme_sep u \<noteq> None"
    by (auto simp: wire_url_def)
  have "\<not> is_blank (hd u)" "\<not> is_blank (last num)"
    using u assms solid_not_blank by simp_all
  then have "trim (u @ sp # num) = u @ sp # num"
    using u assms by (intro trim_id) auto
  moreover have "find_char sp (u @ sp # num) = Some (length u)"
    using solid_no_space [OF u(3)] by (rule find_char_append_stop)
  ultimately show ?thesis using u by (auto simp: Let_def)
qed

lemma load_cache_comment:
  assumes "\<not> is_blank (last (CHR ''#'' # s))"
  shows "load_cache_lines ((CHR ''#'' # s) # ls) = load_cache_lines ls"
proof -
  have "trim (CHR ''#'' # s) = CHR ''#'' # s"
    using assms by (intro trim_id) (simp add: is_blank_def)
  then show ?thesis by simp
qed

section \<open>The output name\<close>

lemma find_last_charD:
  assumes "find_last_char c s = Some i"
  shows "i < length s" "c \<notin> set (drop (i + 1) s)"
proof -
  from assms obtain j where j: "find_char c (rev s) = Some j" "i = length s - 1 - j"
    by (auto simp: find_last_char_def)
  from find_char_SomeD [OF j(1)] have "j < length s" "c \<notin> set (take j (rev s))" by auto
  moreover from this(1) have "length s - j = i + 1" using j(2) by simp
  ultimately show "i < length s" "c \<notin> set (drop (i + 1) s)"
    using j(2) by (simp_all add: take_rev)
qed

lemma find_last_char_None: "find_last_char c s = None \<Longrightarrow> c \<notin> set s"
  by (simp add: find_last_char_def str_simps)

text \<open>A name that is one component of a path: no separator, not a dot entry, not empty.\<close>

definition safe_component :: "string \<Rightarrow> bool" where
  "safe_component n \<longleftrightarrow> n \<noteq> [] \<and> n \<noteq> ''.'' \<and> n \<noteq> ''..'' \<and> CHR ''/'' \<notin> set n"

lemma default_output_name_safe: "safe_component (default_output_name url) \<and> CHR ''?'' \<notin> set (default_output_name url)"
proof -
  define name0 where
    "name0 = (case find_last_char CHR ''/'' url of None \<Rightarrow> url | Some pos \<Rightarrow> drop (pos + 1) url)"
  define name where "name = (case find_char CHR ''?'' name0 of None \<Rightarrow> name0 | Some q \<Rightarrow> take q name0)"
  have s: "CHR ''/'' \<notin> set name0"
    using find_last_charD find_last_char_None by (auto simp: name0_def split: option.splits)
  have "CHR ''?'' \<notin> set name" "set name \<subseteq> set name0"
    using find_char_SomeD by (auto simp: name_def find_char_None split: option.splits dest: in_set_takeD)
  with s have "CHR ''/'' \<notin> set name" "CHR ''?'' \<notin> set name" by auto
  then show ?thesis
    by (simp add: default_output_name_def Let_def safe_component_def flip: name0_def name_def)
qed

section \<open>Properties\<close>

text \<open>
  C37: Canonical proxy URLs. Whatever a line of a list holds, \<open>normalize_proxy_line\<close> either rejects it or
  returns a URL with a scheme, without blanks at its ends, that is no comment; and normalizing the
  result again, under any default scheme, changes nothing.
\<close>

theorem normalize_proxy_line_canonical:
  assumes "scheme_prefix p" "normalize_proxy_line raw p \<noteq> []"
  shows "proxy_url (normalize_proxy_line raw p) \<and>
    normalize_proxy_line (normalize_proxy_line raw p) q = normalize_proxy_line raw p"
  using normalize_proxy_line_url [OF assms] normalize_proxy_url by blast

lemma normalize_proxy_line_canonical_witness:
  "proxy_url (normalize_proxy_line ''  1.2.3.4:80 '' ''http://'') \<and>
   normalize_proxy_line ''  1.2.3.4:80 '' ''http://'' = ''http://1.2.3.4:80''"
proof -
  have "normalize_proxy_line ''  1.2.3.4:80 '' ''http://'' = ''http://1.2.3.4:80''" by code_simp
  moreover from this have "proxy_url (normalize_proxy_line ''  1.2.3.4:80 '' ''http://'')"
    by (intro normalize_proxy_line_canonical [THEN conjunct1]) simp_all
  ultimately show ?thesis by simp
qed

text \<open>
  C40: One parser. The engine's \<open>parse_proxy_body\<close>, for fetched lists, and \<open>load_proxy_file\<close>, for the user's
  file, give the same proxies for the same text.
\<close>

theorem parse_body_is_load_file:
  assumes "scheme_prefix p"
  shows "parse_proxy_body body p = load_proxy_file (Some body) p"
  using parse_load_lines [OF assms] by (simp add: parse_proxy_body_def load_proxy_file_def)

lemma parse_body_is_load_file_witness:
  "load_proxy_file (Some (''# list'' @ [nl] @ ''1.2.3.4:80'' @ [nl])) ''http://'' = [''http://1.2.3.4:80'']"
proof -
  have "parse_proxy_body (''# list'' @ [nl] @ ''1.2.3.4:80'' @ [nl]) ''http://'' = [''http://1.2.3.4:80'']"
    by code_simp
  then show ?thesis by (simp only: parse_body_is_load_file scheme_prefix_http)
qed

text \<open>
  C38: The output name. Whatever the URL, the name is a single component of a path: it is not empty,
  holds no separator and is neither of the two dot entries, so the file stays in the directory.
\<close>

theorem output_name_is_component:
  "safe_component (default_output_name url) \<and> CHR ''?'' \<notin> set (default_output_name url)"
  by (rule default_output_name_safe)

text \<open>
  The name is not always the last path segment that its comment promises. The last slash may
  stand in the query, and then the name is taken from the query.
\<close>

lemma output_name_from_query:
  "default_output_name ''https://h.org/a.bin?r=/x/y'' = ''y'' \<and> default_output_name ''https://h.org/a.bin?r=x'' = ''a.bin''"
  by (intro conjI) code_simp+

end
