(* ===== verification/Engine.thy ===== *)
theory Engine
  imports Proxy_List "HOL-Library.Multiset"
begin

text \<open>
  The proxy pool of \<open>class ProxyEngine\<close> (\<open>include/proxchunk/proxy_engine.hpp\<close>,
  \<open>src/proxy_engine.cpp\<close>): its rows, and the operations that run under its mutex. Each
  operation is one step, because each holds the mutex from its first to its last access;
  \<open>verify_target\<close>, which holds it twice, is two steps.

  \<open>std::sort\<close> orders equal speeds as it likes and is undefined when the comparison is no strict
  weak order, as it is with a NaN. The operations therefore take the sort as an argument \<open>srt\<close>,
  and the locale \<open>speed_sorter\<close> states what the standard promises. The lines the engine logs are
  not modelled.
\<close>

section \<open>State\<close>

text \<open>\<open>struct Proxy\<close>.\<close>

record proxy =
  address :: string
  speed_mbps :: double
  latency_ms :: int
  fails :: int
  alive :: bool
  busy :: bool
  target_ok :: bool

text \<open>A row with the default member initializers of the struct.\<close>

definition new_proxy :: "string \<Rightarrow> proxy" where
  "new_proxy a =
     \<lparr>address = a, speed_mbps = Fin 0, latency_ms = 99999, fails = 0, alive = True, busy = False,
      target_ok = True\<rparr>"

text \<open>\<open>struct ProxyEngineConfig\<close>, without the log prefix and the debug switch.\<close>

record engine_config =
  max_keep :: nat
  max_inflight :: int
  refresh_sec :: int
  test_url :: string
  cache_path :: string
  use_cache :: bool
  use_tor :: bool
  fetch_public :: bool
  extra_proxies :: "string list"

text \<open>The members of \<open>ProxyEngine\<close> that its operations read and write.\<close>

record engine =
  cfg :: engine_config
  pool :: "proxy list"
  target_url :: string
  target_filter :: bool

section \<open>Leases\<close>

text \<open>
  \<open>ProxyEngine::acquire\<close>: the local function \<open>pick\<close> returns the first row it may lease, marked
  busy, and the pool with that row in place.
\<close>

fun pick :: "bool \<Rightarrow> string list \<Rightarrow> bool \<Rightarrow> proxy list \<Rightarrow> (proxy \<times> proxy list) option" where
  "pick tfilter skip honor_skip [] = None"
| "pick tfilter skip honor_skip (p # ps) =
     (if \<not> alive p \<or> busy p \<or> fails p \<ge> 4
      then map_option (\<lambda>(r, ps'). (r, p # ps')) (pick tfilter skip honor_skip ps)
      else if tfilter \<and> \<not> target_ok p
      then map_option (\<lambda>(r, ps'). (r, p # ps')) (pick tfilter skip honor_skip ps)
      else if honor_skip \<and> address p \<in> set skip
      then map_option (\<lambda>(r, ps'). (r, p # ps')) (pick tfilter skip honor_skip ps)
      else Some (p\<lparr>busy := True\<rparr>, p\<lparr>busy := True\<rparr> # ps))"

definition acquire :: "string list \<Rightarrow> engine \<Rightarrow> proxy option \<times> engine" where
  "acquire skip e =
     (case pick (target_filter e) skip True (pool e) of
        Some (p, ps) \<Rightarrow> (Some p, e\<lparr>pool := ps\<rparr>)
      | None \<Rightarrow>
          (case pick (target_filter e) skip False (pool e) of
             Some (p, ps) \<Rightarrow> (Some p, e\<lparr>pool := ps\<rparr>)
           | None \<Rightarrow> (None, e)))"

text \<open>\<open>ProxyEngine::release\<close>: the new contents of the row it finds.\<close>

definition ema_old :: double where
  "ema_old = dbl_round (7 / 10)"

definition ema_new :: double where
  "ema_new = dbl_round (3 / 10)"

definition demotion :: double where
  "demotion = dbl_round (1 / 4)"

definition released_row :: "bool \<Rightarrow> double \<Rightarrow> proxy \<Rightarrow> proxy" where
  "released_row success mbps p =
     (let p = p\<lparr>busy := False\<rparr>
      in if success
         then (let p = p\<lparr>fails := 0\<rparr>;
                   p = (if dgt mbps (Fin 0)
                        then p\<lparr>speed_mbps := dadd (dmul (speed_mbps p) ema_old) (dmul mbps ema_new)\<rparr>
                        else p)
               in p\<lparr>alive := True\<rparr>)
         else (let p = p\<lparr>fails := fails p + 1, speed_mbps := dmul (speed_mbps p) demotion\<rparr>
               in if fails p \<ge> 4 then p\<lparr>alive := False\<rparr> else p))"

text \<open>The loop stops at the first row with the address, and erases it when it is dead.\<close>

fun release_row :: "string \<Rightarrow> bool \<Rightarrow> double \<Rightarrow> proxy list \<Rightarrow> proxy list" where
  "release_row url success mbps [] = []"
| "release_row url success mbps (p # ps) =
     (if address p \<noteq> url then p # release_row url success mbps ps
      else (let q = released_row success mbps p
            in if \<not> alive q \<and> \<not> busy q then ps else q # ps))"

definition release ::
  "(proxy list \<Rightarrow> proxy list) \<Rightarrow> string \<Rightarrow> bool \<Rightarrow> double \<Rightarrow> engine \<Rightarrow> engine" where
  "release srt url success mbps e = e\<lparr>pool := srt (release_row url success mbps (pool e))\<rparr>"

section \<open>Queries\<close>

text \<open>\<open>ProxyEngine::live\<close>, \<open>ProxyEngine::busy\<close>, \<open>ProxyEngine::top_mbps\<close>.\<close>

definition live_count :: "engine \<Rightarrow> nat" where
  "live_count e = length (filter (\<lambda>p. alive p \<and> (\<not> target_filter e \<or> target_ok p)) (pool e))"

definition busy_count :: "engine \<Rightarrow> nat" where
  "busy_count e = length (filter busy (pool e))"

definition top_mbps :: "engine \<Rightarrow> double" where
  "top_mbps e = (case pool e of [] \<Rightarrow> Fin 0 | p # _ \<Rightarrow> speed_mbps p)"

section \<open>Installing tested rows\<close>

text \<open>
  \<open>ProxyEngine::install_tested\<close>. \<open>old_busy\<close> is an \<open>unordered_map\<close> from address to row: \<open>emplace\<close>
  keeps the first row of an address. It is modelled by the list of its rows.
\<close>

fun old_busy_rows :: "proxy list \<Rightarrow> proxy list \<Rightarrow> proxy list" where
  "old_busy_rows acc [] = acc"
| "old_busy_rows acc (p # ps) =
     (if busy p \<and> address p \<notin> address ` set acc then old_busy_rows (acc @ [p]) ps
      else old_busy_rows acc ps)"

text \<open>The loop over \<open>tested\<close>: a row that was busy takes over the lease and the failures.\<close>

fun carry_leases :: "proxy list \<Rightarrow> proxy list \<Rightarrow> proxy list \<times> proxy list" where
  "carry_leases [] old = ([], old)"
| "carry_leases (t # ts) old =
     (case find (\<lambda>p. address p = address t) old of
        None \<Rightarrow> (let (ts', old') = carry_leases ts old in (t # ts', old'))
      | Some q \<Rightarrow>
          (let (ts', old') = carry_leases ts (filter (\<lambda>p. address p \<noteq> address t) old)
           in (t\<lparr>busy := True, fails := fails q\<rparr> # ts', old')))"

text \<open>
  The two loops that fill \<open>kept\<close>: every busy row, then free rows while \<open>kept\<close> is shorter than
  \<open>max_keep\<close>. The order in which the rest of \<open>old_busy\<close> is appended is the map's own (\<open>itr\<close>).
\<close>

fun fill_kept :: "nat \<Rightarrow> proxy list \<Rightarrow> proxy list \<Rightarrow> proxy list" where
  "fill_kept keep kept [] = kept"
| "fill_kept keep kept (t # ts) =
     (if length kept < keep
      then if busy t then fill_kept keep kept ts else fill_kept keep (kept @ [t]) ts
      else kept)"

definition installed_rows ::
  "(proxy list \<Rightarrow> proxy list) \<Rightarrow> (proxy list \<Rightarrow> proxy list) \<Rightarrow> nat \<Rightarrow> proxy list \<Rightarrow> proxy list \<Rightarrow>
   proxy list" where
  "installed_rows srt itr keep tested old_pool =
     (let (marked, rest) = carry_leases tested (old_busy_rows [] old_pool);
          sorted = srt (marked @ itr rest);
          kept = filter busy sorted
      in srt (fill_kept keep kept sorted))"

definition install_tested ::
  "(proxy list \<Rightarrow> proxy list) \<Rightarrow> (proxy list \<Rightarrow> proxy list) \<Rightarrow> proxy list \<Rightarrow> engine \<Rightarrow> engine" where
  "install_tested srt itr tested e =
     e\<lparr>pool := installed_rows srt itr (max_keep (cfg e)) tested (pool e)\<rparr>"

section \<open>Checking the pool against a target\<close>

text \<open>
  \<open>ProxyEngine::verify_target\<close>, first critical section: forget what was known of the target and
  list the live rows. An empty URL returns before it (\<open>None\<close>).
\<close>

definition verify_begin :: "string \<Rightarrow> engine \<Rightarrow> (string list \<times> engine) option" where
  "verify_begin url e =
     (if url = [] then None
      else Some (map address (filter alive (pool e)),
                 e\<lparr>target_url := url, target_filter := True,
                   pool := map (\<lambda>p. p\<lparr>target_ok := False\<rparr>) (pool e)\<rparr>))"

text \<open>
  Second critical section, with the speeds measured in between: \<open>ok_speed\<close> maps the address of
  every proxy that reached the target to its speed.
\<close>

definition verify_row :: "(string \<times> double) list \<Rightarrow> proxy \<Rightarrow> proxy" where
  "verify_row ok_speed p =
     (case map_of ok_speed (address p) of
        Some v \<Rightarrow> p\<lparr>target_ok := True, speed_mbps := v, fails := 0, alive := True\<rparr>
      | None \<Rightarrow> p\<lparr>target_ok := False\<rparr>)"

definition verify_finish ::
  "(proxy list \<Rightarrow> proxy list) \<Rightarrow> (string \<times> double) list \<Rightarrow> engine \<Rightarrow> nat \<times> engine" where
  "verify_finish srt ok_speed e =
     (length ok_speed, e\<lparr>pool := srt (map (verify_row ok_speed) (pool e))\<rparr>)"

text \<open>
  Both sections. The transfers in between are a parameter: \<open>probes url addrs\<close> is the content of
  \<open>ok_speed\<close> after the range requests of \<open>url\<close> through the proxies \<open>addrs\<close>, \<open>None\<close> when libcurl gives
  no multi handle. While they run the mutex is free, and the refresh thread may install the rows of
  finished scoring passes (\<open>passes\<close>).
\<close>

definition install_all ::
  "(proxy list \<Rightarrow> proxy list) \<Rightarrow> (proxy list \<Rightarrow> proxy list) \<Rightarrow> proxy list list \<Rightarrow> engine \<Rightarrow> engine" where
  "install_all srt itr passes e = fold (install_tested srt itr) passes e"

definition verify_target ::
  "(proxy list \<Rightarrow> proxy list) \<Rightarrow> (proxy list \<Rightarrow> proxy list) \<Rightarrow>
   (string \<Rightarrow> string list \<Rightarrow> (string \<times> double) list option) \<Rightarrow> proxy list list \<Rightarrow>
   string \<Rightarrow> engine \<Rightarrow> nat \<times> engine" where
  "verify_target srt itr probes passes url e =
     (case verify_begin url e of
        None \<Rightarrow> (0, e)
      | Some (addrs, e1) \<Rightarrow>
          (case probes url addrs of
             None \<Rightarrow> (0, e1)
           | Some ok_speed \<Rightarrow> verify_finish srt ok_speed (install_all srt itr passes e1)))"

section \<open>Candidates and the cache file\<close>

text \<open>\<open>ProxyEngine::local_proxy_urls\<close>: the extra proxies, between the two ports of a local Tor.\<close>

definition local_proxy_urls :: "engine_config \<Rightarrow> string list" where
  "local_proxy_urls c =
     (if use_tor c
      then (''socks5h://127.0.0.1:9050'' # extra_proxies c) @ [''socks5h://127.0.0.1:9150'']
      else extra_proxies c)"

text \<open>
  \<open>ProxyEngine::save_cache\<close>: the text it writes, \<open>None\<close> when it writes nothing.
\<close>

definition save_cache :: "engine \<Rightarrow> string option" where
  "save_cache e =
     (if \<not> use_cache (cfg e) \<or> cache_path (cfg e) = [] then None
      else if pool e = [] then None
      else Some (''# proxchunk proxy cache'' @ [nl] @
             concat (map (\<lambda>p. address p @ [sp] @ stream_double (speed_mbps p) @ [nl])
                      (filter alive (pool e)))))"

section \<open>Invariants\<close>

text \<open>A row between two operations: alive, below the failure limit, with a proper speed.\<close>

definition row_ok :: "proxy \<Rightarrow> bool" where
  "row_ok p \<longleftrightarrow> alive p \<and> 0 \<le> fails p \<and> fails p < 4 \<and> speed_ok (speed_mbps p)"

definition sorted_speed :: "proxy list \<Rightarrow> bool" where
  "sorted_speed ps \<longleftrightarrow> sorted_wrt (\<lambda>p q. \<not> dgt (speed_mbps q) (speed_mbps p)) ps"

definition pool_ok :: "engine \<Rightarrow> bool" where
  "pool_ok e \<longleftrightarrow> (\<forall>p\<in>set (pool e). row_ok p) \<and> sorted_speed (pool e)"

text \<open>At most one row per address, and the addresses that are leased.\<close>

definition unique_rows :: "engine \<Rightarrow> bool" where
  "unique_rows e \<longleftrightarrow> distinct (map address (pool e))"

definition busy_addrs :: "proxy list \<Rightarrow> string set" where
  "busy_addrs ps = address ` {p \<in> set ps. busy p}"

definition leased :: "engine \<Rightarrow> string set" where
  "leased e = busy_addrs (pool e)"

text \<open>The rows \<open>acquire\<close> may hand out.\<close>

definition leasable :: "bool \<Rightarrow> proxy \<Rightarrow> bool" where
  "leasable tfilter p \<longleftrightarrow> alive p \<and> \<not> busy p \<and> fails p < 4 \<and> (tfilter \<longrightarrow> target_ok p)"

lemma busy_addrs_simps [simp]:
  "busy_addrs [] = {}"
  "busy_addrs (p # ps) = (if busy p then insert (address p) (busy_addrs ps) else busy_addrs ps)"
  "busy_addrs (ps @ qs) = busy_addrs ps \<union> busy_addrs qs"
  by (auto simp: busy_addrs_def)

lemma busy_addrs_mset: "mset ps = mset qs \<Longrightarrow> busy_addrs ps = busy_addrs qs"
  unfolding busy_addrs_def by (metis set_mset_mset)

lemma busy_addrs_subset: "busy_addrs ps \<subseteq> address ` set ps"
  by (auto simp: busy_addrs_def)

lemma sorted_speed_le:
  assumes "\<forall>p\<in>set ps. row_ok p"
  shows "sorted_speed ps \<longleftrightarrow> sorted_wrt (\<lambda>p q. speed_mbps q \<le> speed_mbps p) ps"
  unfolding sorted_speed_def using assms
  by (intro sorted_wrt_iff_nth_less [THEN trans] sorted_wrt_iff_nth_less [THEN trans, symmetric])
    (auto simp: sorted_wrt_iff_nth_less row_ok_def not_dgt_iff_le speed_ok_not_NaN nth_mem)

section \<open>Leasing\<close>

lemma pick_Cons:
  "pick tf skip h (p # ps) =
     (if leasable tf p \<and> (h \<longrightarrow> address p \<notin> set skip)
      then Some (p\<lparr>busy := True\<rparr>, p\<lparr>busy := True\<rparr> # ps)
      else map_option (\<lambda>(r, qs). (r, p # qs)) (pick tf skip h ps))"
  by (simp add: leasable_def)

declare pick.simps(2) [simp del]

lemma pick_SomeD:
  "pick tf skip h ps = Some (r, ps') \<Longrightarrow>
   \<exists>pre p post. ps = pre @ p # post \<and> leasable tf p \<and> (h \<longrightarrow> address p \<notin> set skip) \<and>
      (\<forall>q\<in>set pre. leasable tf q \<longrightarrow> h \<and> address q \<in> set skip) \<and>
      r = p\<lparr>busy := True\<rparr> \<and> ps' = pre @ r # post"
proof (induction ps arbitrary: ps')
  case Nil
  then show ?case by simp
next
  case (Cons x xs)
  show ?case
  proof (cases "leasable tf x \<and> (h \<longrightarrow> address x \<notin> set skip)")
    case True
    with Cons.prems have "r = x\<lparr>busy := True\<rparr>" "ps' = r # xs" by (auto simp: pick_Cons)
    with True show ?thesis
      by (intro exI [where x = "[]"], intro exI [where x = x], intro exI [where x = xs]) auto
  next
    case False
    with Cons.prems obtain qs where qs: "pick tf skip h xs = Some (r, qs)" "ps' = x # qs"
      by (auto simp: pick_Cons)
    from Cons.IH [OF qs(1)] obtain pre p post where
      "xs = pre @ p # post" "leasable tf p" "h \<longrightarrow> address p \<notin> set skip"
      "\<forall>q\<in>set pre. leasable tf q \<longrightarrow> h \<and> address q \<in> set skip"
      "r = p\<lparr>busy := True\<rparr>" "qs = pre @ r # post" by blast
    with False qs(2) show ?thesis
      by (intro exI [where x = "x # pre"], intro exI [where x = p], intro exI [where x = post]) auto
  qed
qed

lemma pick_None:
  "pick tf skip h ps = None \<longleftrightarrow> (\<forall>q\<in>set ps. leasable tf q \<longrightarrow> h \<and> address q \<in> set skip)"
  by (induction ps) (auto simp: pick_Cons)

text \<open>What \<open>acquire\<close> returns, in one statement for both passes.\<close>

lemma acquire_SomeE:
  assumes "acquire skip e = (Some r, e')"
  obtains pre p post h where
    "pool e = pre @ p # post" "leasable (target_filter e) p" "r = p\<lparr>busy := True\<rparr>"
    "e' = e\<lparr>pool := pre @ r # post\<rparr>" "h \<longrightarrow> address p \<notin> set skip"
    "\<forall>q\<in>set pre. leasable (target_filter e) q \<longrightarrow> h \<and> address q \<in> set skip"
    "\<not> h \<longrightarrow> (\<forall>q\<in>set (pool e). leasable (target_filter e) q \<longrightarrow> address q \<in> set skip)"
proof (cases "pick (target_filter e) skip True (pool e)")
  case None
  with assms obtain ps where ps: "pick (target_filter e) skip False (pool e) = Some (r, ps)"
    "e' = e\<lparr>pool := ps\<rparr>"
    by (auto simp: acquire_def split: option.splits)
  from None have "\<forall>q\<in>set (pool e). leasable (target_filter e) q \<longrightarrow> address q \<in> set skip"
    by (auto simp: pick_None)
  with pick_SomeD [OF ps(1)] ps(2) show ?thesis using that [where h = False] by blast
next
  case (Some x)
  with assms obtain ps where ps: "pick (target_filter e) skip True (pool e) = Some (r, ps)"
    "e' = e\<lparr>pool := ps\<rparr>"
    by (cases x) (auto simp: acquire_def)
  from pick_SomeD [OF ps(1)] ps(2) show ?thesis using that [where h = True] by blast
qed

lemma acquire_None_iff: "fst (acquire skip e) = None \<longleftrightarrow> (\<forall>q\<in>set (pool e). \<not> leasable (target_filter e) q)"
proof -
  have "fst (acquire skip e) = None \<longleftrightarrow>
      pick (target_filter e) skip True (pool e) = None \<and> pick (target_filter e) skip False (pool e) = None"
    by (auto simp: acquire_def split: option.splits)
  then show ?thesis by (auto simp: pick_None)
qed

lemma acquire_None_same: "acquire skip e = (None, e') \<Longrightarrow> e' = e"
  by (auto simp: acquire_def split: option.splits)

lemma acquire_leased: "acquire skip e = (Some r, e') \<Longrightarrow> leased e' = insert (address r) (leased e)"
  by (erule acquire_SomeE) (auto simp: leased_def leasable_def)

lemma acquire_fresh:
  assumes "unique_rows e" "acquire skip e = (Some r, e')"
  shows "address r \<notin> leased e"
  using assms(2)
proof (rule acquire_SomeE)
  fix pre p post h
  assume "pool e = pre @ p # post" "leasable (target_filter e) p" "r = p\<lparr>busy := True\<rparr>"
  then show ?thesis
    using assms(1) busy_addrs_subset [of pre] busy_addrs_subset [of post]
    by (auto simp: unique_rows_def leased_def leasable_def)
qed

lemma acquire_rows: "acquire skip e = (r, e') \<Longrightarrow> map address (pool e') = map address (pool e)"
  by (cases r) (auto dest: acquire_None_same elim!: acquire_SomeE)

lemma acquire_frame [frame_simps]:
  "acquire skip e = (r, e') \<Longrightarrow> cfg e' = cfg e \<and> target_url e' = target_url e \<and> target_filter e' = target_filter e"
  by (cases r) (auto dest: acquire_None_same elim!: acquire_SomeE)

lemma acquire_unique: "unique_rows e \<Longrightarrow> acquire skip e = (r, e') \<Longrightarrow> unique_rows e'"
  by (simp add: unique_rows_def acquire_rows)

lemma sorted_speed_lease:
  "sorted_speed (pre @ p # post) \<Longrightarrow> sorted_speed (pre @ p\<lparr>busy := True\<rparr> # post)"
  by (simp add: sorted_speed_def sorted_wrt_append)

lemma acquire_pool_ok:
  assumes "pool_ok e" "acquire skip e = (r, e')"
  shows "pool_ok e'"
proof (cases r)
  case None
  then show ?thesis using assms acquire_None_same by blast
next
  case (Some p)
  with assms(2) have "acquire skip e = (Some p, e')" by simp
  then obtain pre q post where "pool e = pre @ q # post" "e' = e\<lparr>pool := pre @ q\<lparr>busy := True\<rparr> # post\<rparr>"
    by (rule acquire_SomeE) blast
  with assms(1) show ?thesis by (auto simp: pool_ok_def row_ok_def intro: sorted_speed_lease)
qed

lemma acquire_fastest:
  assumes "pool_ok e" "acquire skip e = (Some r, e')" "q \<in> set (pool e)"
    "leasable (target_filter e) q" "address q \<notin> set skip \<or> address r \<in> set skip"
  shows "speed_mbps q \<le> speed_mbps r"
proof -
  from assms(2) obtain pre p post h where
    s: "pool e = pre @ p # post" "r = p\<lparr>busy := True\<rparr>" "h \<longrightarrow> address p \<notin> set skip"
    "\<forall>q\<in>set pre. leasable (target_filter e) q \<longrightarrow> h \<and> address q \<in> set skip"
    by (rule acquire_SomeE) blast
  have "q \<notin> set pre" using s assms(4,5) by auto
  then have "q = p \<or> q \<in> set post" using assms(3) s(1) by auto
  moreover have "sorted_wrt (\<lambda>p q. speed_mbps q \<le> speed_mbps p) (pool e)"
    using assms(1) sorted_speed_le by (auto simp: pool_ok_def)
  ultimately show ?thesis using s(1,2) by (auto simp: sorted_wrt_append)
qed

end
