(* ===== verification/Lease.thy ===== *)
theory Lease
  imports Double
begin

text \<open>
  The contract between a pool that leases addresses and a server that hands the leases to its
  connections: what an acquire and a release promise of the set of leased addresses, and what
  follows from it for a server that remembers, per connection, the addresses it handed out.
  \<open>Engine_Laws\<close> shows that the proxy pool keeps the contract, \<open>Server\<close> uses what follows.
\<close>

locale lease_pool =
  fixes acq :: "string list \<Rightarrow> 'e \<Rightarrow> string option \<times> 'e"
    and rel :: "string \<Rightarrow> bool \<Rightarrow> double \<Rightarrow> 'e \<Rightarrow> 'e"
    and lsd :: "'e \<Rightarrow> string set"
    and inv :: "'e \<Rightarrow> bool"
  assumes acq_inv: "inv e \<Longrightarrow> acq skip e = (r, e') \<Longrightarrow> inv e'"
    and acq_new: "inv e \<Longrightarrow> acq skip e = (Some u, e') \<Longrightarrow> u \<notin> lsd e \<and> lsd e' = insert u (lsd e)"
    and acq_none: "acq skip e = (None, e') \<Longrightarrow> e' = e"
    and rel_inv: "inv e \<Longrightarrow> inv (rel u s m e)"
    and rel_lsd: "inv e \<Longrightarrow> lsd (rel u s m e) = lsd e - {u}"
begin

lemma rel_all: "inv e \<Longrightarrow> inv (fold (\<lambda>u. rel u s m) us e) \<and> lsd (fold (\<lambda>u. rel u s m) us e) = lsd e - set us"
  by (induction us arbitrary: e) (auto simp: rel_inv rel_lsd)

text \<open>A connection holds \<open>h\<close>, the others hold \<open>H\<close>: every leased address is held by someone.\<close>

lemma cover_acq:
  "inv e \<Longrightarrow> lsd e \<subseteq> set h \<union> H \<Longrightarrow> acq skip e = (Some u, e') \<Longrightarrow> lsd e' \<subseteq> set (h @ [u]) \<union> H"
  using acq_new by auto

lemma cover_rel: "inv e \<Longrightarrow> lsd e \<subseteq> set h \<union> H \<Longrightarrow> lsd (rel u s m e) \<subseteq> set (remove1 u h) \<union> H"
proof -
  have "set h - {u} \<subseteq> set (remove1 u h)" by (induction h) auto
  then show "inv e \<Longrightarrow> lsd e \<subseteq> set h \<union> H \<Longrightarrow> lsd (rel u s m e) \<subseteq> set (remove1 u h) \<union> H"
    using rel_lsd by blast
qed

lemma cover_rel_all: "inv e \<Longrightarrow> lsd e \<subseteq> set h \<union> H \<Longrightarrow> lsd (fold (\<lambda>u. rel u s m) h e) \<subseteq> H"
  using rel_all by blast

text \<open>Nobody holds an address twice, and exactly the held addresses are leased.\<close>

lemma exclusive_acq:
  assumes "inv e" "lsd e = set h \<union> H" "acq skip e = (Some u, e')"
  shows "u \<notin> set h \<union> H" "lsd e' = set (h @ [u]) \<union> H"
  using acq_new [OF assms(1,3)] assms(2) by auto

lemma exclusive_rel:
  assumes "inv e" "lsd e = set h \<union> H" "distinct h" "set h \<inter> H = {}" "u \<in> set h"
  shows "lsd (rel u s m e) = set (remove1 u h) \<union> H"
  using rel_lsd [OF assms(1)] assms(2-5) by auto

lemma exclusive_rel_all:
  assumes "inv e" "lsd e = set h \<union> H" "set h \<inter> H = {}"
  shows "lsd (fold (\<lambda>u. rel u s m) h e) = H"
  using rel_all [OF assms(1)] assms(2,3) by auto

end

end
