(* ===== verification/Engine_Laws.thy ===== *)
theory Engine_Laws
  imports Engine Lease
begin

text \<open>
  What the pool's operations keep and change. The locale \<open>speed_sorter\<close> is the contract of
  \<open>std::sort\<close> with \<open>std::greater\<close> on rows; \<open>engine_env\<close> adds the iteration order of the
  \<open>unordered_map\<close> in \<open>install_tested\<close>. Both are interpreted on a stable insertion sort, which
  is what \<open>libstdc++\<close> runs on up to sixteen elements.
\<close>

section \<open>Sorting by speed\<close>

definition no_nan :: "proxy list \<Rightarrow> bool" where
  "no_nan ps \<longleftrightarrow> (\<forall>p\<in>set ps. speed_mbps p \<noteq> NaN)"

locale speed_sorter =
  fixes srt :: "proxy list \<Rightarrow> proxy list"
  assumes srt_mset: "no_nan ps \<Longrightarrow> mset (srt ps) = mset ps"
    and srt_sorted: "no_nan ps \<Longrightarrow> sorted_speed (srt ps)"
begin

lemma srt_set: "no_nan ps \<Longrightarrow> set (srt ps) = set ps"
  by (metis srt_mset set_mset_mset)

lemma srt_length: "no_nan ps \<Longrightarrow> length (srt ps) = length ps"
  by (metis srt_mset size_mset)

lemma srt_no_nan: "no_nan ps \<Longrightarrow> no_nan (srt ps)"
  unfolding no_nan_def by (simp add: srt_set no_nan_def)

lemma srt_busy_addrs: "no_nan ps \<Longrightarrow> busy_addrs (srt ps) = busy_addrs ps"
  by (rule busy_addrs_mset) (rule srt_mset)

lemma srt_distinct: "no_nan ps \<Longrightarrow> distinct (map address (srt ps)) \<longleftrightarrow> distinct (map address ps)"
proof -
  assume "no_nan ps"
  then have "mset (map address (srt ps)) = mset (map address ps)" by (simp add: srt_mset)
  then show ?thesis by (rule mset_eq_imp_distinct_iff)
qed

end

text \<open>The sort the witnesses run: descending, stable.\<close>

fun insert_speed :: "proxy \<Rightarrow> proxy list \<Rightarrow> proxy list" where
  "insert_speed p [] = [p]"
| "insert_speed p (q # qs) =
     (if speed_mbps q \<le> speed_mbps p then p # q # qs else q # insert_speed p qs)"

definition speed_sort :: "proxy list \<Rightarrow> proxy list" where
  "speed_sort ps = foldr insert_speed ps []"

lemma mset_insert_speed: "mset (insert_speed p ps) = add_mset p (mset ps)"
  by (induction ps) auto

lemma set_insert_speed: "set (insert_speed p ps) = insert p (set ps)"
  by (induction ps) auto

lemma mset_speed_sort: "mset (speed_sort ps) = mset ps"
  by (induction ps) (auto simp: speed_sort_def mset_insert_speed)

lemma sorted_insert_speed:
  "sorted_wrt (\<lambda>p q. speed_mbps q \<le> speed_mbps p) ps \<Longrightarrow>
   sorted_wrt (\<lambda>p q. speed_mbps q \<le> speed_mbps p) (insert_speed p ps)"
  by (induction ps) (auto simp: set_insert_speed)

lemma sorted_speed_sort: "sorted_wrt (\<lambda>p q. speed_mbps q \<le> speed_mbps p) (speed_sort ps)"
  by (induction ps) (auto simp: speed_sort_def intro: sorted_insert_speed)

interpretation speed_sort: speed_sorter speed_sort
proof
  fix ps assume "no_nan ps"
  show "mset (speed_sort ps) = mset ps" by (rule mset_speed_sort)
  have nn: "x \<in> set (speed_sort ps) \<Longrightarrow> speed_mbps x \<noteq> NaN" for x
    using \<open>no_nan ps\<close> mset_speed_sort [of ps] unfolding no_nan_def by (metis set_mset_mset)
  show "sorted_speed (speed_sort ps)"
    unfolding sorted_speed_def
    by (rule sorted_wrt_mono_rel [OF _ sorted_speed_sort]) (simp add: nn not_dgt_iff_le)
qed

locale engine_env = speed_sorter srt for srt +
  fixes itr :: "proxy list \<Rightarrow> proxy list"
  assumes itr_mset: "mset (itr ps) = mset ps"
begin

lemma itr_set: "set (itr ps) = set ps"
  by (metis itr_mset set_mset_mset)

lemma itr_length: "length (itr ps) = length ps"
  by (metis itr_mset size_mset)

lemma itr_busy_addrs: "busy_addrs (itr ps) = busy_addrs ps"
  by (rule busy_addrs_mset) (rule itr_mset)

end

text \<open>The map order the witnesses run: insertion order.\<close>

definition map_order :: "proxy list \<Rightarrow> proxy list" where
  "map_order ps = ps"

interpretation speed_sort: engine_env speed_sort map_order
  by unfold_locales (simp add: map_order_def)

section \<open>Releasing\<close>

lemma demotion_eq: "demotion = Fin (1 / 4)"
  by (simp add: demotion_def dbl_round_025)

lemma ema_eq:
  "ema_old = Fin (6305039478318694 / 2 ^ 53)" "ema_new = Fin (5404319552844595 / 2 ^ 54)"
  unfolding ema_old_def ema_new_def by (rule dbl_round_07 dbl_round_03)+

lemma row_ok_no_nan: "\<forall>p\<in>set ps. row_ok p \<Longrightarrow> no_nan ps"
  by (auto simp: no_nan_def row_ok_def)

lemma ema_speed_ok:
  "speed_ok x \<Longrightarrow> dgt m (Fin 0) \<Longrightarrow> speed_ok (dadd (dmul x ema_old) (dmul m ema_new))"
  unfolding ema_eq
  by (intro dadd_speed_ok dmul_speed_ok dmul_pos_speed_ok divide_pos_pos zero_less_power zero_less_numeral)

lemma released_row_speed: "speed_ok (speed_mbps p) \<Longrightarrow> speed_ok (speed_mbps (released_row s mbps p))"
  by (simp add: released_row_def Let_def demotion_eq ema_speed_ok dmul_speed_ok)

lemma released_row_simps [simp]:
  "address (released_row s mbps p) = address p"
  "busy (released_row s mbps p) = False"
  "latency_ms (released_row s mbps p) = latency_ms p"
  "target_ok (released_row s mbps p) = target_ok p"
  by (simp_all add: released_row_def Let_def)

lemma released_row_ok:
  "row_ok p \<Longrightarrow> alive (released_row s mbps p) \<Longrightarrow> row_ok (released_row s mbps p)"
  using released_row_speed [of p s mbps]
  by (auto simp: row_ok_def released_row_def Let_def split: if_splits)

lemma released_row_alive:
  "row_ok p \<Longrightarrow> alive (released_row s mbps p) \<longleftrightarrow> s \<or> fails p < 3"
  by (auto simp: row_ok_def released_row_def Let_def)

text \<open>The rows after the loop of \<open>release\<close>: no row, one row replaced, or one row erased.\<close>

lemma release_row_cases:
  "(url \<notin> address ` set ps \<and> release_row url s mbps ps = ps) \<or>
   (\<exists>pre p post. ps = pre @ p # post \<and> address p = url \<and> url \<notin> address ` set pre \<and>
      release_row url s mbps ps =
        (if alive (released_row s mbps p) then pre @ released_row s mbps p # post else pre @ post))"
proof (induction ps)
  case (Cons q qs)
  show ?case
  proof (cases "address q = url")
    case True
    then show ?thesis by (intro disjI2 exI [of _ "[]"] exI [of _ q] exI [of _ qs]) (auto simp: Let_def)
  next
    case False
    with Cons show ?thesis
    proof (elim disjE)
      assume "\<exists>pre p post. qs = pre @ p # post \<and> address p = url \<and> url \<notin> address ` set pre \<and>
        release_row url s mbps qs =
          (if alive (released_row s mbps p) then pre @ released_row s mbps p # post else pre @ post)"
      then obtain pre p post where "qs = pre @ p # post" "address p = url" "url \<notin> address ` set pre"
        "release_row url s mbps qs =
          (if alive (released_row s mbps p) then pre @ released_row s mbps p # post else pre @ post)"
        by blast
      with False show ?thesis
        by (intro disjI2, intro exI [where x = "q # pre"], intro exI [where x = p],
            intro exI [where x = post]) auto
    qed auto
  qed
qed simp

lemma release_row_ok:
  assumes "\<forall>p\<in>set ps. row_ok p"
  shows "\<forall>p\<in>set (release_row url s mbps ps). row_ok p"
  using release_row_cases [of url ps s mbps] assms released_row_ok
  by (elim disjE exE conjE) (auto split: if_splits)

lemma release_row_busy:
  assumes "distinct (map address ps)"
  shows "busy_addrs (release_row url s mbps ps) = busy_addrs ps - {url}"
  using release_row_cases [of url ps s mbps]
proof (elim disjE exE conjE)
  assume "url \<notin> address ` set ps" "release_row url s mbps ps = ps"
  then show ?thesis using busy_addrs_subset [of ps] by auto
next
  fix pre p post
  assume s: "ps = pre @ p # post" "address p = url" "release_row url s mbps ps =
    (if alive (released_row s mbps p) then pre @ released_row s mbps p # post else pre @ post)"
  have "url \<notin> busy_addrs pre" "url \<notin> busy_addrs post"
    using assms s(1,2) busy_addrs_subset [of pre] busy_addrs_subset [of post] by auto
  then show ?thesis using s by auto
qed

lemma release_row_addrs:
  "set (map address (release_row url s mbps ps)) \<subseteq> set (map address ps) \<and>
   set (map address ps) - {url} \<subseteq> set (map address (release_row url s mbps ps))"
  using release_row_cases [of url ps s mbps]
  by (elim disjE exE conjE) auto

lemma release_row_distinct:
  assumes "distinct (map address ps)"
  shows "distinct (map address (release_row url s mbps ps))"
  using release_row_cases [of url ps s mbps] assms
  by (elim disjE exE conjE) auto

context speed_sorter begin

lemma release_pool_ok:
  assumes "pool_ok e"
  shows "pool_ok (release srt url s mbps e)"
proof -
  have ok: "\<forall>p\<in>set (release_row url s mbps (pool e)). row_ok p"
    using assms by (intro release_row_ok) (simp add: pool_ok_def)
  then show ?thesis
    using srt_set srt_sorted row_ok_no_nan by (simp add: pool_ok_def release_def)
qed

lemma release_no_nan: "pool_ok e \<Longrightarrow> no_nan (release_row url s mbps (pool e))"
  by (intro row_ok_no_nan release_row_ok) (simp add: pool_ok_def)

lemma release_leased:
  "pool_ok e \<Longrightarrow> unique_rows e \<Longrightarrow> leased (release srt url s mbps e) = leased e - {url}"
  by (simp add: leased_def release_def srt_busy_addrs release_no_nan release_row_busy unique_rows_def)

lemma release_unique: "pool_ok e \<Longrightarrow> unique_rows e \<Longrightarrow> unique_rows (release srt url s mbps e)"
  by (simp add: unique_rows_def release_def srt_distinct release_no_nan release_row_distinct)

lemma release_mset:
  "pool_ok e \<Longrightarrow> mset (pool (release srt url s mbps e)) = mset (release_row url s mbps (pool e))"
  by (simp add: release_def srt_mset release_no_nan)

lemma release_frame:
  "cfg (release srt url s mbps e) = cfg e"
  "target_url (release srt url s mbps e) = target_url e"
  "target_filter (release srt url s mbps e) = target_filter e"
  by (simp_all add: release_def)

end

section \<open>Installing tested rows\<close>

text \<open>The rows that come out of a scoring pass: not leased, no failures, a proper speed.\<close>

definition fresh_row :: "proxy \<Rightarrow> bool" where
  "fresh_row p \<longleftrightarrow> row_ok p \<and> \<not> busy p \<and> fails p = 0"

lemma old_busy_rows_props:
  assumes "\<forall>p\<in>set acc. busy p" "distinct (map address acc)"
  shows "distinct (map address (old_busy_rows acc ps)) \<and>
    (\<forall>p\<in>set (old_busy_rows acc ps). busy p) \<and>
    set (old_busy_rows acc ps) \<subseteq> set acc \<union> set ps \<and>
    address ` set (old_busy_rows acc ps) = address ` set acc \<union> busy_addrs ps"
  using assms
proof (induction ps arbitrary: acc)
  case (Cons p ps)
  show ?case
  proof (cases "busy p \<and> address p \<notin> address ` set acc")
    case True
    with Cons.prems Cons.IH [of "acc @ [p]"] show ?thesis by auto
  next
    case False
    with Cons.prems Cons.IH [of acc] show ?thesis by auto
  qed
qed simp

lemma old_busy_rows_Nil:
  "distinct (map address (old_busy_rows [] ps))" "\<forall>p\<in>set (old_busy_rows [] ps). busy p"
  "set (old_busy_rows [] ps) \<subseteq> set ps" "address ` set (old_busy_rows [] ps) = busy_addrs ps"
  using old_busy_rows_props [of "[]" ps] by auto

lemma carry_rest: "snd (carry_leases ts old) = filter (\<lambda>p. address p \<notin> address ` set ts) old"
proof (induction ts arbitrary: old)
  case (Cons t ts)
  show ?case
  proof (cases "find (\<lambda>p. address p = address t) old")
    case None
    then have "\<forall>p\<in>set old. address p \<noteq> address t" by (simp add: find_None_iff)
    with None Cons show ?thesis
      by (auto simp: case_prod_unfold Let_def intro!: filter_cong)
  next
    case (Some q)
    with Cons show ?thesis
      by (auto simp: case_prod_unfold Let_def intro!: filter_cong)
  qed
qed simp

lemma carry_addrs: "map address (fst (carry_leases ts old)) = map address ts"
  by (induction ts arbitrary: old) (auto simp: case_prod_unfold Let_def split: option.splits)

lemma carry_busy:
  "busy_addrs (fst (carry_leases ts old)) = busy_addrs ts \<union> (address ` set old \<inter> address ` set ts)"
proof (induction ts arbitrary: old)
  case (Cons t ts)
  show ?case
  proof (cases "find (\<lambda>p. address p = address t) old")
    case None
    then have "\<forall>p\<in>set old. address p \<noteq> address t" by (simp add: find_None_iff)
    with None Cons show ?thesis by (auto simp: case_prod_unfold Let_def)
  next
    case (Some q)
    then have "q \<in> set old" "address q = address t" by (auto simp: find_Some_iff)
    then have "address t \<in> address ` set old" by (metis imageI)
    with Some Cons show ?thesis by (auto simp: case_prod_unfold Let_def)
  qed
qed simp

text \<open>Each row that \<open>carry_leases\<close> returns is a tested row, perhaps with an old row's lease.\<close>

lemma carry_rows:
  "p \<in> set (fst (carry_leases ts old)) \<Longrightarrow>
   p \<in> set ts \<or> (\<exists>t\<in>set ts. \<exists>q\<in>set old. address q = address t \<and> p = t\<lparr>busy := True, fails := fails q\<rparr>)"
proof (induction ts arbitrary: old)
  case (Cons t ts)
  show ?case
  proof (cases "find (\<lambda>p. address p = address t) old")
    case None
    with Cons show ?thesis by (auto simp: case_prod_unfold Let_def)
  next
    case (Some q)
    then have q: "q \<in> set old" "address q = address t" by (auto simp: find_Some_iff)
    from Some Cons.prems consider "p = t\<lparr>busy := True, fails := fails q\<rparr>"
      | "p \<in> set (fst (carry_leases ts (filter (\<lambda>p. address p \<noteq> address t) old)))"
      by (auto simp: case_prod_unfold Let_def)
    then show ?thesis
    proof cases
      case 1
      with q show ?thesis by auto
    next
      case 2
      from Cons.IH [OF this] show ?thesis by auto
    qed
  qed
qed simp

lemma carry_row_ok:
  assumes "\<forall>t\<in>set ts. row_ok t" "\<forall>q\<in>set old. row_ok q" "p \<in> set (fst (carry_leases ts old))"
  shows "row_ok p"
  using carry_rows [OF assms(3)] assms(1,2) by (auto simp: row_ok_def)

lemma fill_kept_eq: "fill_kept keep kept ts = kept @ take (keep - length kept) (filter (\<lambda>t. \<not> busy t) ts)"
proof (induction ts arbitrary: kept)
  case (Cons t ts)
  show ?case
  proof (cases "length kept < keep")
    case True
    then have "keep - length kept = Suc (keep - length (kept @ [t]))" by simp
    with True Cons show ?thesis by simp
  next
    case False
    then show ?thesis by simp
  qed
qed simp

lemma busy_addrs_filter: "busy_addrs (filter (\<lambda>p. address p \<notin> A) ps) = busy_addrs ps - A"
  by (auto simp: busy_addrs_def)

lemma busy_addrs_all: "\<forall>p\<in>set ps. busy p \<Longrightarrow> busy_addrs ps = address ` set ps"
  by (auto simp: busy_addrs_def)

text \<open>The rows between the two sorts of \<open>install_tested\<close>.\<close>

definition merged_rows :: "(proxy list \<Rightarrow> proxy list) \<Rightarrow> proxy list \<Rightarrow> proxy list \<Rightarrow> proxy list" where
  "merged_rows itr tested old_pool =
     fst (carry_leases tested (old_busy_rows [] old_pool)) @
     itr (snd (carry_leases tested (old_busy_rows [] old_pool)))"

lemma installed_rows_eq:
  "installed_rows srt itr keep tested old_pool =
     (let sorted = srt (merged_rows itr tested old_pool); held = filter busy sorted
      in srt (held @ take (keep - length held) (filter (\<lambda>t. \<not> busy t) sorted)))"
  by (simp add: installed_rows_def merged_rows_def fill_kept_eq case_prod_unfold Let_def)

context engine_env begin

lemma merged_row_ok:
  assumes "\<forall>t\<in>set tested. row_ok t" "\<forall>p\<in>set ps. row_ok p"
  shows "\<forall>p\<in>set (merged_rows itr tested ps). row_ok p"
proof -
  have old: "\<forall>q\<in>set (old_busy_rows [] ps). row_ok q"
    using assms(2) old_busy_rows_Nil(3) [of ps] by (meson subsetD)
  have carried: "\<forall>p\<in>set (fst (carry_leases tested (old_busy_rows [] ps))). row_ok p"
    by (intro ballI carry_row_ok [OF assms(1) old])
  have "\<forall>p\<in>set (itr (snd (carry_leases tested (old_busy_rows [] ps)))). row_ok p"
    using old by (simp add: itr_set carry_rest)
  with carried show ?thesis unfolding merged_rows_def set_append by blast
qed

lemma merged_busy:
  assumes "\<forall>t\<in>set tested. \<not> busy t"
  shows "busy_addrs (merged_rows itr tested ps) = busy_addrs ps"
proof -
  have "busy_addrs tested = {}" using assms by (auto simp: busy_addrs_def)
  moreover have "busy_addrs (filter (\<lambda>p. address p \<notin> address ` set tested) (old_busy_rows [] ps)) =
      busy_addrs ps - address ` set tested"
    by (simp add: busy_addrs_filter busy_addrs_all old_busy_rows_Nil)
  ultimately show ?thesis
    by (auto simp: merged_rows_def itr_busy_addrs carry_rest carry_busy old_busy_rows_Nil(4))
qed

lemma merged_distinct:
  assumes "distinct (map address tested)"
  shows "distinct (map address (merged_rows itr tested ps))"
proof -
  have "mset (map address (itr rest)) = mset (map address rest)" for rest
    by (simp add: itr_mset)
  then have "distinct (map address (itr rest)) \<longleftrightarrow> distinct (map address rest)" for rest
    by (rule mset_eq_imp_distinct_iff)
  moreover have "address ` set (fst (carry_leases tested old)) = address ` set tested" for old
    using carry_addrs [of tested old] by (metis list.set_map)
  moreover have "address ` set tested \<inter> address ` set (filter (\<lambda>p. address p \<notin> address ` set tested) old) = {}"
    for old by (auto, metis imageI)
  ultimately show ?thesis
    using assms old_busy_rows_Nil(1) [of ps]
    by (simp add: merged_rows_def carry_rest carry_addrs itr_set distinct_map_filter del: set_filter)
qed

end

lemma distinct_addrs_take:
  assumes "distinct (map address (held @ free))"
  shows "distinct (map address (held @ take n free))"
proof -
  have "map address (held @ take n free) = take (length held + n) (map address (held @ free))"
    by (simp add: take_map)
  then show ?thesis using assms distinct_take by metis
qed

text \<open>The rows \<open>install_tested\<close> keeps, as a part of the merged rows.\<close>

context engine_env begin

lemma installed_parts:
  assumes "no_nan (merged_rows itr tested ps)"
  obtains held free where
    "held = filter busy (srt (merged_rows itr tested ps))"
    "free = filter (\<lambda>t. \<not> busy t) (srt (merged_rows itr tested ps))"
    "set held \<union> set free = set (merged_rows itr tested ps)"
    "no_nan (held @ take n free)"
    "mset (installed_rows srt itr keep tested ps) = mset (held @ take (keep - length held) free)"
proof -
  let ?s = "srt (merged_rows itr tested ps)"
  have s: "set ?s = set (merged_rows itr tested ps)" by (rule srt_set [OF assms])
  have nn: "no_nan (filter busy ?s @ take k (filter (\<lambda>t. \<not> busy t) ?s))" for k
    using assms s by (auto simp: no_nan_def dest: in_set_takeD)
  show ?thesis
    using that [OF refl refl] s nn
    by (auto simp: installed_rows_eq Let_def srt_mset simp del: mset_append)
qed

lemma installed_set:
  assumes "no_nan (merged_rows itr tested ps)"
  shows "set (installed_rows srt itr keep tested ps) \<subseteq> set (merged_rows itr tested ps)"
  using assms
proof (rule installed_parts [where keep = keep and n = 0])
  fix held free :: "proxy list"
  assume "set held \<union> set free = set (merged_rows itr tested ps)"
    "mset (installed_rows srt itr keep tested ps) = mset (held @ take (keep - length held) free)"
  then show ?thesis by (metis (no_types) set_append set_mset_mset set_take_subset sup_mono order_refl)
qed

lemma installed_busy:
  assumes "no_nan (merged_rows itr tested ps)"
  shows "busy_addrs (installed_rows srt itr keep tested ps) = busy_addrs (merged_rows itr tested ps)"
  using assms
proof (rule installed_parts [where keep = keep and n = 0])
  fix held free :: "proxy list"
  assume h: "held = filter busy (srt (merged_rows itr tested ps))"
    "free = filter (\<lambda>t. \<not> busy t) (srt (merged_rows itr tested ps))"
    "set held \<union> set free = set (merged_rows itr tested ps)"
    "mset (installed_rows srt itr keep tested ps) = mset (held @ take (keep - length held) free)"
  have "busy_addrs (installed_rows srt itr keep tested ps) = busy_addrs (held @ take (keep - length held) free)"
    by (rule busy_addrs_mset) (rule h(4))
  also have "busy_addrs (take (keep - length held) free) = {}"
    using h(2) by (auto simp: busy_addrs_def dest: in_set_takeD)
  then have "busy_addrs (held @ take (keep - length held) free) = busy_addrs held" by simp
  also have "busy_addrs held = busy_addrs (merged_rows itr tested ps)"
    using h(1) srt_set [OF assms] by (auto simp: busy_addrs_def)
  finally show ?thesis .
qed

end

context engine_env begin

lemma install_pool_ok:
  assumes "pool_ok e" "\<forall>t\<in>set tested. row_ok t"
  shows "pool_ok (install_tested srt itr tested e)"
proof -
  have m: "\<forall>p\<in>set (merged_rows itr tested (pool e)). row_ok p"
    using assms by (intro merged_row_ok) (auto simp: pool_ok_def)
  then have nn: "no_nan (merged_rows itr tested (pool e))" by (rule row_ok_no_nan)
  let ?sorted = "srt (merged_rows itr tested (pool e))"
  have "no_nan (filter busy ?sorted @ take k (filter (\<lambda>t. \<not> busy t) ?sorted))" for k
    using srt_no_nan [OF nn] by (auto simp: no_nan_def dest: in_set_takeD)
  then have "sorted_speed (installed_rows srt itr (max_keep (cfg e)) tested (pool e))"
    by (simp add: installed_rows_eq Let_def srt_sorted)
  then show ?thesis
    using installed_set [OF nn] m by (auto simp: pool_ok_def install_tested_def)
qed

lemma merged_no_nan:
  "pool_ok e \<Longrightarrow> \<forall>t\<in>set tested. row_ok t \<Longrightarrow> no_nan (merged_rows itr tested (pool e))"
  by (intro row_ok_no_nan merged_row_ok) (simp_all add: pool_ok_def)

lemma install_leased:
  assumes "pool_ok e" "\<forall>t\<in>set tested. fresh_row t"
  shows "leased (install_tested srt itr tested e) = leased e"
proof -
  have t: "\<forall>t\<in>set tested. row_ok t" "\<forall>t\<in>set tested. \<not> busy t"
    using assms(2) by (auto simp: fresh_row_def)
  show ?thesis
    using installed_busy [OF merged_no_nan [OF assms(1) t(1)]] merged_busy [OF t(2)]
    by (simp add: leased_def install_tested_def)
qed

lemma install_unique:
  assumes "pool_ok e" "\<forall>t\<in>set tested. row_ok t" "distinct (map address tested)"
  shows "unique_rows (install_tested srt itr tested e)"
  using merged_no_nan [OF assms(1,2)]
proof (rule installed_parts [where keep = "max_keep (cfg e)" and n = 0])
  fix held free :: "proxy list"
  let ?m = "merged_rows itr tested (pool e)"
  assume h: "held = filter busy (srt ?m)" "free = filter (\<lambda>t. \<not> busy t) (srt ?m)"
    "mset (installed_rows srt itr (max_keep (cfg e)) tested (pool e)) =
     mset (held @ take (max_keep (cfg e) - length held) free)"
  have "distinct (map address (srt ?m))"
    using srt_distinct [OF merged_no_nan [OF assms(1,2)]] merged_distinct [OF assms(3)] by blast
  moreover have "mset (map address (srt ?m)) = mset (map address (held @ free))"
    using h(1,2) multiset_partition [of "mset (srt ?m)" busy]
    by (metis mset_append mset_filter mset_map)
  ultimately have "distinct (map address (held @ free))"
    using mset_eq_imp_distinct_iff by blast
  then have "distinct (map address (held @ take n free))" for n
    by (rule distinct_addrs_take)
  then have d: "distinct (map address (held @ take (max_keep (cfg e) - length held) free))" .
  have "mset (map address (installed_rows srt itr (max_keep (cfg e)) tested (pool e))) =
      mset (map address (held @ take (max_keep (cfg e) - length held) free))"
    using arg_cong [OF h(3), of "image_mset address"] by simp
  then have "distinct (map address (installed_rows srt itr (max_keep (cfg e)) tested (pool e)))"
    using d mset_eq_imp_distinct_iff by blast
  then show ?thesis by (simp add: unique_rows_def install_tested_def)
qed

lemma install_length:
  assumes "pool_ok e" "\<forall>t\<in>set tested. row_ok t"
  shows "length (pool (install_tested srt itr tested e)) \<le>
    max (max_keep (cfg e)) (length (filter busy (merged_rows itr tested (pool e))))"
  using merged_no_nan [OF assms]
proof (rule installed_parts [where keep = "max_keep (cfg e)" and n = 0])
  fix held free :: "proxy list"
  let ?m = "merged_rows itr tested (pool e)"
  assume h: "held = filter busy (srt ?m)"
    "mset (installed_rows srt itr (max_keep (cfg e)) tested (pool e)) =
     mset (held @ take (max_keep (cfg e) - length held) free)"
  have "mset held = mset (filter busy ?m)"
    using h(1) by (simp add: srt_mset [OF merged_no_nan [OF assms]])
  then have "length held = length (filter busy ?m)" by (metis size_mset)
  moreover have "length (installed_rows srt itr (max_keep (cfg e)) tested (pool e)) =
      length (held @ take (max_keep (cfg e) - length held) free)"
    using h(2) by (metis size_mset)
  ultimately show ?thesis by (simp add: install_tested_def)
qed

text \<open>A free row that \<open>install_tested\<close> drops is not faster than any free row it keeps.\<close>

lemma install_keeps_fastest:
  assumes "pool_ok e" "\<forall>t\<in>set tested. row_ok t"
    and d: "d \<in> set (merged_rows itr tested (pool e))" "\<not> busy d"
      "d \<notin> set (pool (install_tested srt itr tested e))"
    and k: "k \<in> set (pool (install_tested srt itr tested e))" "\<not> busy k"
  shows "speed_mbps d \<le> speed_mbps k"
  using merged_no_nan [OF assms(1,2)]
proof (rule installed_parts [where keep = "max_keep (cfg e)" and n = 0])
  fix held free :: "proxy list"
  let ?m = "merged_rows itr tested (pool e)" and ?n = "max_keep (cfg e) - length held"
  assume h: "held = filter busy (srt ?m)" "free = filter (\<lambda>t. \<not> busy t) (srt ?m)"
    "set held \<union> set free = set ?m"
    "mset (installed_rows srt itr (max_keep (cfg e)) tested (pool e)) = mset (held @ take ?n free)"
  have ok: "\<forall>p\<in>set ?m. row_ok p"
    using assms by (intro merged_row_ok) (auto simp: pool_ok_def)
  note nn = merged_no_nan [OF assms(1,2)]
  have "sorted_wrt (\<lambda>p q. speed_mbps q \<le> speed_mbps p) (srt ?m)"
    using srt_sorted [OF nn] srt_set [OF nn] ok sorted_speed_le by metis
  then have "sorted_wrt (\<lambda>p q. speed_mbps q \<le> speed_mbps p) (take ?n free @ drop ?n free)"
    using h(2) by (simp add: sorted_wrt_filter)
  moreover have set_eq: "set (installed_rows srt itr (max_keep (cfg e)) tested (pool e)) =
      set held \<union> set (take ?n free)"
    using h(4) by (metis set_append set_mset_mset)
  have "k \<in> set (take ?n free)"
    using k set_eq h(1) by (auto simp: install_tested_def)
  moreover have "d \<in> set free" "d \<notin> set (take ?n free)"
    using d set_eq h(1,3) by (auto simp: install_tested_def)
  then have "d \<in> set (drop ?n free)"
    by (metis Un_iff append_take_drop_id set_append)
  ultimately show ?thesis by (simp add: sorted_wrt_append del: append_take_drop_id)
qed

end

section \<open>Checking against a target\<close>

text \<open>What the transfers deliver: one entry per address, among those asked for, with a speed.\<close>

definition probes_ok :: "(string \<Rightarrow> string list \<Rightarrow> (string \<times> double) list option) \<Rightarrow> bool" where
  "probes_ok probes \<longleftrightarrow>
     (\<forall>url addrs ok. probes url addrs = Some ok \<longrightarrow> distinct (map fst ok) \<and>
        fst ` set ok \<subseteq> set addrs \<and> (\<forall>(a, v)\<in>set ok. speed_ok v))"

definition passes_ok :: "proxy list list \<Rightarrow> bool" where
  "passes_ok passes \<longleftrightarrow>
     (\<forall>tested\<in>set passes. (\<forall>t\<in>set tested. fresh_row t) \<and> distinct (map address tested))"

lemma verify_row_simps [simp]:
  "address (verify_row ok p) = address p"
  "busy (verify_row ok p) = busy p"
  "target_ok (verify_row ok p) \<longleftrightarrow> address p \<in> fst ` set ok"
  by (auto simp: verify_row_def weak_map_of_SomeI dest: map_of_SomeD split: option.splits
      intro: rev_image_eqI) (metis image_iff map_of_eq_None_iff option.distinct(1) fst_conv)

lemma verify_row_ok:
  assumes "row_ok p" "\<forall>(a, v)\<in>set ok. speed_ok v"
  shows "row_ok (verify_row ok p)"
  using assms by (auto simp: row_ok_def verify_row_def dest: map_of_SomeD split: option.splits)

context speed_sorter begin

lemma verify_finish_pool_ok:
  assumes "pool_ok e" "\<forall>(a, v)\<in>set ok. speed_ok v"
  shows "pool_ok (snd (verify_finish srt ok e))"
proof -
  have r: "\<forall>p\<in>set (map (verify_row ok) (pool e)). row_ok p"
    using assms verify_row_ok by (auto simp: pool_ok_def)
  then show ?thesis
    using srt_set srt_sorted row_ok_no_nan [OF r] by (simp add: pool_ok_def verify_finish_def)
qed

lemma verify_finish_no_nan:
  assumes "pool_ok e" "\<forall>(a, v)\<in>set ok. speed_ok v"
  shows "no_nan (map (verify_row ok) (pool e))"
  using assms verify_row_ok by (intro row_ok_no_nan) (auto simp: pool_ok_def)

lemma verify_finish_leased:
  assumes "pool_ok e" "\<forall>(a, v)\<in>set ok. speed_ok v"
  shows "leased (snd (verify_finish srt ok e)) = leased e"
proof -
  have "busy_addrs (map (verify_row ok) ps) = busy_addrs ps" for ps
    by (induction ps) auto
  then show ?thesis
    using srt_busy_addrs [OF verify_finish_no_nan [OF assms]]
    by (simp add: leased_def verify_finish_def)
qed

lemma verify_finish_unique:
  assumes "pool_ok e" "unique_rows e" "\<forall>(a, v)\<in>set ok. speed_ok v"
  shows "unique_rows (snd (verify_finish srt ok e))"
  using srt_distinct [OF verify_finish_no_nan [OF assms(1,3)]] assms(2)
  by (simp add: unique_rows_def verify_finish_def comp_def)

lemma verify_finish_set:
  assumes "pool_ok e" "\<forall>(a, v)\<in>set ok. speed_ok v"
  shows "set (pool (snd (verify_finish srt ok e))) = verify_row ok ` set (pool e)"
  using srt_set [OF verify_finish_no_nan [OF assms]] by (simp add: verify_finish_def)

end

lemma verify_begin_props:
  assumes "verify_begin url e = Some (addrs, e1)"
  shows "pool_ok e \<Longrightarrow> pool_ok e1" "unique_rows e \<Longrightarrow> unique_rows e1" "leased e1 = leased e"
    "target_filter e1" "cfg e1 = cfg e" "\<forall>q\<in>set (pool e1). \<not> leasable (target_filter e1) q"
proof -
  have e1: "e1 = e\<lparr>target_url := url, target_filter := True,
      pool := map (\<lambda>p. p\<lparr>target_ok := False\<rparr>) (pool e)\<rparr>"
    using assms by (auto simp: verify_begin_def split: if_splits)
  have b: "busy_addrs (map (\<lambda>p. p\<lparr>target_ok := False\<rparr>) ps) = busy_addrs ps" for ps
    by (induction ps) auto
  show "pool_ok e \<Longrightarrow> pool_ok e1"
    by (auto simp: e1 pool_ok_def row_ok_def sorted_speed_def sorted_wrt_map)
  show "unique_rows e \<Longrightarrow> unique_rows e1" by (simp add: e1 unique_rows_def comp_def)
  show "leased e1 = leased e" by (simp add: e1 leased_def b)
  show "target_filter e1" "cfg e1 = cfg e" "\<forall>q\<in>set (pool e1). \<not> leasable (target_filter e1) q"
    by (auto simp: e1 leasable_def)
qed

context engine_env begin

lemma install_all_keeps:
  assumes "passes_ok passes" "pool_ok e"
  shows "pool_ok (install_all srt itr passes e) \<and> leased (install_all srt itr passes e) = leased e \<and>
    (unique_rows e \<longrightarrow> unique_rows (install_all srt itr passes e))"
  using assms
proof (induction passes arbitrary: e)
  case (Cons tested passes)
  then have t: "\<forall>t\<in>set tested. fresh_row t" "\<forall>t\<in>set tested. row_ok t" "distinct (map address tested)"
    "passes_ok passes" by (auto simp: passes_ok_def fresh_row_def)
  have "pool_ok (install_tested srt itr tested e)" by (rule install_pool_ok [OF Cons.prems(2) t(2)])
  from Cons.IH [OF t(4) this] show ?case
    using install_leased [OF Cons.prems(2) t(1)] install_unique [OF Cons.prems(2) t(2,3)]
    by (simp add: install_all_def)
qed (simp add: install_all_def)

lemma verify_target_keeps:
  assumes "probes_ok probes" "passes_ok passes" "pool_ok e" "unique_rows e"
    "verify_target srt itr probes passes url e = (n, e')"
  shows "pool_ok e' \<and> unique_rows e' \<and> leased e' = leased e"
proof (cases "verify_begin url e")
  case None
  then show ?thesis using assms by (simp add: verify_target_def)
next
  case (Some ae)
  obtain addrs e1 where ae: "ae = (addrs, e1)" by fastforce
  note b = verify_begin_props [OF Some [unfolded ae]]
  show ?thesis
  proof (cases "probes url addrs")
    case None
    then show ?thesis using assms Some ae b by (simp add: verify_target_def)
  next
    case (Some ok)
    then have ok: "\<forall>(a, v)\<in>set ok. speed_ok v" using assms(1) by (simp add: probes_ok_def)
    have i: "pool_ok (install_all srt itr passes e1)" "unique_rows (install_all srt itr passes e1)"
      "leased (install_all srt itr passes e1) = leased e"
      using install_all_keeps [OF assms(2) b(1) [OF assms(3)]] b(2) [OF assms(4)] b(3) by auto
    have "e' = snd (verify_finish srt ok (install_all srt itr passes e1))"
      using assms(5) Some ae \<open>verify_begin url e = Some ae\<close> by (simp add: verify_target_def)
    then show ?thesis
      using verify_finish_pool_ok [OF i(1) ok] verify_finish_leased [OF i(1) ok]
        verify_finish_unique [OF i(1,2) ok] i(3) by simp
  qed
qed

end

lemma merged_addrs: "address ` set (merged_rows itr tested ps) \<subseteq> address ` set tested \<union> busy_addrs ps"
  if "engine_env srt itr"
proof -
  have "address ` set (fst (carry_leases tested old)) = address ` set tested" for old
    using carry_addrs [of tested old] by (metis list.set_map)
  then show ?thesis
    using old_busy_rows_Nil(4) [of ps] engine_env.itr_set [OF that]
    by (fastforce simp: merged_rows_def carry_rest image_Un)
qed

section \<open>The pool keeps the lease contract\<close>

definition pool_inv :: "engine \<Rightarrow> bool" where
  "pool_inv e \<longleftrightarrow> pool_ok e \<and> unique_rows e"

definition acquire_url :: "string list \<Rightarrow> engine \<Rightarrow> string option \<times> engine" where
  "acquire_url skip e = map_prod (map_option address) id (acquire skip e)"

sublocale speed_sorter \<subseteq> lease_pool acquire_url "release srt" leased pool_inv
proof
  fix e e' :: engine and skip :: "string list" and r u
  show "pool_inv e \<Longrightarrow> acquire_url skip e = (r, e') \<Longrightarrow> pool_inv e'"
    by (cases "acquire skip e")
      (auto simp: acquire_url_def pool_inv_def intro: acquire_pool_ok acquire_unique)
  show "pool_inv e \<Longrightarrow> acquire_url skip e = (Some u, e') \<Longrightarrow> u \<notin> leased e \<and> leased e' = insert u (leased e)"
    by (cases "acquire skip e")
      (auto simp: acquire_url_def pool_inv_def dest: acquire_fresh acquire_leased)
  show "acquire_url skip e = (None, e') \<Longrightarrow> e' = e"
    by (cases "acquire skip e") (auto simp: acquire_url_def dest: acquire_None_same)
next
  fix e :: engine and u :: string and s :: bool and m :: double
  show "pool_inv e \<Longrightarrow> pool_inv (release srt u s m e)"
    by (simp add: pool_inv_def release_pool_ok release_unique)
  show "pool_inv e \<Longrightarrow> leased (release srt u s m e) = leased e - {u}"
    by (simp add: pool_inv_def release_leased)
qed

interpretation sorted_pool: lease_pool acquire_url "release speed_sort" leased pool_inv
  by (rule speed_sort.lease_pool_axioms)

end
