(* ===== verification/Ipc.thy ===== *)
theory Ipc
  imports Proxy_List
begin

text \<open>
  The line protocol between client and daemon (\<open>include/proxchunk/proxy_ipc.hpp\<close>,
  \<open>src/proxy_ipc.cpp\<close>): splitting a line into words, and reading and writing one line on a
  stream socket. The kernel decides how many bytes a \<open>send\<close> or \<open>recv\<close> moves and when they fail;
  its answers are a script, one entry per pass of the loop. A \<open>recv\<close> beyond the end of the script
  finds nothing (\<open>EAGAIN\<close>, or the poll times out).
\<close>

section \<open>Words\<close>

text \<open>\<open>k_ipc_max_line\<close>.\<close>

definition k_ipc_max_line :: nat where
  "k_ipc_max_line = 4096"

lemma length_dropWhile_takeWhile:
  "xs \<noteq> [] \<Longrightarrow> P (hd xs) \<Longrightarrow> length (dropWhile P xs) < length xs"
  by (cases xs) (auto simp: less_Suc_eq_le length_dropWhile_le)

text \<open>\<open>ipc_split\<close>.\<close>

function ipc_split :: "string \<Rightarrow> string list" where
  "ipc_split line =
     (let rest = dropWhile (\<lambda>c. c = sp) line
      in if rest = [] then []
         else takeWhile (\<lambda>c. c \<noteq> sp) rest # ipc_split (dropWhile (\<lambda>c. c \<noteq> sp) rest))"
  by pat_completeness auto
termination
proof (relation "measure length")
  fix line rest :: string
  assume rest: "rest = dropWhile (\<lambda>c. c = sp) line" "rest \<noteq> []"
  then have "hd rest \<noteq> sp" using hd_dropWhile [of "\<lambda>c. c = sp" line] by simp
  then have "length (dropWhile (\<lambda>c. c \<noteq> sp) rest) < length rest"
    using rest(2) by (intro length_dropWhile_takeWhile) auto
  then show "(dropWhile (\<lambda>c. c \<noteq> sp) rest, line) \<in> measure length"
    using rest(1) length_dropWhile_le [of "\<lambda>c. c = sp" line] by simp
qed simp

declare ipc_split.simps [simp del]

definition wire_word :: "string \<Rightarrow> bool" where
  "wire_word w \<longleftrightarrow> w \<noteq> [] \<and> sp \<notin> set w"

lemma wire_word_solid: "solid w \<Longrightarrow> w \<noteq> [] \<Longrightarrow> wire_word w"
  by (simp add: wire_word_def solid_no_space)

lemma takeWhile_word: "sp \<notin> set w \<Longrightarrow> takeWhile (\<lambda>c. c \<noteq> sp) (w @ sp # s) = w"
  by (rule takeWhile_append_stop) auto

lemma dropWhile_word: "sp \<notin> set w \<Longrightarrow> dropWhile (\<lambda>c. c \<noteq> sp) (w @ sp # s) = sp # s"
  by (rule dropWhile_append_stop) auto

lemma ipc_split_Nil [simp]: "ipc_split [] = []"
  by (simp add: ipc_split.simps)

lemma ipc_split_space [simp]: "ipc_split (sp # s) = ipc_split s"
  by (simp add: ipc_split.simps [of "sp # s"] ipc_split.simps [of s])

lemma wire_word_front: "wire_word w \<Longrightarrow> dropWhile (\<lambda>c. c = sp) (w @ s) = w @ s"
  by (cases w) (auto simp: wire_word_def)

lemma ipc_split_word: "wire_word w \<Longrightarrow> ipc_split (w @ sp # s) = w # ipc_split s"
proof -
  assume w: "wire_word w"
  then have "sp \<notin> set w" "w \<noteq> []" by (simp_all add: wire_word_def)
  then show ?thesis
    by (simp add: ipc_split.simps [of "w @ sp # s"] wire_word_front [OF w] takeWhile_word dropWhile_word)
qed

lemma ipc_split_last: "wire_word w \<Longrightarrow> ipc_split w = [w]"
proof -
  assume w: "wire_word w"
  then have "\<forall>c\<in>set w. c \<noteq> sp" by (auto simp: wire_word_def)
  then have t: "takeWhile (\<lambda>c. c \<noteq> sp) w = w" "dropWhile (\<lambda>c. c \<noteq> sp) w = []" by simp_all
  have d: "dropWhile (\<lambda>c. c = sp) w = w" using wire_word_front [OF w, of "[]"] by simp
  show ?thesis using w by (simp add: ipc_split.simps [of w] d t wire_word_def)
qed

text \<open>The words of a command joined by single spaces, as both sides write it.\<close>

fun unwords :: "string list \<Rightarrow> string" where
  "unwords [] = []"
| "unwords [w] = w"
| "unwords (w # ws) = w @ sp # unwords ws"

lemma ipc_split_unwords [str_simps]: "\<forall>w\<in>set ws. wire_word w \<Longrightarrow> ipc_split (unwords ws) = ws"
  by (induction ws rule: unwords.induct) (simp_all add: ipc_split_word ipc_split_last)

lemma ipc_split_words: "w \<in> set (ipc_split s) \<Longrightarrow> wire_word w"
proof (induction s rule: ipc_split.induct)
  case (1 line)
  let ?rest = "dropWhile (\<lambda>c. c = sp) line"
  show ?case
  proof (cases "?rest = []")
    case False
    then have "hd ?rest \<noteq> sp" using hd_dropWhile [of "\<lambda>c. c = sp" line] by simp
    with False have "wire_word (takeWhile (\<lambda>c. c \<noteq> sp) ?rest)"
      by (cases ?rest) (auto simp: wire_word_def dest: set_takeWhileD)
    moreover have "ipc_split line = takeWhile (\<lambda>c. c \<noteq> sp) ?rest # ipc_split (dropWhile (\<lambda>c. c \<noteq> sp) ?rest)"
      using False by (subst ipc_split.simps) (simp only: Let_def if_False)
    ultimately show ?thesis using 1 False by (metis set_ConsD)
  qed (use 1 in \<open>auto simp: ipc_split.simps [of line]\<close>)
qed

section \<open>Writing a line\<close>

text \<open>
  What one pass of the loop of \<open>ipc_write_line\<close> meets: a \<open>send\<close> of some bytes, an interrupted one,
  a full socket buffer that drains before the deadline or does not, or another error.
\<close>

datatype send_outcome = Sent nat | Send_intr | Send_again bool | Send_error

text \<open>
  The loop from \<open>off\<close> on, with the bytes still to send: whether all were sent, the bytes that were,
  and the rest of the script. A script that ends is a peer that never reads again: the deadline
  passes.
\<close>

fun write_loop :: "string \<Rightarrow> send_outcome list \<Rightarrow> bool \<times> string" where
  "write_loop [] script = (True, [])"
| "write_loop (b # bs) [] = (False, [])"
| "write_loop (b # bs) (Sent n # script) =
     (if n = 0 then (False, [])
      else (let (ok, out) = write_loop (drop n (b # bs)) script in (ok, take n (b # bs) @ out)))"
| "write_loop (b # bs) (Send_intr # script) = write_loop (b # bs) script"
| "write_loop (b # bs) (Send_again True # script) = write_loop (b # bs) script"
| "write_loop (b # bs) (Send_again False # script) = (False, [])"
| "write_loop (b # bs) (Send_error # script) = (False, [])"

text \<open>\<open>ipc_write_line\<close>: the bytes it frames, \<open>None\<close> when it refuses the line, and the write.\<close>

definition framed :: "string \<Rightarrow> string option" where
  "framed line =
     (if length line > k_ipc_max_line - 1 then None
      else (let buf = (if line = [] \<or> last line \<noteq> nl then line @ [nl] else line)
            in if length buf > k_ipc_max_line then None else Some buf))"

definition ipc_write_line :: "bool \<Rightarrow> string \<Rightarrow> send_outcome list \<Rightarrow> bool \<times> string" where
  "ipc_write_line fd_open line script =
     (if \<not> fd_open then (False, [])
      else (case framed line of None \<Rightarrow> (False, []) | Some buf \<Rightarrow> write_loop buf script))"

lemma write_loop_prefix: "write_loop bs script = (ok, out) \<Longrightarrow> (\<exists>rest. bs = out @ rest) \<and> (ok \<longrightarrow> out = bs)"
proof (induction bs script arbitrary: ok out rule: write_loop.induct)
  case (3 b bs n script)
  show ?case
  proof (cases "n = 0")
    case False
    obtain ok' out' where w: "write_loop (drop n (b # bs)) script = (ok', out')" by fastforce
    with 3 False have "out = take n (b # bs) @ out'" "ok = ok'" by auto
    moreover from 3(1) [OF False w] obtain rest where "drop n (b # bs) = out' @ rest" "ok' \<longrightarrow> out' = drop n (b # bs)"
      by blast
    ultimately show ?thesis by (metis append.assoc append_take_drop_id)
  qed (use 3 in auto)
qed auto

section \<open>Reading a line\<close>

text \<open>\<open>enum class ipc_read_result\<close>.\<close>

datatype ipc_read_result = Line | Again | Eof | Error | Overflow

text \<open>\<open>extract_line\<close>: the first line of the buffer, without \<open>\\n\<close> and a \<open>\\r\<close> before it, and the rest.\<close>

definition strip_cr :: "string \<Rightarrow> string" where
  "strip_cr line = (if line \<noteq> [] \<and> last line = cr then butlast line else line)"

definition extract_line :: "string \<Rightarrow> (string \<times> string) option" where
  "extract_line leftover =
     (case find_char nl leftover of
        None \<Rightarrow> None
      | Some pos \<Rightarrow> Some (strip_cr (take pos leftover), drop (pos + 1) leftover))"

text \<open>
  One pass of the loop of \<open>ipc_read_line\<close>. A blocking call polls first: the deadline has passed,
  \<open>poll\<close> times out, is interrupted, fails, reports an error or only a hangup, or says the socket is
  readable. Then it receives at most 256 bytes.
\<close>

datatype poll_outcome =
  Deadline_passed | Poll_timeout | Poll_intr | Poll_fail | Poll_bad | Poll_hup | Poll_ready

datatype recv_outcome = Recv_data string | Recv_closed | Recv_intr | Recv_again | Recv_fail

type_synonym read_script = "(poll_outcome \<times> recv_outcome) list"

text \<open>What the checks after \<open>extract_line\<close> return.\<close>

definition line_result :: "string \<Rightarrow> ipc_read_result" where
  "line_result line = (if length line > k_ipc_max_line - 1 then Overflow else Line)"

definition closed_result :: "string \<Rightarrow> ipc_read_result" where
  "closed_result leftover = (if leftover = [] then Eof else Error)"

fun read_loop :: "bool \<Rightarrow> string \<Rightarrow> read_script \<Rightarrow> ipc_read_result \<times> string \<times> string \<times> read_script" where
  "read_loop blocking leftover [] = (Again, [], leftover, [])"
| "read_loop blocking leftover ((p, r) # script) =
     (if blocking \<and> (p = Deadline_passed \<or> p = Poll_timeout) then (Again, [], leftover, script)
      else if blocking \<and> p = Poll_intr then read_loop blocking leftover script
      else if blocking \<and> (p = Poll_fail \<or> p = Poll_bad) then (Error, [], leftover, script)
      else if blocking \<and> p = Poll_hup then (closed_result leftover, [], leftover, script)
      else case r of
        Recv_intr \<Rightarrow> read_loop blocking leftover script
      | Recv_again \<Rightarrow> (Again, [], leftover, script)
      | Recv_fail \<Rightarrow> (Error, [], leftover, script)
      | Recv_closed \<Rightarrow> (closed_result leftover, [], leftover, script)
      | Recv_data tmp \<Rightarrow>
          (case extract_line (leftover @ tmp) of
             Some (line, leftover') \<Rightarrow> (line_result line, line, leftover', script)
           | None \<Rightarrow>
               if length (leftover @ tmp) \<ge> k_ipc_max_line then (Overflow, [], leftover @ tmp, script)
               else if \<not> blocking then (Again, [], leftover @ tmp, script)
               else read_loop blocking (leftover @ tmp) script))"

text \<open>\<open>ipc_read_line\<close>: the result, \<open>line\<close>, \<open>leftover\<close>, and the rest of the script.\<close>

definition ipc_read_line ::
  "bool \<Rightarrow> bool \<Rightarrow> string \<Rightarrow> read_script \<Rightarrow> ipc_read_result \<times> string \<times> string \<times> read_script" where
  "ipc_read_line fd_open blocking leftover script =
     (case extract_line leftover of
        Some (line, leftover') \<Rightarrow> (line_result line, line, leftover', script)
      | None \<Rightarrow>
          if length leftover \<ge> k_ipc_max_line then (Overflow, [], leftover, script)
          else if \<not> fd_open then (Error, [], leftover, script)
          else read_loop blocking leftover script)"

section \<open>Framing\<close>

lemma extract_line_None [str_simps]: "extract_line s = None \<longleftrightarrow> nl \<notin> set s"
  using find_char_None [of nl s] by (auto simp: extract_line_def split: option.splits)

lemma extract_line_framed [str_simps]: "nl \<notin> set l \<Longrightarrow> extract_line (l @ nl # rest) = Some (strip_cr l, rest)"
  by (simp add: extract_line_def find_char_append_stop)

lemma extract_line_SomeE:
  assumes "extract_line s = Some (l, rest)"
  obtains raw where "s = raw @ nl # rest" "nl \<notin> set raw" "l = strip_cr raw"
proof -
  from assms obtain i where i: "find_char nl s = Some i" "l = strip_cr (take i s)" "rest = drop (i + 1) s"
    by (auto simp: extract_line_def split: option.splits)
  from find_char_SomeD [OF i(1)] i(2,3) that [of "take i s"] show ?thesis by simp
qed

lemma strip_cr_id: "l = [] \<or> last l \<noteq> cr \<Longrightarrow> strip_cr l = l"
  by (auto simp: strip_cr_def)

lemma length_strip_cr: "length (strip_cr l) \<le> length l"
  by (simp add: strip_cr_def)

lemma strip_cr_set: "set (strip_cr l) \<subseteq> set l"
  by (auto simp: strip_cr_def dest: in_set_butlastD)

text \<open>The bytes a script delivers, and a script that delivers them without failing.\<close>

fun pass_data :: "poll_outcome \<times> recv_outcome \<Rightarrow> string" where
  "pass_data (Poll_ready, Recv_data s) = s"
| "pass_data _ = []"

definition script_data :: "read_script \<Rightarrow> string" where
  "script_data script = concat (map pass_data script)"

fun benign_pass :: "poll_outcome \<times> recv_outcome \<Rightarrow> bool" where
  "benign_pass (Poll_intr, r) = True"
| "benign_pass (Poll_ready, Recv_data s) = True"
| "benign_pass (Poll_ready, Recv_intr) = True"
| "benign_pass _ = False"

lemma script_data_simps [simp]:
  "script_data [] = []" "script_data (x # script) = pass_data x @ script_data script"
  by (simp_all add: script_data_def)

lemma append_eq_framed:
  assumes "xs @ ys = l @ nl # rest" "nl \<notin> set xs"
  shows "\<exists>m. l = xs @ m \<and> ys = m @ nl # rest"
  using assms by (auto simp: append_eq_append_conv2 append_eq_Cons_conv)

lemma append_framed_split:
  assumes "xs @ ys = l @ nl # rest" "nl \<in> set xs" "nl \<notin> set l"
  shows "\<exists>m. xs = l @ nl # m \<and> m @ ys = rest"
  using assms by (auto simp: append_eq_append_conv2 append_eq_Cons_conv)

lemma read_loop_blocking:
  assumes "leftover @ script_data script = l @ nl # rest" "nl \<notin> set l" "length l < k_ipc_max_line"
    "nl \<notin> set leftover" "\<forall>x\<in>set script. benign_pass x"
  shows "\<exists>leftover' script'. read_loop True leftover script = (Line, strip_cr l, leftover', script') \<and>
    leftover' @ script_data script' = rest \<and> set script' \<subseteq> set script"
  using assms
proof (induction script arbitrary: leftover)
  case Nil
  then show ?case by (metis append_Nil2 in_set_conv_decomp script_data_simps(1))
next
  case (Cons x script)
  obtain p r where x: "x = (p, r)" by fastforce
  with Cons.prems(5) consider "p = Poll_intr" | "p = Poll_ready" "r = Recv_intr"
    | tmp where "p = Poll_ready" "r = Recv_data tmp"
    by (auto elim: benign_pass.elims)
  then show ?case
  proof cases
    case 1
    have "leftover @ script_data script = l @ nl # rest" "\<forall>x\<in>set script. benign_pass x"
      using Cons.prems x 1 by auto
    from Cons.IH [OF this(1) Cons.prems(2-4) this(2)] x 1 show ?thesis by auto
  next
    case 2
    have "leftover @ script_data script = l @ nl # rest" "\<forall>x\<in>set script. benign_pass x"
      using Cons.prems x 2 by auto
    from Cons.IH [OF this(1) Cons.prems(2-4) this(2)] x 2 show ?thesis by auto
  next
    case 3
    have eq: "(leftover @ tmp) @ script_data script = l @ nl # rest"
      using Cons.prems(1) x 3 by simp
    show ?thesis
    proof (cases "nl \<in> set (leftover @ tmp)")
      case True
      from append_framed_split [OF eq this Cons.prems(2)] obtain m where
        m: "leftover @ tmp = l @ nl # m" "m @ script_data script = rest" by blast
      have "strip_cr l = strip_cr l \<and> \<not> k_ipc_max_line - 1 < length (strip_cr l)"
        using length_strip_cr [of l] Cons.prems(3) by simp
      then show ?thesis
        using x 3 m Cons.prems(2) by (auto simp: extract_line_framed line_result_def)
    next
      case False
      from append_eq_framed [OF eq this] have "length (leftover @ tmp) < k_ipc_max_line"
        using Cons.prems(3) by auto
      with x 3 False have "read_loop True leftover (x # script) = read_loop True (leftover @ tmp) script"
        by (simp add: extract_line_None [THEN iffD2])
      then show ?thesis using Cons.IH [OF eq Cons.prems(2,3) False] Cons.prems(5) by auto
    qed
  qed
qed

lemma read_line_framed:
  assumes "leftover @ script_data script = l @ nl # rest" "nl \<notin> set l" "length l < k_ipc_max_line"
    "\<forall>x\<in>set script. benign_pass x"
  shows "\<exists>leftover' script'. ipc_read_line True True leftover script = (Line, strip_cr l, leftover', script') \<and>
    leftover' @ script_data script' = rest \<and> set script' \<subseteq> set script"
proof (cases "nl \<in> set leftover")
  case True
  from append_framed_split [OF assms(1) True assms(2)] obtain m where
    m: "leftover = l @ nl # m" "m @ script_data script = rest" by blast
  have "\<not> k_ipc_max_line - 1 < length (strip_cr l)" using length_strip_cr [of l] assms(3) by simp
  then show ?thesis using m assms(2) by (auto simp: ipc_read_line_def extract_line_framed line_result_def)
next
  case False
  from append_eq_framed [OF assms(1) this] have "length leftover < k_ipc_max_line" using assms(3) by auto
  with False have "ipc_read_line True True leftover script = read_loop True leftover script"
    by (simp add: ipc_read_line_def extract_line_None [THEN iffD2])
  then show ?thesis using read_loop_blocking [OF assms(1-3) False assms(4)] by simp
qed

text \<open>A reader that calls \<open>ipc_read_line\<close> a number of times, each time blocking without a timeout.\<close>

fun read_calls :: "nat \<Rightarrow> string \<Rightarrow> read_script \<Rightarrow> (ipc_read_result \<times> string) list \<times> string \<times> read_script" where
  "read_calls 0 leftover script = ([], leftover, script)"
| "read_calls (Suc n) leftover script =
     (case ipc_read_line True True leftover script of
        (r, line, leftover', script') \<Rightarrow>
          (case read_calls n leftover' script' of
             (rs, leftover'', script'') \<Rightarrow> ((r, line) # rs, leftover'', script'')))"

text \<open>A line that survives framing: it fits, and has no newline in it nor a carriage return at its end.\<close>

definition framable :: "string \<Rightarrow> bool" where
  "framable l \<longleftrightarrow> nl \<notin> set l \<and> length l < k_ipc_max_line \<and> strip_cr l = l"

lemma framed_framable: "framable l \<Longrightarrow> framed l = Some (l @ [nl])"
  by (auto simp: framable_def framed_def k_ipc_max_line_def Let_def dest: last_in_set)

lemma read_calls_framed:
  assumes "\<forall>l\<in>set ls. framable l" "\<forall>x\<in>set script. benign_pass x"
    "leftover @ script_data script = concat (map (\<lambda>l. l @ [nl]) ls) @ rest"
  shows "\<exists>leftover' script'. read_calls (length ls) leftover script = (map (Pair Line) ls, leftover', script') \<and>
    leftover' @ script_data script' = rest \<and> set script' \<subseteq> set script"
  using assms
proof (induction ls arbitrary: leftover script)
  case (Cons l ls)
  have "leftover @ script_data script = l @ nl # concat (map (\<lambda>l. l @ [nl]) ls) @ rest"
    "nl \<notin> set l" "length l < k_ipc_max_line" "strip_cr l = l"
    using Cons.prems by (auto simp: framable_def)
  with read_line_framed [OF this(1-3) Cons.prems(2)] obtain leftover' script' where
    r: "ipc_read_line True True leftover script = (Line, l, leftover', script')"
    "leftover' @ script_data script' = concat (map (\<lambda>l. l @ [nl]) ls) @ rest" "set script' \<subseteq> set script"
    by auto
  have "\<forall>x\<in>set script'. benign_pass x" using r(3) Cons.prems(2) by blast
  from Cons.IH [OF _ this r(2)] Cons.prems(1) r show ?case by fastforce
qed auto

text \<open>\<open>recv\<close> fills at most the 256 bytes of \<open>tmp\<close>.\<close>

definition recv_bounded :: "read_script \<Rightarrow> bool" where
  "recv_bounded script \<longleftrightarrow> (\<forall>(p, r)\<in>set script. case r of Recv_data s \<Rightarrow> length s \<le> 256 | _ \<Rightarrow> True)"

lemma recv_bounded_Cons [simp]:
  "recv_bounded ((p, r) # script) \<longleftrightarrow> (case r of Recv_data s \<Rightarrow> length s \<le> 256 | _ \<Rightarrow> True) \<and> recv_bounded script"
  by (simp add: recv_bounded_def)

lemma extract_line_length:
  assumes "extract_line s = Some (l, rest)"
  shows "length l + length rest < length s"
proof -
  from assms obtain raw where "s = raw @ nl # rest" "l = strip_cr raw" by (rule extract_line_SomeE)
  then show ?thesis using length_strip_cr [of raw] by simp
qed

lemma read_loop_bounded:
  assumes "read_loop blocking leftover script = (r, l, leftover', script')"
    "length leftover < k_ipc_max_line" "recv_bounded script"
  shows "length leftover' < k_ipc_max_line + 256 \<and> (r = Again \<longrightarrow> length leftover' < k_ipc_max_line) \<and>
    (r = Line \<longrightarrow> length l < k_ipc_max_line) \<and> recv_bounded script'"
  using assms
proof (induction blocking leftover script rule: read_loop.induct)
  case (2 blocking leftover p rc script)
  show ?case
  proof (cases "blocking \<and> p \<noteq> Poll_ready")
    case True
    show ?thesis
    proof (cases "p = Poll_intr")
      case intr: True
      then have "read_loop blocking leftover script = (r, l, leftover', script')"
        using 2(4) True by simp
      then show ?thesis using 2(1) True intr 2(5,6) by simp
    next
      case False
      then have "leftover' = leftover \<and> script' = script \<and> r \<noteq> Line"
        using True 2(4) by (cases p) (auto simp: closed_result_def split: if_splits)
      then show ?thesis using 2(5,6) by simp
    qed
  next
    case False
    then have loop: "read_loop blocking leftover ((p, rc) # script) =
      (case rc of
        Recv_intr \<Rightarrow> read_loop blocking leftover script
      | Recv_again \<Rightarrow> (Again, [], leftover, script)
      | Recv_fail \<Rightarrow> (Error, [], leftover, script)
      | Recv_closed \<Rightarrow> (closed_result leftover, [], leftover, script)
      | Recv_data tmp \<Rightarrow>
          (case extract_line (leftover @ tmp) of
             Some (line, leftover') \<Rightarrow> (line_result line, line, leftover', script)
           | None \<Rightarrow>
               if length (leftover @ tmp) \<ge> k_ipc_max_line then (Overflow, [], leftover @ tmp, script)
               else if \<not> blocking then (Again, [], leftover @ tmp, script)
               else read_loop blocking (leftover @ tmp) script))"
      by auto
    show ?thesis
    proof (cases rc)
      case (Recv_data tmp)
      note rd = Recv_data
      then have len: "length (leftover @ tmp) < k_ipc_max_line + 256" using 2(5,6) by simp
      show ?thesis
      proof (cases "extract_line (leftover @ tmp)")
        case None
        then show ?thesis using 2 False rd loop len by (auto split: if_splits)
      next
        case (Some lr)
        obtain line rest where lr: "lr = (line, rest)" by fastforce
        from 2(4) have "r = line_result line" "l = line" "leftover' = rest" "script' = script"
          unfolding loop using Some lr rd by auto
        with extract_line_length [OF Some [unfolded lr]] len 2(6) rd show ?thesis
          by (auto simp: line_result_def k_ipc_max_line_def split: if_splits)
      qed
    qed (use 2 False loop in \<open>auto simp: closed_result_def split: if_splits\<close>)
  qed
qed auto

lemma read_line_bounded:
  assumes "ipc_read_line fd_open blocking leftover script = (r, l, leftover', script')"
    "length leftover < k_ipc_max_line + 256" "recv_bounded script"
  shows "length leftover' < k_ipc_max_line + 256 \<and> (r = Again \<longrightarrow> length leftover' < k_ipc_max_line) \<and>
    (r = Line \<longrightarrow> length l < k_ipc_max_line) \<and> recv_bounded script'"
proof (cases "extract_line leftover")
  case None
  show ?thesis
  proof (cases "length leftover \<ge> k_ipc_max_line \<or> \<not> fd_open")
    case True
    then show ?thesis using assms None by (auto simp: ipc_read_line_def split: if_splits)
  next
    case False
    then show ?thesis using assms(1) None read_loop_bounded [OF _ _ assms(3)]
      by (auto simp: ipc_read_line_def)
  qed
next
  case (Some lr)
  obtain line rest where lr: "lr = (line, rest)" by fastforce
  with Some assms(1) have "r = line_result line" "l = line" "leftover' = rest" "script' = script"
    by (auto simp: ipc_read_line_def)
  with extract_line_length [OF Some [unfolded lr]] assms(2,3) show ?thesis
    by (auto simp: line_result_def k_ipc_max_line_def split: if_splits)
qed

section \<open>Properties\<close>

text \<open>
  C6: Framing. Any sequence of lines that fit, each written by a successful \<open>ipc_write_line\<close>
  however the kernel splits the writes, is read back by the same number of calls of
  \<open>ipc_read_line\<close>, in order and unchanged, however the kernel splits the reads, and nothing is
  left over.
\<close>

theorem write_read_lines:
  assumes "\<forall>l\<in>set ls. framable l"
    and "list_all2 (\<lambda>l out. \<exists>sends. ipc_write_line True l sends = (True, out)) ls outs"
    and "\<forall>x\<in>set script. benign_pass x" "script_data script = concat outs"
  shows "\<exists>script'. read_calls (length ls) [] script = (map (Pair Line) ls, [], script') \<and>
    script_data script' = []"
proof -
  have "concat outs = concat (map (\<lambda>l. l @ [nl]) ls)"
    using assms(2,1)
  proof (induction rule: list_all2_induct)
    case (Cons l ls out outs)
    then obtain sends where "ipc_write_line True l sends = (True, out)" by blast
    with Cons have "write_loop (l @ [nl]) sends = (True, out)"
      by (simp add: ipc_write_line_def framed_framable)
    with write_loop_prefix Cons show ?case by fastforce
  qed simp
  with read_calls_framed [OF assms(1,3), of "[]" "[]"] assms(4) show ?thesis by auto
qed

lemma write_read_lines_witness:
  "\<exists>script'. read_calls 2 []
      [(Poll_ready, Recv_data ''PI''), (Poll_intr, Recv_intr), (Poll_ready, Recv_data (''NG'' @ nl # ''STATS'' @ [nl]))] =
      ([(Line, ''PING''), (Line, ''STATS'')], [], script') \<and> script_data script' = []"
proof -
  have "ipc_write_line True ''PING'' [Sent 3, Send_again True, Sent 2] = (True, ''PING'' @ [nl])"
    "ipc_write_line True ''STATS'' [Send_intr, Sent 6] = (True, ''STATS'' @ [nl])"
    by code_simp+
  then have w: "list_all2 (\<lambda>l out. \<exists>sends. ipc_write_line True l sends = (True, out))
      [''PING'', ''STATS''] [''PING'' @ [nl], ''STATS'' @ [nl]]"
    unfolding list_all2_Cons by (intro conjI exI list_all2_Nil [THEN iffD2] TrueI refl)
  have f: "\<forall>l\<in>set [''PING'', ''STATS'']. framable l" by code_simp
  show ?thesis
    using write_read_lines [OF f w, of "[(Poll_ready, Recv_data ''PI''), (Poll_intr, Recv_intr),
        (Poll_ready, Recv_data (''NG'' @ nl # ''STATS'' @ [nl]))]"]
    by (simp add: numeral_2_eq_2 del: read_calls.simps)
qed

text \<open>
  C35: Bounded buffers. Whatever a peer sends, the read buffer of a connection stays below 4096 + 256
  bytes, a call that asks for more input has left it below 4096 bytes, and a line that is
  delivered has at most 4095.
\<close>

theorem read_line_buffer_bound:
  assumes "ipc_read_line fd_open blocking leftover script = (r, line, leftover', script')"
    and "length leftover < k_ipc_max_line + 256" "recv_bounded script"
  shows "length leftover' < k_ipc_max_line + 256 \<and> (r = Again \<longrightarrow> length leftover' < k_ipc_max_line) \<and>
    (r = Line \<longrightarrow> length line < k_ipc_max_line)"
  using read_line_bounded [OF assms] by blast

lemma read_line_buffer_bound_witness:
  "ipc_read_line True False ''AB'' [(Poll_ready, Recv_data ''CD'')] = (Again, [], ''ABCD'', []) \<and>
   length ''ABCD'' < k_ipc_max_line + 256"
proof
  show r: "ipc_read_line True False ''AB'' [(Poll_ready, Recv_data ''CD'')] = (Again, [], ''ABCD'', [])"
    by code_simp
  show "length ''ABCD'' < k_ipc_max_line + 256"
    using read_line_buffer_bound [OF r] by (simp add: k_ipc_max_line_def recv_bounded_def)
qed

lemma write_loop_complete: "write_loop bs script = (ok, out) \<Longrightarrow> \<not> ok \<Longrightarrow> length out < length bs"
proof (induction bs script arbitrary: ok out rule: write_loop.induct)
  case (3 b bs n script)
  show ?case
  proof (cases "n = 0")
    case False
    obtain ok' out' where w: "write_loop (drop n (b # bs)) script = (ok', out')" by fastforce
    with 3(2,3) False have o: "out = take n (b # bs) @ out'" "\<not> ok'" by auto
    with 3(1) [OF False w] w have "length out' < length (drop n (b # bs))" by simp
    with o show ?thesis by simp
  qed (use 3 in auto)
qed auto

text \<open>
  Writing. What \<open>ipc_write_line\<close> puts on the socket is a prefix of the framed line, and it
  reports success exactly when the whole of it was sent; a line that does not fit sends nothing
  and fails.
\<close>

lemma ipc_write_line_sends:
  "case ipc_write_line fd_open line script of (ok, out) \<Rightarrow>
     case framed line of
       None \<Rightarrow> \<not> ok \<and> out = []
     | Some buf \<Rightarrow> take (length out) buf = out \<and> (ok \<longleftrightarrow> out = buf)"
proof (cases "framed line")
  case None
  then show ?thesis by (auto simp: ipc_write_line_def)
next
  case (Some buf)
  then have "buf \<noteq> []" by (auto simp: framed_def Let_def split: if_splits)
  obtain ok out where w: "write_loop buf script = (ok, out)" by fastforce
  from write_loop_prefix [OF w] have "take (length out) buf = out" "ok \<longrightarrow> out = buf" by auto
  moreover from write_loop_complete [OF w] have "out = buf \<longrightarrow> ok" by auto
  ultimately have "take (length out) buf = out" "ok \<longleftrightarrow> out = buf" by blast+
  with Some w \<open>buf \<noteq> []\<close> show ?thesis by (auto simp: ipc_write_line_def)
qed

end
