(* ===== verification/Server.thy ===== *)
theory Server
  imports Engine_Laws Ipc
begin

text \<open>
  The daemon's side of the protocol (\<open>src/proxchunkd.cpp\<close>): its connections, the handler of one
  command line, and one round of the poll loop of \<open>run_server\<close>.
\<close>

section \<open>Connections\<close>

text \<open>
  \<open>struct Conn\<close>. Whether \<open>fd\<close> is open is a flag; \<open>c_sent\<close> is not in the struct: it records the
  lines given to \<open>ipc_write_line\<close> for this connection, in order.
\<close>

record conn =
  c_open :: bool
  c_buf :: string
  held :: "string list"
  greeted :: bool
  c_sent :: "string list"

definition new_conn :: conn where
  "new_conn = \<lparr>c_open = True, c_buf = [], held = [], greeted = False, c_sent = []\<rparr>"

text \<open>
  What the daemon meets outside its own code: the sort of the standard library, the iteration order
  of its hash map, the transfers of a target check and the scoring passes that finish while it
  runs, and whether the reply to a command goes out.
\<close>

record daemon_env =
  env_sort :: "proxy list \<Rightarrow> proxy list"
  env_iter :: "proxy list \<Rightarrow> proxy list"
  env_probe :: "string \<Rightarrow> string list \<Rightarrow> (string \<times> double) list option"
  env_passes :: "string \<Rightarrow> proxy list list"
  env_sends :: "string \<Rightarrow> bool"

definition say :: "string \<Rightarrow> conn \<Rightarrow> conn" where
  "say line c = c\<lparr>c_sent := c_sent c @ [line]\<rparr>"

text \<open>\<open>drop_conn\<close> and \<open>erase_one_held\<close>.\<close>

definition drop_conn :: "daemon_env \<Rightarrow> conn \<Rightarrow> engine \<Rightarrow> conn \<times> engine" where
  "drop_conn env c e =
     (c\<lparr>held := [], c_open := False\<rparr>,
      fold (\<lambda>url. release (env_sort env) url False (Fin 0)) (held c) e)"

fun erase_one :: "string \<Rightarrow> string list \<Rightarrow> string list" where
  "erase_one url [] = []"
| "erase_one url (u # us) = (if u = url then us else u # erase_one url us)"

definition erase_one_held :: "conn \<Rightarrow> string \<Rightarrow> conn" where
  "erase_one_held c url = c\<lparr>held := erase_one url (held c)\<rparr>"

lemma erase_one_remove1 [simp]: "erase_one url us = remove1 url us"
  by (induction us) auto

section \<open>One command\<close>

text \<open>\<open>enum class CmdResult\<close>.\<close>

datatype cmd_result = Cmd_ok | Cmd_close | Cmd_stop_daemon

text \<open>\<open>snprintf\<close> into a buffer of \<open>n\<close> bytes, and the bytes \<open>%s\<close> prints of a \<open>c_str()\<close>.\<close>

definition snprintf :: "nat \<Rightarrow> string \<Rightarrow> string" where
  "snprintf n s = take (n - 1) s"

definition c_str :: "string \<Rightarrow> string" where
  "c_str s = takeWhile (\<lambda>c. c \<noteq> CHR 0x00) s"

text \<open>
  \<open>handle_line\<close>, one branch per command. It returns the result, the connection and the engine; every
  reply is said on the connection. \<open>stopping\<close> is the daemon's flag.
\<close>

definition handle_hello :: "string list \<Rightarrow> conn \<Rightarrow> engine \<Rightarrow> cmd_result \<times> conn \<times> engine" where
  "handle_hello tok c e =
     (if length tok = 2 \<and> tok ! 0 = ''HELLO'' \<and> tok ! 1 = ''1''
      then (Cmd_ok, say (''OK 1 proxchunkd '' @ ''1.1'') (c\<lparr>greeted := True\<rparr>), e)
      else (Cmd_close, say ''ERR protocol'' c, e))"

definition handle_target ::
  "daemon_env \<Rightarrow> string list \<Rightarrow> conn \<Rightarrow> engine \<Rightarrow> cmd_result \<times> conn \<times> engine" where
  "handle_target env tok c e =
     (if length tok \<noteq> 2 then (Cmd_close, say ''ERR protocol'' c, e)
      else (let (n, e') = verify_target (env_sort env) (env_iter env) (env_probe env)
                            (env_passes env (tok ! 1)) (tok ! 1) e
            in (Cmd_ok, say (snprintf 64 (''OK '' @ show_nat n)) c, e')))"

definition stats_reply :: "engine \<Rightarrow> string" where
  "stats_reply e =
     snprintf 128 (''OK live='' @ show_nat (live_count e) @ '' busy='' @ show_nat (busy_count e) @
                   '' top_mbps='' @ fixed4 (top_mbps e))"

definition skip_words :: "string list \<Rightarrow> string list" where
  "skip_words tok = (if length tok \<ge> 2 \<and> tok ! 1 = ''skip'' then drop 2 tok else [])"

definition acquire_reply :: "proxy \<Rightarrow> string" where
  "acquire_reply p = snprintf k_ipc_max_line (''OK '' @ c_str (address p) @ '' '' @ fixed4 (speed_mbps p))"

definition handle_acquire ::
  "daemon_env \<Rightarrow> bool \<Rightarrow> string list \<Rightarrow> conn \<Rightarrow> engine \<Rightarrow> cmd_result \<times> conn \<times> engine" where
  "handle_acquire env stopping tok c e =
     (if stopping then (Cmd_ok, say ''ERR shutting-down'' c, e)
      else (case acquire (skip_words tok) e of
              (None, e') \<Rightarrow> (Cmd_ok, say ''ERR empty'' c, e')
            | (Some p, e') \<Rightarrow>
                (let c' = say (acquire_reply p) (c\<lparr>held := held c @ [address p]\<rparr>)
                 in (if \<not> env_sends env (acquire_reply p) then Cmd_close else Cmd_ok, c', e'))))"

definition handle_release ::
  "daemon_env \<Rightarrow> string list \<Rightarrow> conn \<Rightarrow> engine \<Rightarrow> cmd_result \<times> conn \<times> engine" where
  "handle_release env tok c e =
     (if length tok \<noteq> 4 \<or> tok ! 2 \<noteq> ''ok'' \<and> tok ! 2 \<noteq> ''fail''
      then (Cmd_close, say ''ERR protocol'' c, e)
      else (case stod (tok ! 3) of
              None \<Rightarrow> (Cmd_close, say ''ERR protocol'' c, e)
            | Some mbps \<Rightarrow>
                (Cmd_ok, say ''OK'' (erase_one_held c (tok ! 1)),
                 release (env_sort env) (tok ! 1) (tok ! 2 = ''ok'') mbps e)))"

definition handle_line ::
  "daemon_env \<Rightarrow> bool \<Rightarrow> string \<Rightarrow> conn \<Rightarrow> engine \<Rightarrow> cmd_result \<times> conn \<times> engine" where
  "handle_line env stopping line c e =
     (let tok = ipc_split line
      in if tok = [] then (Cmd_ok, c, e)
         else if \<not> greeted c then handle_hello tok c e
         else if tok ! 0 = ''PING'' then (Cmd_ok, say ''OK pong'' c, e)
         else if tok ! 0 = ''TARGET'' then handle_target env tok c e
         else if tok ! 0 = ''STATS'' then (Cmd_ok, say (stats_reply e) c, e)
         else if tok ! 0 = ''ACQUIRE'' then handle_acquire env stopping tok c e
         else if tok ! 0 = ''RELEASE'' then handle_release env tok c e
         else if tok ! 0 = ''STOP'' then (Cmd_stop_daemon, say ''OK shutting-down'' c, e)
         else (Cmd_ok, say ''ERR unknown'' c, e))"

lemmas handler_defs = handle_line_def handle_hello_def handle_target_def handle_acquire_def
  handle_release_def

lemma say_simps [simp]:
  "c_open (say l c) = c_open c" "c_buf (say l c) = c_buf c" "held (say l c) = held c"
  "greeted (say l c) = greeted c" "c_sent (say l c) = c_sent c @ [l]"
  by (simp_all add: say_def)

lemma handle_line_keeps:
  "handle_line env stopping line c e = (r, c', e') \<Longrightarrow> c_buf c' = c_buf c \<and> c_open c' = c_open c"
  by (auto simp: handler_defs erase_one_held_def Let_def case_prod_unfold
      split: if_splits option.splits prod.splits)

section \<open>One round of the poll loop\<close>

text \<open>
  The inner loop on a readable connection: read and handle lines until there is no more input, the
  connection goes, or a STOP arrives. The script is what its \<open>recv\<close> calls return. It yields the
  connection, the engine, and \<open>want_stop\<close>.
\<close>

definition read_size :: "string \<Rightarrow> read_script \<Rightarrow> nat" where
  "read_size buf script =
     length buf + sum_list (map (\<lambda>(p, r). case r of Recv_data s \<Rightarrow> Suc (length s) | _ \<Rightarrow> 1) script)"

lemma read_loop_shrinks:
  "read_loop blocking leftover script = (Line, line, leftover', script') \<Longrightarrow>
   read_size leftover' script' < read_size leftover script"
proof (induction blocking leftover script rule: read_loop.induct)
  case (2 blocking leftover p r script)
  then show ?case
    by (auto simp: read_size_def closed_result_def line_result_def dest: extract_line_length
        split: if_splits recv_outcome.splits option.splits)
qed simp

lemma read_line_shrinks:
  "ipc_read_line fd_open blocking leftover script = (Line, line, leftover', script') \<Longrightarrow>
   read_size leftover' script' < read_size leftover script"
  by (auto simp: ipc_read_line_def read_size_def line_result_def closed_result_def
      dest: extract_line_length read_loop_shrinks [unfolded read_size_def]
      split: option.splits if_splits)

lemma conn_loop_size:
  assumes "(st, line, buf', script') = ipc_read_line (c_open c) False (c_buf c) script"
    "(res, c2, e2) = handle_line env stopping line (c\<lparr>c_buf := buf'\<rparr>) e"
    "st \<noteq> Again" "st \<noteq> Eof" "st \<noteq> Error" "st \<noteq> Overflow"
  shows "read_size (c_buf c2) script' < read_size (c_buf c) script"
proof -
  from assms(3-6) have "st = Line" by (cases st) auto
  then show ?thesis
    using read_line_shrinks [OF assms(1) [symmetric, unfolded \<open>st = Line\<close>]]
      handle_line_keeps [OF assms(2) [symmetric]] by simp
qed

function conn_loop ::
  "daemon_env \<Rightarrow> bool \<Rightarrow> read_script \<Rightarrow> conn \<Rightarrow> engine \<Rightarrow> conn \<times> engine \<times> bool" where
  "conn_loop env stopping script c e =
     (case ipc_read_line (c_open c) False (c_buf c) script of
        (st, line, buf', script') \<Rightarrow>
          (let c1 = c\<lparr>c_buf := buf'\<rparr>
           in if st = Again then (c1, e, False)
              else if st = Eof \<or> st = Error \<or> st = Overflow
              then (let (c2, e2) = drop_conn env c1 e in (c2, e2, False))
              else (case handle_line env stopping line c1 e of
                      (res, c2, e2) \<Rightarrow>
                        if res = Cmd_close then (let (c3, e3) = drop_conn env c2 e2 in (c3, e3, False))
                        else if res = Cmd_stop_daemon then (c2, e2, True)
                        else conn_loop env stopping script' c2 e2)))"
  by pat_completeness auto
termination
  by (relation "measure (\<lambda>(env, stopping, script, c, e). read_size (c_buf c) script)")
    (auto elim: conn_loop_size)

declare conn_loop.simps [simp del]

text \<open>
  What \<open>poll\<close> reports of a connection: nothing, an error, a hangup with nothing to read, or input, with
  the script of its \<open>recv\<close> calls.
\<close>

datatype poll_mark = Poll_nothing | Poll_broken | Poll_hangup | Poll_input read_script

definition serve_conn ::
  "daemon_env \<Rightarrow> bool \<Rightarrow> poll_mark \<Rightarrow> conn \<Rightarrow> engine \<Rightarrow> conn \<times> engine \<times> bool" where
  "serve_conn env stopping mark c e =
     (if \<not> c_open c then (c, e, False)
      else (case mark of
              Poll_nothing \<Rightarrow> (c, e, False)
            | Poll_broken \<Rightarrow> (let (c', e') = drop_conn env c e in (c', e', False))
            | Poll_hangup \<Rightarrow> (let (c', e') = drop_conn env c e in (c', e', False))
            | Poll_input script \<Rightarrow> conn_loop env stopping script c e))"

fun serve_conns ::
  "daemon_env \<Rightarrow> bool \<Rightarrow> (conn \<times> poll_mark) list \<Rightarrow> engine \<Rightarrow> conn list \<times> engine \<times> bool" where
  "serve_conns env stopping [] e = ([], e, False)"
| "serve_conns env stopping ((c, mark) # rest) e =
     (let (c', e', stop) = serve_conn env stopping mark c e;
          (rest', e'', stop') = serve_conns env stopping rest e'
      in (c' # rest', e'', stop \<or> stop'))"

text \<open>The state of \<open>run_server\<close> that outlives a round.\<close>

record server =
  srv_engine :: engine
  srv_conns :: "conn list"
  srv_stopping :: bool
  srv_run :: bool

text \<open>\<open>graceful_stop\<close>, for the connections and the engine. \<open>ProxyEngine::stop\<close> leaves the pool alone.\<close>

fun stop_conns :: "daemon_env \<Rightarrow> conn list \<Rightarrow> engine \<Rightarrow> conn list \<times> engine" where
  "stop_conns env [] e = ([], e)"
| "stop_conns env (c # cs) e =
     (let (c', e') = (if c_open c then drop_conn env (say ''ERR shutting-down'' c) e else (c, e));
          (cs', e'') = stop_conns env cs e'
      in (c' # cs', e''))"

definition graceful_stop :: "daemon_env \<Rightarrow> server \<Rightarrow> server" where
  "graceful_stop env s =
     (if srv_stopping s then s
      else (let (cs, e) = stop_conns env (srv_conns s) (srv_engine s)
            in s\<lparr>srv_stopping := True, srv_conns := [], srv_engine := e\<rparr>))"

text \<open>
  One round: whether a stop signal is pending, how many connections \<open>accept4\<close> yields, and what \<open>poll\<close>
  reported of the connections there were when it was called. New connections are not served in
  the round that accepts them.
\<close>

definition server_round :: "daemon_env \<Rightarrow> bool \<Rightarrow> nat \<Rightarrow> poll_mark list \<Rightarrow> server \<Rightarrow> server" where
  "server_round env signal accepted marks s =
     (let (cs, e, stop) = serve_conns env (srv_stopping s) (zip (srv_conns s) marks) (srv_engine s);
          s' = s\<lparr>srv_conns := filter c_open (cs @ replicate accepted new_conn), srv_engine := e\<rparr>
      in if signal \<or> stop then (graceful_stop env s')\<lparr>srv_run := False\<rparr> else s')"

end
