(* ===== verification/Server_Laws.thy ===== *)
theory Server_Laws
  imports Server
begin

text \<open>
  What holds of the daemon's connections and leases. A round of the poll loop is a sequence of
  smaller session steps; two invariants of the session steps say that no lease is without a
  connection that holds it, and, when clients release only what they hold, that no two connections
  hold the same proxy.
\<close>

section \<open>The daemon and its environment\<close>

locale daemon =
  fixes env :: daemon_env
  assumes env_engine: "engine_env (env_sort env) (env_iter env)"
    and env_probes: "probes_ok (env_probe env)"
    and env_passes: "passes_ok (env_passes env url)"

sublocale daemon \<subseteq> engine_env "env_sort env" "env_iter env"
  by (rule env_engine)

definition quiet_env :: daemon_env where
  "quiet_env =
     \<lparr>env_sort = speed_sort, env_iter = map_order, env_probe = (\<lambda>url addrs. Some []),
      env_passes = (\<lambda>url. []), env_sends = (\<lambda>line. True)\<rparr>"

interpretation quiet: daemon quiet_env
  by unfold_locales
    (simp_all add: quiet_env_def mset_speed_sort speed_sort.srt_sorted map_order_def probes_ok_def passes_ok_def)

section \<open>The effect of a command\<close>

text \<open>A client that releases only what its own connection holds.\<close>

definition own_release :: "string \<Rightarrow> conn \<Rightarrow> bool" where
  "own_release line c \<longleftrightarrow>
     (let tok = ipc_split line
      in length tok = 4 \<and> tok ! 0 = ''RELEASE'' \<longrightarrow> tok ! 1 \<in> set (held c))"

lemma handle_line_effect:
  assumes "handle_line env stopping line c e = (r, c', e')"
  shows "held c' = held c \<and> e' = e \<or>
    held c' = held c \<and> (\<exists>url n. verify_target (env_sort env) (env_iter env) (env_probe env)
       (env_passes env url) url e = (n, e')) \<or>
    (\<exists>skip u. acquire_url skip e = (Some u, e') \<and> held c' = held c @ [u]) \<or>
    (\<exists>u s m. e' = release (env_sort env) u s m e \<and> held c' = remove1 u (held c) \<and>
       (own_release line c \<longrightarrow> u \<in> set (held c)))"
proof -
  let ?tok = "ipc_split line"
  consider (target) "?tok \<noteq> []" "greeted c" "?tok ! 0 = ''TARGET''" "length ?tok = 2"
    | (acquire) "?tok \<noteq> []" "greeted c" "?tok ! 0 = ''ACQUIRE''" "\<not> stopping"
    | (release) m where "?tok \<noteq> []" "greeted c" "?tok ! 0 = ''RELEASE''" "length ?tok = 4"
        "?tok ! 2 = ''ok'' \<or> ?tok ! 2 = ''fail''" "stod (?tok ! 3) = Some m"
    | (other) "held c' = held c \<and> e' = e"
    using assms by (auto simp: handler_defs Let_def split: if_splits option.splits)
  then show ?thesis
  proof cases
    case target
    obtain n e1 where v: "verify_target (env_sort env) (env_iter env) (env_probe env)
        (env_passes env (?tok ! 1)) (?tok ! 1) e = (n, e1)" by fastforce
    with target assms have "held c' = held c" "e' = e1"
      by (auto simp: handle_line_def handle_target_def Let_def)
    with v show ?thesis by blast
  next
    case acquire
    obtain q e1 where a: "Engine.acquire (skip_words ?tok) e = (q, e1)" by fastforce
    show ?thesis
    proof (cases q)
      case None
      with a have "e1 = e" by (simp add: acquire_None_same)
      with acquire assms a None have "held c' = held c \<and> e' = e"
        by (auto simp: handle_line_def handle_acquire_def Let_def)
      then show ?thesis by blast
    next
      case (Some p)
      with acquire assms a have "e' = e1" "held c' = held c @ [address p]"
        by (auto simp: handle_line_def handle_acquire_def Let_def split: if_splits)
      moreover from a Some have "acquire_url (skip_words ?tok) e = (Some (address p), e1)"
        by (simp add: acquire_url_def)
      ultimately show ?thesis by blast
    qed
  next
    case release
    then have "e' = Engine.release (env_sort env) (?tok ! 1) (?tok ! 2 = ''ok'') m e"
      "held c' = remove1 (?tok ! 1) (held c)"
      using assms by (auto simp: handle_line_def handle_release_def erase_one_held_def Let_def)
    moreover have "own_release line c \<longrightarrow> ?tok ! 1 \<in> set (held c)"
      using release by (simp add: own_release_def Let_def)
    ultimately show ?thesis by blast
  next
    case other
    then show ?thesis by blast
  qed
qed

section \<open>Session steps\<close>

inductive session_step ::
  "daemon_env \<Rightarrow> bool \<Rightarrow> conn list \<times> engine \<Rightarrow> conn list \<times> engine \<Rightarrow> bool" for env fair where
  step_handle:
    "c_open c \<Longrightarrow> (fair \<longrightarrow> own_release line c) \<Longrightarrow> handle_line env stopping line c e = (r, c', e') \<Longrightarrow>
     session_step env fair (pre @ c # post, e) (pre @ c' # post, e')"
| step_drop:
    "drop_conn env c e = (c', e') \<Longrightarrow> session_step env fair (pre @ c # post, e) (pre @ c' # post, e')"
| step_io:
    "held c' = held c \<Longrightarrow> c_open c' = c_open c \<Longrightarrow>
     session_step env fair (pre @ c # post, e) (pre @ c' # post, e)"
| step_accept: "session_step env fair (cs, e) (cs @ [new_conn], e)"
| step_sweep: "session_step env fair (cs, e) (filter c_open cs, e)"
| step_refresh:
    "\<forall>t\<in>set tested. fresh_row t \<Longrightarrow> distinct (map address tested) \<Longrightarrow>
     session_step env fair (cs, e) (cs, install_tested (env_sort env) (env_iter env) tested e)"

abbreviation session_steps ::
  "daemon_env \<Rightarrow> bool \<Rightarrow> conn list \<times> engine \<Rightarrow> conn list \<times> engine \<Rightarrow> bool" where
  "session_steps env fair \<equiv> (session_step env fair)\<^sup>*\<^sup>*"

text \<open>All addresses the connections hold.\<close>

definition held_by :: "conn list \<Rightarrow> string list" where
  "held_by cs = concat (map held cs)"

definition closed_empty :: "conn list \<Rightarrow> bool" where
  "closed_empty cs \<longleftrightarrow> (\<forall>c\<in>set cs. \<not> c_open c \<longrightarrow> held c = [])"

fun lease_cover :: "conn list \<times> engine \<Rightarrow> bool" where
  "lease_cover (cs, e) \<longleftrightarrow> pool_inv e \<and> closed_empty cs \<and> leased e \<subseteq> set (held_by cs)"

fun lease_exclusive :: "conn list \<times> engine \<Rightarrow> bool" where
  "lease_exclusive (cs, e) \<longleftrightarrow>
     pool_inv e \<and> closed_empty cs \<and> distinct (held_by cs) \<and> leased e = set (held_by cs)"

lemma held_by_simps [simp]:
  "held_by [] = []" "held_by (c # cs) = held c @ held_by cs" "held_by (cs @ ds) = held_by cs @ held_by ds"
  by (simp_all add: held_by_def)

lemma closed_empty_simps [simp]:
  "closed_empty []" "closed_empty (c # cs) \<longleftrightarrow> (\<not> c_open c \<longrightarrow> held c = []) \<and> closed_empty cs"
  "closed_empty (cs @ ds) \<longleftrightarrow> closed_empty cs \<and> closed_empty ds"
  by (auto simp: closed_empty_def)

lemma held_by_sweep: "closed_empty cs \<Longrightarrow> held_by (filter c_open cs) = held_by cs"
  by (induction cs) auto

lemma new_conn_simps [simp]: "held new_conn = []" "c_open new_conn"
  by (simp_all add: new_conn_def)

context daemon begin

lemma verify_pool_inv:
  assumes "verify_target (env_sort env) (env_iter env) (env_probe env) (env_passes env url) url e = (n, e')"
    "pool_inv e"
  shows "pool_inv e' \<and> leased e' = leased e"
  using verify_target_keeps [OF env_probes env_passes _ _ assms(1)] assms(2) by (simp add: pool_inv_def)

lemma refresh_pool_inv:
  assumes "\<forall>t\<in>set tested. fresh_row t" "distinct (map address tested)" "pool_inv e"
  shows "pool_inv (install_tested (env_sort env) (env_iter env) tested e) \<and>
    leased (install_tested (env_sort env) (env_iter env) tested e) = leased e"
  using assms install_leased install_pool_ok install_unique by (simp add: pool_inv_def fresh_row_def)

lemma cover_step:
  assumes "session_step env fair s s'" "lease_cover s"
  shows "lease_cover s'"
  using assms
proof (induction rule: session_step.induct)
  case (step_handle c line stopping e r c' e' pre post)
  let ?H = "set (held_by pre) \<union> set (held_by post)"
  from step_handle have inv: "pool_inv e" "leased e \<subseteq> set (held c) \<union> ?H" by auto
  have "c_open c'" using handle_line_keeps [OF step_handle(3)] step_handle(1) by simp
  moreover from handle_line_effect [OF step_handle(3)] have "pool_inv e' \<and> leased e' \<subseteq> set (held c') \<union> ?H"
  proof (elim disjE exE conjE)
    fix skip u assume a: "acquire_url skip e = (Some u, e')" "held c' = held c @ [u]"
    then show ?thesis using acq_inv [OF inv(1) a(1)] cover_acq [OF inv a(1)] by simp
  next
    fix u s m assume "e' = release (env_sort env) u s m e" "held c' = remove1 u (held c)"
    then show ?thesis using rel_inv [OF inv(1)] cover_rel [OF inv] by simp
  qed (use inv verify_pool_inv in auto)
  ultimately show ?case using step_handle by auto
next
  case (step_drop c e c' e' pre post)
  let ?H = "set (held_by pre) \<union> set (held_by post)"
  from step_drop have inv: "pool_inv e" "leased e \<subseteq> set (held c) \<union> ?H" by auto
  from step_drop(1) have "held c' = []" "\<not> c_open c'"
    "e' = fold (\<lambda>u. release (env_sort env) u False (Fin 0)) (held c) e" by (auto simp: drop_conn_def)
  then show ?case using rel_all [OF inv(1)] cover_rel_all [OF inv] step_drop(2) by auto
next
  case (step_refresh tested cs e)
  then show ?case using refresh_pool_inv by simp
qed (auto simp: held_by_sweep, auto simp: closed_empty_def)

lemma exclusive_step:
  assumes "session_step env True s s'" "lease_exclusive s"
  shows "lease_exclusive s'"
  using assms
proof (induction rule: session_step.induct)
  case (step_handle c line stopping e r c' e' pre post)
  let ?H = "set (held_by pre) \<union> set (held_by post)"
  from step_handle have inv: "pool_inv e" "leased e = set (held c) \<union> ?H" by auto
  from step_handle have dis: "distinct (held c)" "set (held c) \<inter> ?H = {}" by auto
  have "c_open c'" using handle_line_keeps [OF step_handle(3)] step_handle(1) by simp
  moreover from handle_line_effect [OF step_handle(3)] have
    "pool_inv e' \<and> leased e' = set (held c') \<union> ?H \<and> distinct (held c') \<and> set (held c') \<inter> ?H = {}"
  proof (elim disjE exE conjE)
    fix skip u assume a: "acquire_url skip e = (Some u, e')" "held c' = held c @ [u]"
    then show ?thesis
      using acq_inv [OF inv(1) a(1)] exclusive_acq [OF inv a(1)] dis by auto
  next
    fix u s m assume r: "e' = release (env_sort env) u s m e" "held c' = remove1 u (held c)"
      "own_release line c \<longrightarrow> u \<in> set (held c)"
    then have "u \<in> set (held c)" using step_handle(2) by simp
    then show ?thesis using r rel_inv [OF inv(1)] exclusive_rel [OF inv dis] dis by auto
  qed (use inv dis verify_pool_inv in auto)
  ultimately show ?case using step_handle by auto
next
  case (step_drop c e c' e' pre post)
  let ?H = "set (held_by pre) \<union> set (held_by post)"
  from step_drop have inv: "pool_inv e" "leased e = set (held c) \<union> ?H" "set (held c) \<inter> ?H = {}" by auto
  from step_drop(1) have "held c' = []" "\<not> c_open c'"
    "e' = fold (\<lambda>u. release (env_sort env) u False (Fin 0)) (held c) e" by (auto simp: drop_conn_def)
  then show ?case using rel_all [OF inv(1)] exclusive_rel_all [OF inv] step_drop(2) by auto
next
  case (step_refresh tested cs e)
  then show ?case using refresh_pool_inv by simp
qed (auto simp: held_by_sweep, auto simp: closed_empty_def)

lemma cover_steps: "session_steps env fair s s' \<Longrightarrow> lease_cover s \<Longrightarrow> lease_cover s'"
  by (induction rule: rtranclp_induct) (auto intro: cover_step)

lemma exclusive_steps: "session_steps env True s s' \<Longrightarrow> lease_exclusive s \<Longrightarrow> lease_exclusive s'"
  by (induction rule: rtranclp_induct) (auto intro: exclusive_step)

end

section \<open>A round is a sequence of session steps\<close>

lemma io_step:
  "held c' = held c \<Longrightarrow> c_open c' = c_open c \<Longrightarrow>
   session_steps env fair (pre @ c # post, e) (pre @ c' # post, e)"
  by (intro r_into_rtranclp step_io)

lemma drop_step:
  "drop_conn env c e = (c', e') \<Longrightarrow> session_steps env fair (pre @ c # post, e) (pre @ c' # post, e')"
  by (intro r_into_rtranclp step_drop)

lemma conn_loop_steps:
  "conn_loop env stopping script c e = (c', e', stop) \<Longrightarrow> c_open c \<Longrightarrow>
   session_steps env False (pre @ c # post, e) (pre @ c' # post, e')"
proof (induction env stopping script c e arbitrary: c' e' stop rule: conn_loop.induct)
  case (1 env stopping script c e)
  obtain st line buf' script' where r:
    "ipc_read_line (c_open c) False (c_buf c) script = (st, line, buf', script')"
    by (metis prod_cases4)
  define c1 where "c1 = c\<lparr>c_buf := buf'\<rparr>"
  have io: "session_steps env False (pre @ c # post, e) (pre @ c1 # post, e)"
    by (rule io_step) (simp_all add: c1_def)
  obtain res c2 e2 where h: "handle_line env stopping line c1 e = (res, c2, e2)"
    by (metis prod_cases3)
  note loop = 1(2) [unfolded conn_loop.simps [of env stopping script c e] r prod.case Let_def c1_def [symmetric] h]
  consider "st = Again" | "st = Eof \<or> st = Error \<or> st = Overflow" | "st = Line" by (cases st) auto
  then show ?case
  proof cases
    case 1
    with loop io show ?thesis by simp
  next
    case 2
    then have "drop_conn env c1 e = (c', e')" using loop by (auto split: prod.splits)
    with io show ?thesis by (meson drop_step rtranclp_trans)
  next
    case 3
    have "c_open c1" using 1(3) by (simp add: c1_def)
    then have hs: "session_steps env False (pre @ c1 # post, e) (pre @ c2 # post, e2)"
      by (intro r_into_rtranclp step_handle) (use h in auto)
    have to_h: "session_steps env False (pre @ c # post, e) (pre @ c2 # post, e2)"
      using io hs by (rule rtranclp_trans)
    show ?thesis
    proof (cases res)
      case Cmd_ok
      with loop 3 have "conn_loop env stopping script' c2 e2 = (c', e', stop)" by simp
      moreover have "c_open c2" using handle_line_keeps [OF h] \<open>c_open c1\<close> by simp
      moreover have "\<not> (st = Again)" "\<not> (st = Eof \<or> st = Error \<or> st = Overflow)"
        "\<not> (res = Cmd_close)" "\<not> (res = Cmd_stop_daemon)"
        using 3 Cmd_ok by auto
      ultimately have "session_steps env False (pre @ c2 # post, e2) (pre @ c' # post, e')"
        using 1(1) [OF r [symmetric] refl refl c1_def _ _ h [symmetric] refl] by blast
      with to_h show ?thesis by (rule rtranclp_trans)
    next
      case Cmd_close
      with loop 3 have "drop_conn env c2 e2 = (c', e')" by (auto split: prod.splits)
      with to_h show ?thesis by (meson drop_step rtranclp_trans)
    next
      case Cmd_stop_daemon
      with loop 3 to_h show ?thesis by simp
    qed
  qed
qed

lemma serve_conn_steps:
  assumes "serve_conn env stopping mark c e = (c', e', stop)"
  shows "session_steps env False (pre @ c # post, e) (pre @ c' # post, e')"
  using assms conn_loop_steps
  by (cases mark) (auto simp: serve_conn_def intro: drop_step split: if_splits prod.splits)

lemma serve_conns_steps:
  "length marks = length cs \<Longrightarrow> serve_conns env stopping (zip cs marks) e = (cs', e', stop) \<Longrightarrow>
   session_steps env False (pre @ cs @ post, e) (pre @ cs' @ post, e')"
proof (induction cs marks arbitrary: pre cs' e e' stop rule: list_induct2')
  case (4 c cs mark marks)
  obtain c1 e1 stop1 where c: "serve_conn env stopping mark c e = (c1, e1, stop1)" by (metis prod_cases3)
  obtain cs2 e2 stop2 where r: "serve_conns env stopping (zip cs marks) e1 = (cs2, e2, stop2)"
    by (metis prod_cases3)
  have a: "session_steps env False (pre @ c # cs @ post, e) (pre @ c1 # cs @ post, e1)"
    by (rule serve_conn_steps [OF c])
  have b: "session_steps env False (pre @ c1 # cs @ post, e1) (pre @ c1 # cs2 @ post, e2)"
    using 4(1) [OF _ r, of "pre @ [c1]"] 4(2) by simp
  from rtranclp_trans [OF a b] show ?case using 4(3) c r by auto
qed auto

lemma stop_conns_steps:
  "stop_conns env cs e = (cs', e') \<Longrightarrow>
   session_steps env False (pre @ cs, e) (pre @ cs', e') \<and> (\<forall>c\<in>set cs'. \<not> c_open c)"
proof (induction cs arbitrary: pre cs' e e')
  case (Cons c cs)
  obtain c1 e1 where c: "(if c_open c then drop_conn env (say ''ERR shutting-down'' c) e else (c, e)) = (c1, e1)"
    by fastforce
  obtain cs2 e2 where r: "stop_conns env cs e1 = (cs2, e2)" by fastforce
  have a: "session_steps env False (pre @ c # cs, e) (pre @ c1 # cs, e1)"
  proof (cases "c_open c")
    case True
    have "session_steps env False (pre @ c # cs, e) (pre @ say ''ERR shutting-down'' c # cs, e)"
      by (rule io_step) simp_all
    moreover have "session_steps env False (pre @ say ''ERR shutting-down'' c # cs, e) (pre @ c1 # cs, e1)"
      using c True by (intro drop_step) simp
    ultimately show ?thesis by (rule rtranclp_trans)
  qed (use c in auto)
  have b: "session_steps env False (pre @ c1 # cs, e1) (pre @ c1 # cs2, e2)"
    using Cons.IH [OF r, of "pre @ [c1]"] by simp
  note rtranclp_trans [OF a b]
  moreover have "\<not> c_open c1" using c by (auto simp: drop_conn_def split: if_splits)
  ultimately show ?case using Cons.IH [OF r] Cons.prems c r by auto
qed auto

lemma accept_steps: "session_steps env fair (cs, e) (cs @ replicate n new_conn, e)"
proof (induction n)
  case (Suc n)
  have "session_step env fair (cs @ replicate n new_conn, e) ((cs @ replicate n new_conn) @ [new_conn], e)"
    by (rule step_accept)
  with Suc show ?case by (simp add: replicate_append_same rtranclp.rtrancl_into_rtrancl)
qed simp

abbreviation srv_state :: "server \<Rightarrow> conn list \<times> engine" where
  "srv_state s \<equiv> (srv_conns s, srv_engine s)"

lemma graceful_stop_steps:
  "session_steps env False (srv_state s) (srv_state (graceful_stop env s)) \<and>
   (\<not> srv_stopping s \<longrightarrow> srv_conns (graceful_stop env s) = [])"
proof (cases "srv_stopping s")
  case True
  then show ?thesis by (simp add: graceful_stop_def)
next
  case False
  obtain cs e where r: "stop_conns env (srv_conns s) (srv_engine s) = (cs, e)" by fastforce
  from stop_conns_steps [OF r, of "[]"] have
    "session_steps env False (srv_state s) (cs, e)" "\<forall>c\<in>set cs. \<not> c_open c" by auto
  moreover have "session_step env False (cs, e) (filter c_open cs, e)" by (rule step_sweep)
  moreover have "filter c_open cs = []" using calculation(2) by auto
  ultimately have "session_steps env False (srv_state s) ([], e)" by (metis rtranclp.rtrancl_into_rtrancl)
  with False r show ?thesis by (simp add: graceful_stop_def)
qed

lemma server_round_steps:
  assumes "length marks = length (srv_conns s)"
  shows "session_steps env False (srv_state s) (srv_state (server_round env signal n marks s))"
proof -
  obtain cs e stop where r:
    "serve_conns env (srv_stopping s) (zip (srv_conns s) marks) (srv_engine s) = (cs, e, stop)"
    by (metis prod_cases3)
  define s' where "s' = s\<lparr>srv_conns := filter c_open (cs @ replicate n new_conn), srv_engine := e\<rparr>"
  have a: "session_steps env False (srv_state s) (cs, e)"
    using serve_conns_steps [OF assms r, of "[]" "[]"] by simp
  have b: "session_step env False (cs @ replicate n new_conn, e) (srv_state s')"
    unfolding s'_def using step_sweep [of env False "cs @ replicate n new_conn" e] by simp
  from rtranclp.rtrancl_into_rtrancl [OF rtranclp_trans [OF a accept_steps] b]
  have to_s': "session_steps env False (srv_state s) (srv_state s')" .
  show ?thesis
  proof (cases "signal \<or> stop")
    case True
    then have "server_round env signal n marks s = (graceful_stop env s')\<lparr>srv_run := False\<rparr>"
      using r by (simp add: server_round_def s'_def)
    with to_s' graceful_stop_steps [of env s'] show ?thesis by (auto intro: rtranclp_trans)
  next
    case False
    then have "server_round env signal n marks s = s'"
      using r by (simp add: server_round_def s'_def)
    with to_s' show ?thesis by simp
  qed
qed

end
