(* ===== verification/Daemon.thy ===== *)
theory Daemon
  imports Server_Laws
begin

text \<open>
  The reachable states of the daemon (\<open>run_server\<close> in \<open>src/proxchunkd.cpp\<close>): rounds of its poll
  loop, interleaved with the scoring passes of the refresh thread, from the moment it listens. Then
  the properties of leases and of the protocol over all of them.
\<close>

section \<open>Reachable states\<close>

definition empty_engine :: "engine_config \<Rightarrow> engine" where
  "empty_engine c = \<lparr>cfg = c, pool = [], target_url = [], target_filter = False\<rparr>"

definition start_server :: "engine_config \<Rightarrow> server" where
  "start_server c =
     \<lparr>srv_engine = empty_engine c, srv_conns = [], srv_stopping = False, srv_run = True\<rparr>"

inductive daemon_reach :: "daemon_env \<Rightarrow> server \<Rightarrow> bool" for env where
  reach_start: "daemon_reach env (start_server c)"
| reach_round:
    "daemon_reach env s \<Longrightarrow> srv_run s \<Longrightarrow> length marks = length (srv_conns s) \<Longrightarrow>
     daemon_reach env (server_round env signal n marks s)"
| reach_refresh:
    "daemon_reach env s \<Longrightarrow> \<forall>t\<in>set tested. fresh_row t \<Longrightarrow> distinct (map address tested) \<Longrightarrow>
     daemon_reach env (s\<lparr>srv_engine := install_tested (env_sort env) (env_iter env) tested (srv_engine s)\<rparr>)"

lemma one_step: "session_step env fair s s' \<Longrightarrow> session_steps env fair s s'"
  by (rule r_into_rtranclp)

lemma empty_engine_inv [simp]: "pool_inv (empty_engine c)" "leased (empty_engine c) = {}"
  by (simp_all add: pool_inv_def pool_ok_def sorted_speed_def unique_rows_def empty_engine_def leased_def)

lemma reach_steps: "daemon_reach env s \<Longrightarrow> \<exists>c. session_steps env False ([], empty_engine c) (srv_state s)"
proof (induction rule: daemon_reach.induct)
  case (reach_start c)
  then show ?case by (auto simp: start_server_def)
next
  case (reach_round s marks signal n)
  then show ?case using server_round_steps [of marks s env signal n] by (meson rtranclp_trans)
next
  case (reach_refresh s tested)
  then obtain c where "session_steps env False ([], empty_engine c) (srv_state s)" by blast
  moreover have "session_step env False (srv_state s)
      (srv_conns s, install_tested (env_sort env) (env_iter env) tested (srv_engine s))"
    using reach_refresh by (intro step_refresh) auto
  ultimately have "session_steps env False ([], empty_engine c)
      (srv_conns s, install_tested (env_sort env) (env_iter env) tested (srv_engine s))"
    by (rule rtranclp.rtrancl_into_rtrancl)
  then show ?case by auto
qed

lemma reach_cover: "daemon env \<Longrightarrow> daemon_reach env s \<Longrightarrow> lease_cover (srv_state s)"
  using reach_steps [of env s] daemon.cover_steps [of env False] by fastforce

lemma reach_running: "daemon_reach env s \<Longrightarrow> srv_run s \<Longrightarrow> \<not> srv_stopping s"
  by (induction rule: daemon_reach.induct)
    (auto simp: start_server_def server_round_def graceful_stop_def Let_def split: prod.splits if_splits)

section \<open>A demonstration\<close>

text \<open>Two clients and two scored proxies, for the witnesses.\<close>

definition demo_config :: engine_config where
  "demo_config =
     \<lparr>max_keep = 2, max_inflight = 32, refresh_sec = 0, test_url = ''http://t/'', cache_path = [],
      use_cache = False, use_tor = False, fetch_public = False, extra_proxies = []\<rparr>"

definition demo_row :: "string \<Rightarrow> rat \<Rightarrow> proxy" where
  "demo_row a v = (new_proxy a)\<lparr>speed_mbps := Fin v, latency_ms := 10\<rparr>"

definition demo_input :: "string list \<Rightarrow> poll_mark" where
  "demo_input lines = Poll_input (map (\<lambda>l. (Poll_ready, Recv_data (l @ [nl]))) lines)"

definition demo_accepted :: server where
  "demo_accepted = server_round quiet_env False 2 [] (start_server demo_config)"

definition demo_scored :: server where
  "demo_scored = demo_accepted\<lparr>srv_engine := install_tested (env_sort quiet_env) (env_iter quiet_env)
     [demo_row ''http://a:1'' 1, demo_row ''http://b:2'' 2] (srv_engine demo_accepted)\<rparr>"

definition demo_leased :: server where
  "demo_leased = server_round quiet_env False 0
     [demo_input [''HELLO 1'', ''ACQUIRE''], demo_input [''HELLO 1'']] demo_scored"

definition demo_shared :: server where
  "demo_shared = server_round quiet_env False 0
     [Poll_nothing, demo_input [''RELEASE http://b:2 ok 0'', ''ACQUIRE'']] demo_leased"

definition demo_pool :: engine where
  "demo_pool = install_tested (env_sort quiet_env) (env_iter quiet_env)
     [demo_row ''http://a:1'' 1, demo_row ''http://b:2'' 2] (empty_engine demo_config)"

definition demo_greeted :: "cmd_result \<times> conn \<times> engine" where
  "demo_greeted = handle_line quiet_env False ''HELLO 1'' new_conn demo_pool"

definition demo_acquired :: "cmd_result \<times> conn \<times> engine" where
  "demo_acquired =
     handle_line quiet_env False ''ACQUIRE'' (fst (snd demo_greeted)) (snd (snd demo_greeted))"

lemma demo_row_fresh: "0 \<le> v \<Longrightarrow> v < pow2 1024 \<Longrightarrow> fresh_row (demo_row a v)"
  by (simp add: demo_row_def new_proxy_def fresh_row_def row_ok_def)

lemma demo_reach: "daemon_reach quiet_env demo_leased" "daemon_reach quiet_env demo_shared"
proof -
  have "length (srv_conns (start_server demo_config)) = 0" "srv_run (start_server demo_config)" by code_simp+
  then have "daemon_reach quiet_env demo_accepted"
    unfolding demo_accepted_def by (intro reach_round reach_start) simp_all
  then have scored: "daemon_reach quiet_env demo_scored"
    unfolding demo_scored_def by (rule reach_refresh) (simp_all add: demo_row_fresh pow2_def, simp add: demo_row_def new_proxy_def)
  have "length (srv_conns demo_scored) = 2" "srv_run demo_scored" by code_simp+
  with scored show leased: "daemon_reach quiet_env demo_leased"
    unfolding demo_leased_def by (intro reach_round) simp_all
  have "length (srv_conns demo_leased) = 2" "srv_run demo_leased" by code_simp+
  with leased show "daemon_reach quiet_env demo_shared"
    unfolding demo_shared_def by (intro reach_round) simp_all
qed

lemma demo_states:
  "map held (srv_conns demo_leased) = [[''http://b:2''], []]" "srv_run demo_leased"
  "leased (srv_engine demo_leased) = {''http://b:2''}"
  "map held (srv_conns demo_shared) = [[''http://b:2''], [''http://b:2'']]"
  by code_simp+

section \<open>Leases\<close>







text \<open>
  The daemon does not enforce that discipline: it honours a RELEASE of a proxy that another
  connection holds, and then leases the same proxy a second time.
\<close>

lemma foreign_release_shares_proxy:
  "\<exists>s c1 c2 u. daemon_reach quiet_env s \<and> srv_conns s = [c1, c2] \<and> u \<in> set (held c1) \<and> u \<in> set (held c2)"
proof -
  from demo_states(4) obtain c1 c2 where
    "srv_conns demo_shared = [c1, c2]" "held c1 = [''http://b:2'']" "held c2 = [''http://b:2'']"
    by auto
  with demo_reach(2) show ?thesis by (metis list.set_intros(1))
qed

section \<open>Replies\<close>

text \<open>
  One reply per command. The handler answers every line that has a word in it with exactly one
  line, and a blank one with none, so replies and commands stay paired on a connection.
\<close>

lemma handle_line_one_reply:
  "case handle_line env stopping line c e of (r, c', e') \<Rightarrow>
     \<exists>reply. c_sent c' = c_sent c @ (if ipc_split line = [] then [] else [reply])"
  by (auto simp: handler_defs erase_one_held_def Let_def split: option.splits prod.splits)

text \<open>
  Greeting. Before a client has said HELLO 1, no line of it changes the pool or is given a
  lease; any other command is answered with a protocol error and closes the connection.
\<close>

lemma handle_line_before_hello:
  assumes "\<not> greeted c" "handle_line env stopping line c e = (r, c', e')"
  shows "e' = e \<and> held c' = held c \<and>
    r = (if ipc_split line \<in> {[], [''HELLO'', ''1'']} then Cmd_ok else Cmd_close)"
proof -
  have two: "(length tok = 2 \<and> tok ! 0 = ''HELLO'' \<and> tok ! 1 = ''1'') \<longleftrightarrow> tok = [''HELLO'', ''1'']" for tok
    by (auto simp: numeral_2_eq_2 length_Suc_conv)
  show ?thesis
    using assms unfolding handle_line_def handle_hello_def two Let_def by (auto split: if_splits)
qed

lemma handle_line_before_hello_witness:
  "fst (handle_line quiet_env False ''ACQUIRE'' new_conn demo_pool) = Cmd_close"
proof -
  obtain r c' e' where h: "handle_line quiet_env False ''ACQUIRE'' new_conn demo_pool = (r, c', e')"
    by (metis prod_cases3)
  have "\<not> greeted new_conn" "ipc_split ''ACQUIRE'' \<notin> {[], [''HELLO'', ''1'']}" by code_simp+
  with handle_line_before_hello [OF _ h] h show ?thesis by simp
qed

text \<open>
  The reply to ACQUIRE. When the leased address has no white space and the reply fits a line,
  splitting the reply gives back the address and the speed the client is to use.
\<close>

lemma acquire_reply_words:
  assumes "solid (address p)" "address p \<noteq> []" "CHR 0x00 \<notin> set (address p)"
    and "length (address p) + length (fixed4 (speed_mbps p)) + 4 < k_ipc_max_line"
  shows "ipc_split (acquire_reply p) = [''OK'', address p, fixed4 (speed_mbps p)]"
proof -
  have "c_str (address p) = address p"
    unfolding c_str_def by (rule takeWhile_all) (use assms(3) in auto)
  then have "acquire_reply p = unwords [''OK'', address p, fixed4 (speed_mbps p)]"
    using assms(4) by (simp add: acquire_reply_def snprintf_def)
  moreover have "\<forall>w\<in>set [''OK'', address p, fixed4 (speed_mbps p)]. wire_word w"
    using assms(1,2) by (auto simp: wire_word_def solid_no_space)
  ultimately show ?thesis by (simp only: ipc_split_unwords)
qed

lemma acquire_reply_words_witness:
  "ipc_split (acquire_reply (demo_row ''http://b:2'' 2)) = [''OK'', ''http://b:2'', ''2.0000'']"
proof -
  let ?p = "demo_row ''http://b:2'' 2"
  have "solid (address ?p)" "address ?p \<noteq> []" "CHR 0x00 \<notin> set (address ?p)"
    "length (address ?p) + length (fixed4 (speed_mbps ?p)) + 4 < k_ipc_max_line"
    "address ?p = ''http://b:2''" "fixed4 (speed_mbps ?p) = ''2.0000''"
    by code_simp+
  then show ?thesis using acquire_reply_words [of ?p] by simp
qed

section \<open>Where the protocol breaks\<close>

definition spaced_url :: string where
  "spaced_url = normalize_proxy_line ''1.2.3.4:80 US'' ''http://''"

definition spaced_engine :: engine where
  "spaced_engine = snd (acquire [] (install_tested speed_sort map_order [demo_row spaced_url 1]
     (empty_engine demo_config)))"

text \<open>
  A proxy list may hold rows such as \<open>1.2.3.4:80 US\<close>. The space survives normalization, so the
  client reads a shorter URL from the reply than the one leased, and releasing the URL it read
  leaves the row leased.
\<close>

lemma spaced_address_stays_leased:
  "parse_proxy_body (''1.2.3.4:80 US'' @ [nl]) ''http://'' = [spaced_url] \<and> leased spaced_engine = {spaced_url} \<and>
   leased (release speed_sort (ipc_split (acquire_reply (demo_row spaced_url 1)) ! 1) True (Fin 0) spaced_engine) =
     {spaced_url}"
  by (intro conjI) code_simp+

definition twice_leased :: engine where
  "twice_leased = snd (acquire [] (snd (acquire [] (install_tested speed_sort map_order
     [demo_row ''http://b:2'' 2, demo_row ''http://b:2'' 1] (empty_engine demo_config)))))"

text \<open>
  A scoring pass tests the local proxies and then the cached or fetched ones without removing
  duplicates. When one address is in both, the pool gets two rows for it: it can be leased twice,
  and two releases free the first row twice, so the second stays leased with no one to free it.
\<close>

lemma duplicate_rows_leak_lease:
  "busy_count twice_leased = 2 \<and>
   leased (release speed_sort ''http://b:2'' True (Fin 0)
     (release speed_sort ''http://b:2'' True (Fin 0) twice_leased)) = {''http://b:2''}"
  by (intro conjI) code_simp+

end
