(* ===== verification/Pool_Props.thy ===== *)
theory Pool_Props
  imports Daemon
begin

text \<open>
  The properties of the proxy pool (\<open>src/proxy_engine.cpp\<close>), one operation after the other:
  leasing, releasing, installing scored rows, checking against a target, and the cache file.
\<close>

section \<open>Leasing\<close>

lemma demo_pool_ok: "pool_ok demo_pool" "unique_rows demo_pool"
  unfolding demo_pool_def quiet_env_def daemon_env.simps
  by (intro speed_sort.install_pool_ok speed_sort.install_unique;
      simp add: demo_row_fresh [unfolded fresh_row_def] pow2_def demo_row_def new_proxy_def
        empty_engine_def pool_ok_def sorted_speed_def row_ok_def)+

text \<open>
  C10: \<open>acquire\<close> leases a row that is alive, free, below the failure limit and, under a target filter,
  verified. The row was not leased, nothing else changes, and it is at least as fast as every other
  such row outside the skip list; a row of the skip list is leased only when every such row is in
  it, and then it is the fastest of all.
\<close>

theorem acquire_leases_best:
  assumes "pool_ok e" "unique_rows e" "acquire skip e = (Some r, e')"
  shows "(\<exists>pre p post. pool e = pre @ p # post \<and> leasable (target_filter e) p \<and>
      r = p\<lparr>busy := True\<rparr> \<and> e' = e\<lparr>pool := pre @ r # post\<rparr>) \<and>
    leased e' = insert (address r) (leased e) \<and> address r \<notin> leased e \<and>
    (\<forall>q\<in>set (pool e). leasable (target_filter e) q \<longrightarrow>
      (address q \<notin> set skip \<or> address r \<in> set skip \<longrightarrow> speed_mbps q \<le> speed_mbps r) \<and>
      (address r \<in> set skip \<longrightarrow> address q \<in> set skip))"
proof (intro conjI ballI impI)
  show "\<exists>pre p post. pool e = pre @ p # post \<and> leasable (target_filter e) p \<and>
      r = p\<lparr>busy := True\<rparr> \<and> e' = e\<lparr>pool := pre @ r # post\<rparr>"
    using assms(3) by (rule acquire_SomeE) blast
  show "leased e' = insert (address r) (leased e)" by (rule acquire_leased [OF assms(3)])
  show "address r \<notin> leased e" by (rule acquire_fresh [OF assms(2,3)])
  show "\<And>q. q \<in> set (pool e) \<Longrightarrow> leasable (target_filter e) q \<Longrightarrow>
      address q \<notin> set skip \<or> address r \<in> set skip \<Longrightarrow> speed_mbps q \<le> speed_mbps r"
    by (rule acquire_fastest [OF assms(1,3)])
  fix q assume "q \<in> set (pool e)" "leasable (target_filter e) q" "address r \<in> set skip"
  then show "address q \<in> set skip"
    using assms(3) by (elim acquire_SomeE) auto
qed

lemma acquire_leases_best_witness:
  "\<exists>r e'. acquire [''http://b:2''] demo_pool = (Some r, e') \<and> address r = ''http://a:1'' \<and> leased e' = {''http://a:1''}"
proof -
  obtain r e' where a: "acquire [''http://b:2''] demo_pool = (Some r, e')" "address r = ''http://a:1''"
    "leased demo_pool = {}"
  proof -
    have "map_option address (fst (acquire [''http://b:2''] demo_pool)) = Some ''http://a:1''" "leased demo_pool = {}"
      by code_simp+
    then show thesis using that by (cases "acquire [''http://b:2''] demo_pool") auto
  qed
  from acquire_leases_best [OF demo_pool_ok a(1)] a show ?thesis by auto
qed

text \<open>
  \<open>acquire\<close> fails exactly when no row may be leased, whatever the skip list says, and then it
  changes nothing.
\<close>

lemma acquire_fails_iff:
  "acquire skip e = (None, e') \<longleftrightarrow> e' = e \<and> filter (leasable (target_filter e)) (pool e) = []"
proof -
  have "fst (acquire skip e) = None \<longleftrightarrow> filter (leasable (target_filter e)) (pool e) = []"
    by (simp add: acquire_None_iff filter_empty_conv)
  then show ?thesis by (cases "acquire skip e") (auto dest: acquire_None_same)
qed

section \<open>Releasing\<close>



text \<open>A row whose user reports a failure, \<open>n\<close> times.\<close>

definition failing :: "(proxy list \<Rightarrow> proxy list) \<Rightarrow> string \<Rightarrow> nat \<Rightarrow> engine \<Rightarrow> engine" where
  "failing srt url n e = (release srt url False (Fin 0) ^^ n) e"

lemma release_fail_row:
  assumes "speed_sorter srt" "pool_inv e" "p \<in> set (pool e)" "address p = url" "fails p < 3"
  shows "pool_inv (release srt url False (Fin 0) e)"
    "\<exists>q\<in>set (pool (release srt url False (Fin 0) e)). address q = url \<and> fails q = fails p + 1"
proof -
  have e: "pool_ok e" "unique_rows e" using assms(2) by (simp_all add: pool_inv_def)
  note r = speed_sorter.release_pool_ok [OF assms(1) e(1)] speed_sorter.release_unique [OF assms(1) e]
  show "pool_inv (release srt url False (Fin 0) e)" using r by (simp add: pool_inv_def)
  obtain pre q post where q: "pool e = pre @ q # post" "address q = url"
    "release_row url False (Fin 0) (pool e) =
      (if alive (released_row False (Fin 0) q) then pre @ released_row False (Fin 0) q # post else pre @ post)"
    using release_row_cases [of url "pool e" False "Fin 0"] assms(3,4) by auto
  have "q = p"
    using e(2) assms(3,4) q(1,2) by (metis distinct_map in_set_conv_decomp inj_onD unique_rows_def)
  have "row_ok p" using e(1) assms(3) by (simp add: pool_ok_def)
  then have "alive (released_row False (Fin 0) p)" using assms(5) by (simp add: released_row_alive)
  then have "released_row False (Fin 0) p \<in> set (pool (release srt url False (Fin 0) e))"
    using q(3) \<open>q = p\<close> speed_sorter.release_mset [OF assms(1) e(1), of url False "Fin 0"]
    by (metis in_set_conv_decomp set_mset_mset)
  moreover have "fails (released_row False (Fin 0) p) = fails p + 1" by (simp add: released_row_def Let_def)
  ultimately show "\<exists>q\<in>set (pool (release srt url False (Fin 0) e)). address q = url \<and> fails q = fails p + 1"
    using assms(4) by (metis released_row_simps(1))
qed

lemma release_last_fail:
  assumes "speed_sorter srt" "pool_inv e" "p \<in> set (pool e)" "address p = url" "fails p = 3"
  shows "url \<notin> address ` set (pool (release srt url False (Fin 0) e))"
proof -
  have e: "pool_ok e" "unique_rows e" using assms(2) by (simp_all add: pool_inv_def)
  obtain pre q post where q: "pool e = pre @ q # post" "address q = url"
    "release_row url False (Fin 0) (pool e) =
      (if alive (released_row False (Fin 0) q) then pre @ released_row False (Fin 0) q # post else pre @ post)"
    using release_row_cases [of url "pool e" False "Fin 0"] assms(3,4) by auto
  have "q = p"
    using e(2) assms(3,4) q(1,2) by (metis distinct_map in_set_conv_decomp inj_onD unique_rows_def)
  have "row_ok p" using e(1) assms(3) by (simp add: pool_ok_def)
  then have "\<not> alive (released_row False (Fin 0) p)" using assms(5) by (simp add: released_row_alive)
  then have "set (pool (release srt url False (Fin 0) e)) = set (pre @ post)"
    using q(3) \<open>q = p\<close> speed_sorter.release_mset [OF assms(1) e(1), of url False "Fin 0"]
    by (metis set_mset_mset)
  moreover have "url \<notin> address ` set (pre @ post)" using e(2) q(1,2) by (auto simp: unique_rows_def)
  ultimately show ?thesis by simp
qed

lemma failing_counts:
  assumes "speed_sorter srt" "pool_inv e" "p \<in> set (pool e)" "address p = url" "fails p = 0" "n \<le> 3"
  shows "pool_inv (failing srt url n e) \<and> (\<exists>q\<in>set (pool (failing srt url n e)). address q = url \<and> fails q = int n)"
  using assms(6)
proof (induction n)
  case 0
  then show ?case using assms(2-5) by (auto simp: failing_def)
next
  case (Suc n)
  then obtain q where q: "pool_inv (failing srt url n e)" "q \<in> set (pool (failing srt url n e))"
    "address q = url" "fails q = int n" by auto
  have "failing srt url (Suc n) e = release srt url False (Fin 0) (failing srt url n e)"
    by (simp add: failing_def)
  with release_fail_row [OF assms(1) q(1-3)] q(4) Suc.prems show ?case by (simp add: add.commute)
qed

text \<open>
  Four strikes. A row that keeps failing is kept through three failures and erased by the
  fourth, and while it is kept each failure is counted.
\<close>

lemma four_failures_erase:
  assumes "speed_sorter srt" "pool_ok e" "unique_rows e" "p \<in> set (pool e)" "address p = url" "fails p = 0"
  shows "(n \<le> 3 \<longrightarrow> (\<exists>q\<in>set (pool (failing srt url n e)). address q = url \<and> fails q = int n)) \<and>
    url \<notin> address ` set (pool (failing srt url 4 e))"
proof (intro conjI impI)
  have inv: "pool_inv e" using assms(2,3) by (simp add: pool_inv_def)
  show "n \<le> 3 \<Longrightarrow> \<exists>q\<in>set (pool (failing srt url n e)). address q = url \<and> fails q = int n"
    using failing_counts [OF assms(1) inv assms(4-6)] by blast
  obtain q where q: "pool_inv (failing srt url 3 e)" "q \<in> set (pool (failing srt url 3 e))"
    "address q = url" "fails q = 3"
    using failing_counts [OF assms(1) inv assms(4-6), of 3] by auto
  have "failing srt url 4 e = release srt url False (Fin 0) (failing srt url 3 e)"
    by (simp add: failing_def eval_nat_numeral)
  with release_last_fail [OF assms(1) q] show "url \<notin> address ` set (pool (failing srt url 4 e))" by simp
qed

lemma four_failures_erase_witness:
  "''http://b:2'' \<notin> address ` set (pool (failing speed_sort ''http://b:2'' 4 demo_pool))"
proof -
  have "set (pool demo_pool) = {demo_row ''http://a:1'' 1, demo_row ''http://b:2'' 2}" by code_simp
  then have "demo_row ''http://b:2'' 2 \<in> set (pool demo_pool)" by simp
  then show ?thesis
    by (rule four_failures_erase [OF speed_sort.speed_sorter_axioms demo_pool_ok, THEN conjunct2])
      (simp_all add: demo_row_def new_proxy_def)
qed

section \<open>Scoring passes\<close>

lemma carry_covers:
  "t \<in> set ts \<Longrightarrow> t \<in> set (fst (carry_leases ts old)) \<or> address t \<in> busy_addrs (fst (carry_leases ts old))"
proof (induction ts arbitrary: old)
  case (Cons x ts)
  then show ?case
    by (cases "find (\<lambda>p. address p = address x) old") (auto simp: case_prod_unfold Let_def)
qed simp

lemma merged_card:
  assumes "engine_env srt itr" "\<forall>t\<in>set tested. \<not> busy t" "distinct (map address tested)"
  shows "length (filter busy (merged_rows itr tested ps)) = card (busy_addrs ps)"
proof -
  let ?m = "merged_rows itr tested ps"
  have "distinct (map address (filter busy ?m))"
    using engine_env.merged_distinct [OF assms(1,3)] by (rule distinct_map_filter)
  then have "length (filter busy ?m) = card (set (map address (filter busy ?m)))"
    by (metis distinct_card length_map)
  also have "set (map address (filter busy ?m)) = busy_addrs ?m"
    by (auto simp: busy_addrs_def)
  finally show ?thesis using engine_env.merged_busy [OF assms(1,2)] by simp
qed



section \<open>Target checks\<close>

lemma install_all_frame:
  "target_filter (install_all srt itr passes e) = target_filter e"
  "target_url (install_all srt itr passes e) = target_url e"
  by (induction passes arbitrary: e) (simp_all add: install_all_def install_tested_def)

text \<open>
  C12: A target check. After TARGET, the filter is on for the new URL, leases are as they were, and
  the rows that may be leased are among the proxies that reached the target in this check, at the
  speed it measured, even when scoring passes installed other rows while the check was running.
\<close>

theorem verify_target_filters:
  assumes "engine_env srt itr" "probes_ok probes" "passes_ok passes" "pool_ok e" "unique_rows e" "url \<noteq> []"
    and "probes url (map address (filter alive (pool e))) = Some reached"
    and "verify_target srt itr probes passes url e = (n, e')"
  shows "n = length reached \<and> target_filter e' \<and> target_url e' = url \<and> leased e' = leased e \<and>
    (\<forall>q\<in>set (pool e'). leasable (target_filter e') q \<longrightarrow> map_of reached (address q) = Some (speed_mbps q))"
proof -
  obtain addrs e1 where b: "verify_begin url e = Some (addrs, e1)" "addrs = map address (filter alive (pool e))"
    using assms(6) by (auto simp: verify_begin_def)
  then have v: "(n, e') = verify_finish srt reached (install_all srt itr passes e1)"
    using assms(7,8) by (simp add: verify_target_def)
  note vb = verify_begin_props [OF b(1)]
  have ok: "\<forall>(a, v)\<in>set reached. speed_ok v" using assms(2,7) by (simp add: probes_ok_def)
  have i: "pool_ok (install_all srt itr passes e1)"
    using engine_env.install_all_keeps [OF assms(1,3) vb(1) [OF assms(4)]] by simp
  have n: "n = length reached" using v by (simp add: verify_finish_def)
  have filter_on: "target_filter e'" "target_url e' = url"
    using v b vb(4) by (auto simp: verify_finish_def install_all_frame verify_begin_def split: if_splits)
  have leased: "leased e' = leased e"
    using engine_env.verify_target_keeps [OF assms(1-5,8)] by simp
  have rows: "set (pool e') = verify_row reached ` set (pool (install_all srt itr passes e1))"
    using speed_sorter.verify_finish_set [OF engine_env.axioms(1) [OF assms(1)] i ok] v
    by (metis snd_conv)
  have "map_of reached (address q) = Some (speed_mbps q)"
    if "q \<in> set (pool e')" "leasable (target_filter e') q" for q
  proof -
    from that(1) [unfolded rows] obtain p where p: "q = verify_row reached p" by (rule imageE)
    have "target_ok q" using that(2) filter_on(1) by (simp add: leasable_def)
    then show ?thesis using p by (auto simp: verify_row_def split: option.splits)
  qed
  with n filter_on leased show ?thesis by blast
qed

definition demo_probe :: "string \<Rightarrow> string list \<Rightarrow> (string \<times> double) list option" where
  "demo_probe url addrs = Some (if ''http://a:1'' \<in> set addrs then [(''http://a:1'', Fin 5)] else [])"

lemma verify_target_filters_witness:
  "fst (verify_target speed_sort map_order demo_probe [] ''http://t/f'' demo_pool) = 1"
proof -
  obtain n e' where v: "verify_target speed_sort map_order demo_probe [] ''http://t/f'' demo_pool = (n, e')"
    by fastforce
  have pr: "probes_ok demo_probe" and pa: "passes_ok []"
    by (simp_all add: probes_ok_def demo_probe_def passes_ok_def pow2_def)
  have f: "demo_probe ''http://t/f'' (map address (filter alive (pool demo_pool))) = Some [(''http://a:1'', Fin 5)]"
    by code_simp
  have ne: "''http://t/f'' \<noteq> []" by simp
  note t = verify_target_filters [OF speed_sort.engine_env_axioms pr pa demo_pool_ok(1) demo_pool_ok(2) ne f v]
  have "n = length [(''http://a:1'', Fin 5)]" by (rule t [THEN conjunct1])
  then show ?thesis using v by simp
qed

definition rechecked_engine :: engine where
  "rechecked_engine = install_tested speed_sort map_order [demo_row ''http://b:2'' 2]
     (snd (verify_target speed_sort map_order demo_probe [] ''http://t/f'' demo_pool))"

text \<open>
  A later scoring pass undoes the check. \<open>install_tested\<close> brings its rows in as \<open>Proxy\<close> declares
  them, with \<open>target_ok\<close> true. A proxy that just failed the target can be leased again although the
  filter is still on.
\<close>

lemma refresh_forgets_target:
  "target_filter rechecked_engine \<and> \<not> leasable True (hd (tl (pool (snd (verify_target speed_sort map_order demo_probe []
     ''http://t/f'' demo_pool))))) \<and> map_option address (fst (acquire [] rechecked_engine)) = Some ''http://b:2''"
  by (intro conjI) code_simp+

section \<open>The cache file\<close>

text \<open>
  C34: The cache round trip. What \<open>save_cache\<close> writes for a pool whose addresses are URLs without white
  space, \<open>load_cache\<close> reads back as the addresses of the pool, in order of speed.
\<close>

theorem save_load_cache:
  assumes "pool_ok e" "\<forall>p\<in>set (pool e). wire_url (address p)" "save_cache e = Some text"
  shows "load_cache (Some text) = map address (pool e)"
proof -
  let ?row = "\<lambda>p. address p @ [sp] @ stream_double (speed_mbps p)"
  have alive: "filter alive (pool e) = pool e"
    using assms(1) by (auto simp: pool_ok_def row_ok_def)
  have nlfree: "\<forall>l\<in>set (map ?row ps). nl \<notin> set l" if "\<forall>p\<in>set ps. wire_url (address p)" for ps
    using that by (auto simp: wire_url_def solid_no_newline)
  have rows: "load_cache_lines (map ?row ps) = map address ps" if "\<forall>p\<in>set ps. wire_url (address p)" for ps
    using that by (induction ps) (simp_all add: load_cache_row del: load_cache_lines.simps(2))
  define h where "h = ''# proxchunk proxy cache''"
  have "text = h @ nl # concat (map (\<lambda>l. l @ [nl]) (map ?row (pool e)))"
    using assms(3) alive by (auto simp: save_cache_def h_def comp_def split: if_splits)
  moreover have h: "nl \<notin> set h" unfolding h_def by code_simp
  ultimately have "getlines text = h # map ?row (pool e)"
    by (simp only: getlines_line [OF h] getlines_concat [OF nlfree [OF assms(2)]])
  moreover have "\<not> is_blank (last (CHR ''#'' # '' proxchunk proxy cache''))" by code_simp
  ultimately show ?thesis
    using load_cache_comment [of "'' proxchunk proxy cache''"] rows [OF assms(2)]
    by (simp add: load_cache_def h_def del: load_cache_lines.simps(2))
qed

definition cached_engine :: engine where
  "cached_engine = demo_pool\<lparr>cfg := (cfg demo_pool)\<lparr>use_cache := True, cache_path := ''c''\<rparr>\<rparr>"

lemma save_load_cache_witness:
  "\<exists>text. save_cache cached_engine = Some text \<and> load_cache (Some text) = [''http://b:2'', ''http://a:1'']"
proof -
  have "pool cached_engine = pool demo_pool" by (simp add: cached_engine_def)
  then have ok: "pool_ok cached_engine" using demo_pool_ok(1) by (simp add: pool_ok_def)
  have w: "\<forall>p\<in>set (pool cached_engine). wire_url (address p)"
    "map address (pool cached_engine) = [''http://b:2'', ''http://a:1'']"
    "save_cache cached_engine \<noteq> None"
    by code_simp+
  from w(3) obtain t where "save_cache cached_engine = Some t" by auto
  with save_load_cache [OF ok w(1) this] w(2) show ?thesis by simp
qed

end
