(* ===== verification/Plan.thy ===== *)
theory Plan
  imports Prelude "HOL-Library.Signed_Division"
begin

text \<open>
  The chunk planner: \<open>include/proxchunk/plan_n.h\<close> and the two planners of
  \<open>include/proxchunk/plan.hpp\<close>. A plan is a list of inclusive byte ranges. The contract of
  both planners is the locale \<open>planner\<close>: the ranges, in order, list every byte of the file
  exactly once, none is empty, and the ids count from zero. The downloader relies on this
  contract only.
\<close>

section \<open>The model\<close>

text \<open>\<open>struct chunk\<close>: inclusive offsets and the id.\<close>

record chunk =
  ch_start :: int
  ch_end :: int
  ch_id :: int

text \<open>\<open>plan_n_piece_count\<close> (\<open>plan_n.h\<close>).\<close>

definition plan_n_piece_count :: "int \<Rightarrow> int \<Rightarrow> int" where
  "plan_n_piece_count sz n_pieces =
     (if sz \<le> 0 \<or> n_pieces < 1 then 0
      else if n_pieces > sz then sz
      else n_pieces)"

text \<open>
  \<open>plan_n_bounds\<close> (\<open>plan_n.h\<close>): the values written through \<open>start\<close> and \<open>end\<close>. Both callers pass
  addresses of objects, so the null check of the C function has no effect here.
\<close>

definition plan_n_bounds :: "int \<Rightarrow> int \<Rightarrow> int \<Rightarrow> (int \<times> int) option" where
  "plan_n_bounds sz n i =
     (if sz \<le> 0 \<or> n < 1 \<or> i < 0 \<or> i \<ge> n then Some (0, -1)
      else do {
        let piece = sz sdiv n;
        start \<leftarrow> i64 (i * piece);
        if i = n - 1
        then do { e \<leftarrow> i64 (sz - 1); Some (start, e) }
        else do { e0 \<leftarrow> i64 (start + piece); e \<leftarrow> i64 (e0 - 1); Some (start, e) }
      })"

text \<open>
  \<open>plan_chunks\<close> (\<open>plan.hpp\<close>). The loop \<open>for (off = 0; off < sz; off += chunk_bytes)\<close> carries
  \<open>off\<close> and \<open>id\<close>; the guard \<open>0 < chunk_bytes\<close> of the function is repeated in the loop, where it
  is what makes the loop end.
\<close>

function plan_chunks_loop :: "int \<Rightarrow> int \<Rightarrow> int \<Rightarrow> int \<Rightarrow> chunk list option" where
  "plan_chunks_loop sz chunk_bytes off cid =
     (if 0 < chunk_bytes \<and> off < sz
      then do {
        next_off \<leftarrow> i64 (off + chunk_bytes);
        last_off \<leftarrow> i64 (next_off - 1);
        cid' \<leftarrow> i32 (cid + 1);
        rest \<leftarrow> plan_chunks_loop sz chunk_bytes (off + chunk_bytes) cid';
        Some (\<lparr>ch_start = off, ch_end = min last_off (sz - 1), ch_id = cid\<rparr> # rest)
      }
      else Some [])"
  by pat_completeness auto
termination
  by (relation "measure (\<lambda>(sz, chunk_bytes, off, cid). nat (sz - off))") auto

declare plan_chunks_loop.simps [simp del]

definition plan_chunks :: "int \<Rightarrow> int \<Rightarrow> chunk list option" where
  "plan_chunks sz chunk_bytes =
     (if sz \<le> 0 \<or> chunk_bytes \<le> 0 then Some []
      else plan_chunks_loop sz chunk_bytes 0 0)"

text \<open>\<open>plan_chunks_n\<close> (\<open>plan.hpp\<close>): the loop over \<open>i\<close> from 0 to \<open>n - 1\<close>.\<close>

fun plan_chunks_n_loop :: "int \<Rightarrow> int \<Rightarrow> int list \<Rightarrow> chunk list option" where
  "plan_chunks_n_loop sz n [] = Some []"
| "plan_chunks_n_loop sz n (i # is) =
     do {
       (s, e) \<leftarrow> plan_n_bounds sz n i;
       rest \<leftarrow> plan_chunks_n_loop sz n is;
       Some (\<lparr>ch_start = s, ch_end = e, ch_id = i\<rparr> # rest)
     }"

definition plan_chunks_n :: "int \<Rightarrow> int \<Rightarrow> chunk list option" where
  "plan_chunks_n sz n_pieces =
     (let n = plan_n_piece_count sz n_pieces
      in if n < 1 then Some [] else plan_chunks_n_loop sz n [0..n - 1])"

section \<open>The contract: a plan tiles the file\<close>

text \<open>The offsets of a chunk, and how many there are (\<open>want\<close> in \<open>proxchunk.cpp\<close>).\<close>

definition ch_bytes :: "chunk \<Rightarrow> int list" where
  "ch_bytes c = [ch_start c..ch_end c]"

definition ch_want :: "chunk \<Rightarrow> int" where
  "ch_want c = ch_end c - ch_start c + 1"

text \<open>
  \<open>tiles a sz k cs\<close>: the chunks list the bytes \<open>a\<close> to \<open>sz - 1\<close> in order, each once, none is
  empty, and the ids count up from \<open>k\<close>.
\<close>

fun tiles :: "int \<Rightarrow> int \<Rightarrow> int \<Rightarrow> chunk list \<Rightarrow> bool" where
  "tiles a sz k [] \<longleftrightarrow> a = sz"
| "tiles a sz k (c # cs) \<longleftrightarrow>
     ch_start c = a \<and> a \<le> ch_end c \<and> ch_end c < sz \<and> ch_id c = k \<and>
     tiles (ch_end c + 1) sz (k + 1) cs"

lemma tiles_le: "tiles a sz k cs \<Longrightarrow> a \<le> sz"
  by (induction cs arbitrary: a k) force+

lemma tiles_bytes: "tiles a sz k cs \<Longrightarrow> concat (map ch_bytes cs) = [a..sz - 1]"
proof (induction cs arbitrary: a k)
  case Nil
  then show ?case by simp
next
  case (Cons c cs)
  then have IH: "concat (map ch_bytes cs) = [ch_end c + 1..sz - 1]"
    by auto
  have "[a..ch_end c] @ [ch_end c + 1..sz - 1] = [a..sz - 1]"
    using Cons.prems by (intro upto_append) auto
  moreover have "ch_bytes c = [a..ch_end c]"
    using Cons.prems by (simp add: ch_bytes_def)
  ultimately show ?case using IH by simp
qed

lemma tiles_ids: "tiles a sz k cs \<Longrightarrow> map ch_id cs = [k..k + int (length cs) - 1]"
proof (induction cs arbitrary: a k)
  case Nil
  then show ?case by simp
next
  case (Cons c cs)
  then have "map ch_id cs = [k + 1..k + 1 + int (length cs) - 1]" by auto
  with Cons.prems show ?case by (simp add: upto_rec1 algebra_simps)
qed

lemma tiles_want: "tiles a sz k cs \<Longrightarrow> sum_list (map ch_want cs) = sz - a"
  by (induction cs arbitrary: a k) (auto simp: ch_want_def)

lemma tiles_nonempty: "tiles a sz k cs \<Longrightarrow> c \<in> set cs \<Longrightarrow> 1 \<le> ch_want c"
  by (induction cs arbitrary: a k) (auto simp: ch_want_def)

lemma tiles_bounds: "tiles a sz k cs \<Longrightarrow> c \<in> set cs \<Longrightarrow> a \<le> ch_start c \<and> ch_end c < sz"
  by (induction cs arbitrary: a k) fastforce+

lemma tiles_length: "tiles a sz k cs \<Longrightarrow> int (length cs) \<le> sz - a"
  by (induction cs arbitrary: a k) fastforce+

text \<open>The bytes of a file that a chunk names, and the plan read back as a file.\<close>

definition ch_slice :: "'a list \<Rightarrow> chunk \<Rightarrow> 'a list" where
  "ch_slice content c = take (nat (ch_want c)) (drop (nat (ch_start c)) content)"

lemma ch_slice_nth:
  assumes "0 \<le> ch_start c" "ch_start c \<le> ch_end c" "ch_end c < int (length content)"
  shows "ch_slice content c = map (\<lambda>i. content ! nat i) (ch_bytes c)"
  using map_nth_slice [of "ch_start c" "ch_end c" content] assms
  by (simp add: ch_slice_def ch_bytes_def ch_want_def)

lemma length_ch_slice:
  assumes "0 \<le> ch_start c" "ch_start c \<le> ch_end c" "ch_end c < int (length content)"
  shows "int (length (ch_slice content c)) = ch_want c"
  using assms by (simp add: ch_slice_nth ch_bytes_def ch_want_def)

lemma tiles_start_le: "tiles a sz k cs \<Longrightarrow> c \<in> set cs \<Longrightarrow> ch_start c \<le> ch_end c"
  by (induction cs arbitrary: a k) auto

lemma map_nth_all: "map (\<lambda>i. xs ! nat i) [0..int (length xs) - 1] = xs"
  using map_nth_slice [of 0 "int (length xs) - 1" xs] by simp

lemma tiles_slices:
  assumes "tiles 0 (int (length content)) 0 cs"
  shows "concat (map (ch_slice content) cs) = content"
proof -
  have "ch_slice content c = map (\<lambda>i. content ! nat i) (ch_bytes c)" if "c \<in> set cs" for c
    using tiles_bounds [OF assms that] tiles_start_le [OF assms that] by (simp add: ch_slice_nth)
  then have "concat (map (ch_slice content) cs) = map (\<lambda>i. content ! nat i) (concat (map ch_bytes cs))"
    by (simp add: map_concat comp_def cong: map_cong)
  also have "\<dots> = content"
    by (simp add: tiles_bytes [OF assms] map_nth_all)
  finally show ?thesis .
qed

text \<open>
  The interface the downloader relies on: a planner returns (no arithmetic overflows) and its
  plan tiles the file, for the arguments it accepts.
\<close>

locale planner =
  fixes plan :: "int \<Rightarrow> int \<Rightarrow> chunk list option"
    and ok :: "int \<Rightarrow> int \<Rightarrow> bool"
  assumes plan_tiles: "ok sz k \<Longrightarrow> \<exists>cs. plan sz k = Some cs \<and> tiles 0 sz 0 cs"
begin

lemma tiles_of: "ok sz k \<Longrightarrow> plan sz k = Some cs \<Longrightarrow> tiles 0 sz 0 cs"
  using plan_tiles by fastforce

lemma bytes_of: "ok sz k \<Longrightarrow> plan sz k = Some cs \<Longrightarrow> concat (map ch_bytes cs) = [0..sz - 1]"
  by (rule tiles_bytes [OF tiles_of])

lemma ids_of: "ok sz k \<Longrightarrow> plan sz k = Some cs \<Longrightarrow> map ch_id cs = [0..int (length cs) - 1]"
  using tiles_ids [OF tiles_of] by fastforce

lemma want_of: "ok sz k \<Longrightarrow> plan sz k = Some cs \<Longrightarrow> sum_list (map ch_want cs) = sz"
  using tiles_want [OF tiles_of] by fastforce

lemma file_of:
  "ok (int (length content)) k \<Longrightarrow> plan (int (length content)) k = Some cs \<Longrightarrow>
   concat (map (ch_slice content) cs) = content"
  by (rule tiles_slices [OF tiles_of])

end

section \<open>Splitting by size\<close>

text \<open>
  The arguments for which \<open>plan_chunks\<close> stays inside its integers: \<open>off + chunk_bytes\<close> must fit
  64 bits, and the number of chunks must fit the 32-bit id.
\<close>

definition by_size_ok :: "int \<Rightarrow> int \<Rightarrow> bool" where
  "by_size_ok sz chunk_bytes \<longleftrightarrow>
     0 \<le> sz \<and> 0 < chunk_bytes \<and> sz + chunk_bytes \<le> 2 ^ 63 \<and> sz \<le> chunk_bytes * (2 ^ 31 - 1)"

lemma plan_chunks_loop_tiles:
  assumes "by_size_ok sz cb" "0 \<le> k"
  shows "k * cb \<le> sz + cb - 1 \<Longrightarrow>
    \<exists>cs. plan_chunks_loop sz cb (k * cb) k = Some cs \<and> tiles (min (k * cb) sz) sz k cs \<and>
      (\<forall>c\<in>set cs. ch_want c \<le> cb) \<and> (\<forall>c\<in>set cs. ch_start c = ch_id c * cb)"
  using assms(2)
proof (induction "nat (sz - k * cb)" arbitrary: k rule: less_induct)
  case less
  have cb: "0 < cb" and fits: "sz + cb \<le> 2 ^ 63" "sz \<le> cb * (2 ^ 31 - 1)"
    using assms(1) by (auto simp: by_size_ok_def)
  show ?case
  proof (cases "k * cb < sz")
    case False
    then show ?thesis by (simp add: plan_chunks_loop.simps [of sz cb "k * cb" k])
  next
    case True
    have "0 \<le> k * cb" using cb less.prems by simp
    then have o1: "in_i64 (k * cb + cb)" "in_i64 (k * cb + cb - 1)"
      using True fits cb by (auto simp: in_i64_def)
    have "k * cb < (2 ^ 31 - 1) * cb" using True fits by (simp add: mult.commute)
    then have "k < 2 ^ 31 - 1" using cb by (simp only: mult_less_cancel_right_pos)
    then have o2: "in_i32 (k + 1)" using less.prems by (simp add: in_i32_def)
    have step: "(k + 1) * cb = k * cb + cb" by (simp add: algebra_simps)
    have "\<exists>cs. plan_chunks_loop sz cb ((k + 1) * cb) (k + 1) = Some cs \<and>
        tiles (min ((k + 1) * cb) sz) sz (k + 1) cs \<and>
        (\<forall>c\<in>set cs. ch_want c \<le> cb) \<and> (\<forall>c\<in>set cs. ch_start c = ch_id c * cb)"
      using True cb less.prems by (intro less.hyps) (simp_all add: step)
    then obtain cs where cs: "plan_chunks_loop sz cb (k * cb + cb) (k + 1) = Some cs"
      "tiles (min (k * cb + cb) sz) sz (k + 1) cs"
      "\<forall>c\<in>set cs. ch_want c \<le> cb" "\<forall>c\<in>set cs. ch_start c = ch_id c * cb"
      by (auto simp: step)
    have "min (k * cb + cb - 1) (sz - 1) + 1 = min (k * cb + cb) sz" by simp
    then show ?thesis
      using True cb o1 o2 cs
      by (auto simp: plan_chunks_loop.simps [of sz cb "k * cb" k] ch_want_def)
  qed
qed

lemma plan_chunks_spec:
  assumes "by_size_ok sz cb"
  shows "\<exists>cs. plan_chunks sz cb = Some cs \<and> tiles 0 sz 0 cs \<and>
    (\<forall>c\<in>set cs. ch_want c \<le> cb) \<and> (\<forall>c\<in>set cs. ch_start c = ch_id c * cb)"
proof (cases "sz = 0")
  case True
  then show ?thesis by (simp add: plan_chunks_def)
next
  case False
  with assms have "0 < sz" "0 < cb" by (auto simp: by_size_ok_def)
  then show ?thesis
    using plan_chunks_loop_tiles [OF assms, of 0] by (simp add: plan_chunks_def)
qed

interpretation by_size: planner plan_chunks by_size_ok
  using plan_chunks_spec by unfold_locales blast

section \<open>Splitting into N pieces\<close>

definition by_count_ok :: "int \<Rightarrow> int \<Rightarrow> bool" where
  "by_count_ok sz n_pieces \<longleftrightarrow> 0 \<le> sz \<and> in_i64 sz \<and> 1 \<le> n_pieces \<and> in_i32 n_pieces"

lemma piece_count_bounds:
  "0 < sz \<Longrightarrow> 1 \<le> n_pieces \<Longrightarrow>
   1 \<le> plan_n_piece_count sz n_pieces \<and> plan_n_piece_count sz n_pieces \<le> sz \<and>
   plan_n_piece_count sz n_pieces = min n_pieces sz"
  by (simp add: plan_n_piece_count_def)

lemma mult_div_le_dividend: "0 < n \<Longrightarrow> 0 \<le> a \<Longrightarrow> n * (a div n) \<le> a" for a n :: int
  by (metis mult_div_mod_eq pos_mod_sign le_add_same_cancel1)

lemma sdiv_pos: "0 \<le> a \<Longrightarrow> 0 < b \<Longrightarrow> a sdiv b = a div b" for a b :: int
  by (simp add: signed_divide_int_def sgn_if)

lemma plan_n_bounds_spec:
  assumes "in_i64 sz" "1 \<le> n" "n \<le> sz" "0 \<le> i" "i < n"
  shows "plan_n_bounds sz n i =
    Some (i * (sz div n), if i = n - 1 then sz - 1 else (i + 1) * (sz div n) - 1)"
proof -
  define p where "p = sz div n"
  have p: "0 \<le> p" "sz sdiv n = p" using assms by (simp_all add: p_def sdiv_pos pos_imp_zdiv_nonneg_iff)
  have "n * p \<le> sz" unfolding p_def using assms by (intro mult_div_le_dividend) auto
  moreover have "(i + 1) * p \<le> n * p" using assms p by (intro mult_right_mono) auto
  ultimately have le: "(i + 1) * p \<le> sz" by simp
  have ex: "i * p + p = (i + 1) * p" by (simp add: algebra_simps)
  have nn: "0 \<le> i * p" using assms p by simp
  have r: "in_i64 (i * p)" "in_i64 (i * p + p)" "in_i64 (i * p + p - 1)" "in_i64 (sz - 1)"
    using le nn p(1) assms(1-3) by (auto simp: in_i64_def ex [symmetric])
  show ?thesis
    using assms p r by (simp add: plan_n_bounds_def ex flip: p_def)
qed

lemma plan_chunks_n_loop_tiles:
  assumes "in_i64 sz" "1 \<le> n" "n \<le> sz" "0 \<le> i" "i \<le> n"
  shows "\<exists>cs. plan_chunks_n_loop sz n [i..n - 1] = Some cs \<and>
    tiles (if i = n then sz else i * (sz div n)) sz i cs \<and>
    (\<forall>c\<in>set cs. ch_id c \<noteq> n - 1 \<longrightarrow> ch_want c = sz div n)"
  using assms(4,5)
proof (induction "nat (n - i)" arbitrary: i)
  case 0
  then show ?case by simp
next
  case (Suc m)
  define p where "p = sz div n"
  have "1 \<le> p" unfolding p_def using assms by (simp add: pos_imp_zdiv_pos_iff int_one_le_iff_zero_less)
  from Suc have i: "i < n" "[i..n - 1] = i # [i + 1..n - 1]" by (auto simp: upto_rec1)
  have IH: "\<exists>cs. plan_chunks_n_loop sz n [i + 1..n - 1] = Some cs \<and>
      tiles (if i + 1 = n then sz else (i + 1) * p) sz (i + 1) cs \<and>
      (\<forall>c\<in>set cs. ch_id c \<noteq> n - 1 \<longrightarrow> ch_want c = p)"
    unfolding p_def using Suc i by (intro Suc.hyps(1)) auto
  then obtain cs where cs: "plan_chunks_n_loop sz n [i + 1..n - 1] = Some cs"
      "tiles (if i + 1 = n then sz else (i + 1) * p) sz (i + 1) cs"
      "\<forall>c\<in>set cs. ch_id c \<noteq> n - 1 \<longrightarrow> ch_want c = p"
    by blast
  have np: "n * p \<le> sz" unfolding p_def using assms by (intro mult_div_le_dividend) auto
  have ex: "(i + 1) * p = i * p + p" by (simp add: algebra_simps)
  have bounds: "plan_n_bounds sz n i = Some (i * p, if i = n - 1 then sz - 1 else (i + 1) * p - 1)"
    using plan_n_bounds_spec [OF assms(1-3) Suc.prems(1) i(1)] by (simp add: p_def)
  show ?case
  proof (cases "i + 1 = n")
    case True
    then have "i * p + p \<le> sz" using np ex by simp
    with True show ?thesis using bounds i cs \<open>1 \<le> p\<close> by (simp flip: p_def)
  next
    case False
    with i have "i + 1 < n" by simp
    then have "(i + 1) * p < n * p" using \<open>1 \<le> p\<close> by (simp only: mult_less_cancel_right_pos)
    with np ex have "i * p + p < sz" by simp
    with False show ?thesis
      using bounds i cs \<open>1 \<le> p\<close> ex by (simp add: ch_want_def flip: p_def)
  qed
qed

lemma plan_chunks_n_spec:
  assumes "by_count_ok sz n"
  shows "\<exists>cs. plan_chunks_n sz n = Some cs \<and> tiles 0 sz 0 cs \<and>
    int (length cs) = min n sz \<and>
    (\<forall>c\<in>set cs. ch_id c \<noteq> min n sz - 1 \<longrightarrow> ch_want c = sz div min n sz)"
proof (cases "sz = 0")
  case True
  then show ?thesis using assms by (simp add: plan_chunks_n_def plan_n_piece_count_def by_count_ok_def)
next
  case False
  with assms have *: "0 < sz" "1 \<le> n" "in_i64 sz" by (auto simp: by_count_ok_def)
  then have m: "1 \<le> min n sz" "min n sz \<le> sz" "plan_n_piece_count sz n = min n sz"
    by (auto simp: plan_n_piece_count_def)
  obtain cs where cs: "plan_chunks_n_loop sz (min n sz) [0..min n sz - 1] = Some cs" "tiles 0 sz 0 cs"
      "\<forall>c\<in>set cs. ch_id c \<noteq> min n sz - 1 \<longrightarrow> ch_want c = sz div min n sz"
    using plan_chunks_n_loop_tiles [OF *(3) m(1,2), of 0] m by auto
  have "length cs = length [0..min n sz - 1]"
  proof -
    have "plan_chunks_n_loop sz k is = Some cs \<Longrightarrow> length cs = length is" for k "is" cs
      by (induction "is" arbitrary: cs) (auto simp: bind_eq_Some_conv)
    with cs(1) show ?thesis by blast
  qed
  then show ?thesis using m cs by (simp add: plan_chunks_n_def Let_def min_less_iff_disj)
qed

interpretation by_count: planner plan_chunks_n by_count_ok
  using plan_chunks_n_spec by unfold_locales blast

section \<open>Properties\<close>

text \<open>
  C8: \<open>plan_chunks\<close>. For a size and a chunk size that fit, the planner returns without overflowing, its
  ranges list the bytes of the file in order, each exactly once, none is empty or longer than
  \<open>chunk_bytes\<close>, and chunk \<open>i\<close> has id \<open>i\<close> and starts at \<open>i * chunk_bytes\<close>.
\<close>

theorem plan_chunks_splits:
  assumes "by_size_ok sz cb"
  shows "\<exists>cs. plan_chunks sz cb = Some cs \<and> concat (map ch_bytes cs) = [0..sz - 1] \<and>
    map ch_id cs = [0..int (length cs) - 1] \<and>
    (\<forall>c\<in>set cs. 1 \<le> ch_want c \<and> ch_want c \<le> cb \<and> ch_start c = ch_id c * cb)"
proof -
  from plan_chunks_spec [OF assms] obtain cs where cs: "plan_chunks sz cb = Some cs" "tiles 0 sz 0 cs"
    "\<forall>c\<in>set cs. ch_want c \<le> cb" "\<forall>c\<in>set cs. ch_start c = ch_id c * cb" by blast
  show ?thesis
    using cs(1) by_size.bytes_of [OF assms cs(1)] by_size.ids_of [OF assms cs(1)]
      tiles_nonempty [OF cs(2)] cs(3,4) by blast
qed

lemma plan_chunks_splits_witness:
  "\<exists>cs. plan_chunks 10 4 = Some cs \<and> concat (map ch_bytes cs) = [0..9]"
proof -
  have "by_size_ok 10 4" by (simp add: by_size_ok_def)
  from plan_chunks_splits [OF this] show ?thesis by auto
qed

text \<open>
  C7: \<open>plan_chunks_n\<close>. For every non-negative size and every piece count of at least one, the planner
  returns without overflowing exactly \<open>min n_pieces size\<close> ranges, which list the bytes of the file in
  order, each exactly once; none is empty, and all but the last have \<open>size div n\<close> bytes.
\<close>

theorem plan_chunks_n_splits:
  assumes "by_count_ok sz n"
  shows "\<exists>cs. plan_chunks_n sz n = Some cs \<and> concat (map ch_bytes cs) = [0..sz - 1] \<and>
    int (length cs) = min n sz \<and> map ch_id cs = [0..min n sz - 1] \<and>
    (\<forall>c\<in>set cs. 1 \<le> ch_want c \<and> (ch_id c \<noteq> min n sz - 1 \<longrightarrow> ch_want c = sz div min n sz))"
proof -
  from plan_chunks_n_spec [OF assms] obtain cs where cs: "plan_chunks_n sz n = Some cs" "tiles 0 sz 0 cs"
    "int (length cs) = min n sz" "\<forall>c\<in>set cs. ch_id c \<noteq> min n sz - 1 \<longrightarrow> ch_want c = sz div min n sz" by blast
  show ?thesis
    using cs by_count.bytes_of [OF assms cs(1)] by_count.ids_of [OF assms cs(1)] tiles_nonempty [OF cs(2)]
    by (intro exI [of _ cs]) simp
qed

lemma plan_chunks_n_splits_witness:
  "\<exists>cs. plan_chunks_n 10 3 = Some cs \<and> length cs = 3 \<and> concat (map ch_bytes cs) = [0..9]"
proof -
  have "by_count_ok 10 3" by (simp add: by_count_ok_def in_i64_def in_i32_def)
  from plan_chunks_n_splits [OF this] show ?thesis by auto
qed

end
