(* ===== verification/Download.thy ===== *)
theory Download
  imports Plan Cpp_String
begin

text \<open>
  The downloader (\<open>src/proxchunk.cpp\<close>): one ranged transfer into a part file, the workers that share
  a queue of chunks, and the assembly of the output file.

  Bytes are of any type \<open>'a\<close>. A transfer is a function from the first and last byte asked for to the
  HTTP status and the bytes libcurl wrote; the file system is a map from part numbers to
  contents. Progress bars, timeouts and speeds are not modelled.
\<close>

section \<open>What to download\<close>

text \<open>\<open>struct RunOptions\<close>, without the two display switches.\<close>

record run_options =
  max_concurrent :: int
  chunk_mb :: int
  limit_bytes :: int
  direct :: bool

text \<open>The part of \<open>run_download\<close> that chooses the number of bytes, the plan, and the workers.\<close>

definition download_size :: "run_options \<Rightarrow> int \<Rightarrow> int" where
  "download_size opt info_size =
     (if limit_bytes opt > 0 \<and> limit_bytes opt < info_size then limit_bytes opt else info_size)"

definition download_plan :: "run_options \<Rightarrow> int \<Rightarrow> chunk list option" where
  "download_plan opt info_size =
     (if chunk_mb opt > 0
      then do {
        kib \<leftarrow> i64 (chunk_mb opt * 1024);
        chunk_size \<leftarrow> i64 (kib * 1024);
        plan_chunks (download_size opt info_size) chunk_size
      }
      else plan_chunks_n (download_size opt info_size) (max_concurrent opt))"

definition worker_count :: "run_options \<Rightarrow> chunk list \<Rightarrow> nat" where
  "worker_count opt chunks = nat (max 1 (min (max_concurrent opt) (int (length chunks))))"

section \<open>One transfer\<close>

type_synonym 'a fetch = "int \<Rightarrow> int \<Rightarrow> int \<times> 'a list"

text \<open>
  \<open>download_chunk\<close>: whether it succeeds, and the part file afterwards (\<open>None\<close>: there is none). The file
  may refuse to open. A part that is longer than the range counts as complete.
\<close>

definition part_size :: "'a list option \<Rightarrow> int" where
  "part_size part = (case part of None \<Rightarrow> 0 | Some d \<Rightarrow> int (length d))"

definition download_chunk ::
  "bool \<Rightarrow> 'a fetch \<Rightarrow> chunk \<Rightarrow> 'a list option \<Rightarrow> bool \<times> 'a list option" where
  "download_chunk opens fetch ch part =
     (let have = part_size part; want = ch_want ch
      in if have \<ge> want then (True, part)
         else if \<not> opens then (False, part)
         else (let (code, body) = fetch (ch_start ch + have) (ch_end ch);
                   content = (case part of None \<Rightarrow> body | Some d \<Rightarrow> d @ body);
                   on_disk = int (length content)
               in if on_disk \<ge> want then (True, Some content)
                  else if (code = 206 \<or> code = 200) \<and> on_disk > have then (False, Some content)
                  else if have \<le> 0 then (False, None)
                  else (False, Some (take (nat have) content))))"

section \<open>The workers\<close>

text \<open>\<open>struct Job\<close>, and what a worker connects through.\<close>

record job =
  job_ch :: chunk
  job_attempts :: int
  job_tried :: "string list"

datatype pipe = Direct | Via string

text \<open>
  Where a worker is in its loop: looking for a job, having seen one without taking it, with an open
  pipe, with a job, about to decrement \<open>inflight\<close>, or returned.
\<close>

datatype worker = W_idle | W_peeked | W_pipe pipe | W_job pipe job | W_leaving | W_done

text \<open>
  The state the workers share: the variables of \<open>run_download\<close> and the part files. The counters
  \<open>finished\<close> and \<open>failed\<close> are the lengths of the lists of the chunks they count.
\<close>

record 'a download =
  dl_jobs :: "job list"
  dl_workers :: "worker list"
  dl_inflight :: int
  dl_direct_busy :: bool
  dl_parts :: "int \<Rightarrow> 'a list option"
  dl_finished :: "chunk list"
  dl_failed :: "chunk list"
  dl_bytes :: int

definition start_download :: "run_options \<Rightarrow> chunk list \<Rightarrow> 'a download" where
  "start_download opt chunks =
     \<lparr>dl_jobs = map (\<lambda>c. \<lparr>job_ch = c, job_attempts = 0, job_tried = []\<rparr>) chunks,
      dl_workers = replicate (worker_count opt chunks) W_idle, dl_inflight = 0, dl_direct_busy = False,
      dl_parts = (\<lambda>i. None), dl_finished = [], dl_failed = [], dl_bytes = 0\<rparr>"

text \<open>\<open>drop_pipe\<close>, for the flag that the direct connection is taken.\<close>

definition drop_pipe :: "pipe \<Rightarrow> 'a download \<Rightarrow> 'a download" where
  "drop_pipe p s = (if p = Direct then s\<lparr>dl_direct_busy := False\<rparr> else s)"

text \<open>
  \<open>open_pipe\<close>, as far as it decides: the direct connection when the options ask for it or when no
  other worker has it, else a proxy from the daemon. Opening may fail.
\<close>

definition wants_direct :: "run_options \<Rightarrow> 'a download \<Rightarrow> bool" where
  "wants_direct opt s \<longleftrightarrow> direct opt \<or> \<not> dl_direct_busy s"

definition open_direct :: "run_options \<Rightarrow> bool \<Rightarrow> 'a download \<Rightarrow> worker \<times> 'a download" where
  "open_direct opt easy s =
     (if easy then (W_pipe Direct, if direct opt then s else s\<lparr>dl_direct_busy := True\<rparr>)
      else (W_idle, s\<lparr>dl_direct_busy := False\<rparr>))"

definition open_proxy :: "bool \<Rightarrow> bool \<Rightarrow> string option \<Rightarrow> 'a download \<Rightarrow> worker \<times> 'a download" where
  "open_proxy has_client easy acquired s =
     (case acquired of
        Some url \<Rightarrow> (if has_client \<and> easy then (W_pipe (Via url), s) else (W_idle, s))
      | None \<Rightarrow> (W_idle, s))"

text \<open>Taking the first job, and the bookkeeping after the transfer.\<close>

definition take_job :: "pipe \<Rightarrow> 'a download \<Rightarrow> worker \<times> 'a download" where
  "take_job p s =
     (case dl_jobs s of
        [] \<Rightarrow> (W_idle, drop_pipe p s)
      | j # js \<Rightarrow>
          (W_job p (case p of Direct \<Rightarrow> j | Via url \<Rightarrow> j\<lparr>job_tried := job_tried j @ [url]\<rparr>),
           s\<lparr>dl_jobs := js, dl_inflight := dl_inflight s + 1\<rparr>))"

definition k_chunk_tries :: int where
  "k_chunk_tries = 3"

definition k_max_proxies :: nat where
  "k_max_proxies = 32"

definition finish_job :: "bool \<Rightarrow> 'a fetch \<Rightarrow> pipe \<Rightarrow> job \<Rightarrow> 'a download \<Rightarrow> worker \<times> 'a download" where
  "finish_job opens fetch p j s =
     (let ch = job_ch j;
          (ok, part) = download_chunk opens fetch ch (dl_parts s (ch_id ch));
          s = s\<lparr>dl_parts := (dl_parts s)(ch_id ch := part)\<rparr>
      in if ok
         then (W_leaving, drop_pipe p (s\<lparr>dl_bytes := dl_bytes s + ch_want ch,
                                         dl_finished := dl_finished s @ [ch]\<rparr>))
         else (let s = drop_pipe p s;
                   j = j\<lparr>job_attempts := job_attempts j + 1\<rparr>;
                   j = (if job_attempts j \<ge> k_chunk_tries then j\<lparr>job_attempts := 0\<rparr> else j)
               in (W_leaving,
                   if length (job_tried j) \<ge> k_max_proxies
                   then s\<lparr>dl_failed := dl_failed s @ [ch]\<rparr>
                   else s\<lparr>dl_jobs := dl_jobs s @ [j]\<rparr>)))"

text \<open>
  The workers run at the same time. Each step of one of them is one critical section or one
  transfer; \<open>net\<close> says which transfers can happen.
\<close>

inductive worker_step :: "run_options \<Rightarrow> bool \<Rightarrow> ('a fetch \<Rightarrow> bool) \<Rightarrow> 'a download \<Rightarrow> 'a download \<Rightarrow> bool"
  for opt has_client net where
  w_exit:
    "dl_workers s = pre @ W_idle # post \<Longrightarrow> dl_jobs s = [] \<Longrightarrow> dl_inflight s = 0 \<Longrightarrow>
     worker_step opt has_client net s (s\<lparr>dl_workers := pre @ W_done # post\<rparr>)"
| w_peek:
    "dl_workers s = pre @ W_idle # post \<Longrightarrow> dl_jobs s \<noteq> [] \<Longrightarrow>
     worker_step opt has_client net s (s\<lparr>dl_workers := pre @ W_peeked # post\<rparr>)"
| w_direct:
    "dl_workers s = pre @ W_peeked # post \<Longrightarrow> wants_direct opt s \<Longrightarrow> open_direct opt easy s = (w, s') \<Longrightarrow>
     worker_step opt has_client net s (s'\<lparr>dl_workers := pre @ w # post\<rparr>)"
| w_proxy:
    "dl_workers s = pre @ W_peeked # post \<Longrightarrow> \<not> wants_direct opt s \<Longrightarrow>
     open_proxy has_client easy acquired s = (w, s') \<Longrightarrow>
     worker_step opt has_client net s (s'\<lparr>dl_workers := pre @ w # post\<rparr>)"
| w_take:
    "dl_workers s = pre @ W_pipe p # post \<Longrightarrow> take_job p s = (w, s') \<Longrightarrow>
     worker_step opt has_client net s (s'\<lparr>dl_workers := pre @ w # post\<rparr>)"
| w_transfer:
    "dl_workers s = pre @ W_job p j # post \<Longrightarrow> net fetch \<Longrightarrow> finish_job opens fetch p j s = (w, s') \<Longrightarrow>
     worker_step opt has_client net s (s'\<lparr>dl_workers := pre @ w # post\<rparr>)"
| w_leave:
    "dl_workers s = pre @ W_leaving # post \<Longrightarrow>
     worker_step opt has_client net s (s\<lparr>dl_workers := pre @ W_idle # post, dl_inflight := dl_inflight s - 1\<rparr>)"

inductive dl_reach :: "run_options \<Rightarrow> bool \<Rightarrow> ('a fetch \<Rightarrow> bool) \<Rightarrow> chunk list \<Rightarrow> 'a download \<Rightarrow> bool"
  for opt has_client net chunks where
  dl_start: "dl_reach opt has_client net chunks (start_download opt chunks)"
| dl_step:
    "dl_reach opt has_client net chunks s \<Longrightarrow> worker_step opt has_client net s s' \<Longrightarrow>
     dl_reach opt has_client net chunks s'"

section \<open>Assembly\<close>

text \<open>
  The end of \<open>run_download\<close>: whether it reports success, and the output file (\<open>None\<close>: it was not
  written, or was removed). The main thread gets there once \<open>finished + failed\<close> has reached the number
  of chunks.
\<close>

fun collect_parts :: "(int \<Rightarrow> 'a list option) \<Rightarrow> int list \<Rightarrow> 'a list option" where
  "collect_parts parts [] = Some []"
| "collect_parts parts (i # is) =
     (case parts i of
        None \<Rightarrow> None
      | Some d \<Rightarrow> map_option (\<lambda>rest. d @ rest) (collect_parts parts is))"

definition assemble :: "bool \<Rightarrow> run_options \<Rightarrow> int \<Rightarrow> chunk list \<Rightarrow> 'a download \<Rightarrow> bool \<times> 'a list option" where
  "assemble opens opt info_size chunks s =
     (if length (dl_failed s) > 0 then (False, None)
      else if \<not> opens then (False, None)
      else (case collect_parts (dl_parts s) [0..int (length chunks) - 1] of
              None \<Rightarrow> (False, None)
            | Some out \<Rightarrow> (int (length out) = download_size opt info_size, Some out)))"

end
