(* ===== verification/Download_Laws.thy ===== *)
theory Download_Laws
  imports Download "HOL-Library.Multiset"
begin

text \<open>
  What holds while the workers run, in every interleaving: no chunk is lost or duplicated, the
  counters are right, the direct connection has one user, and, when servers keep to what a range
  request promises, every part file is a prefix of its range.
\<close>

section \<open>Counting\<close>

fun w_chunk :: "worker \<Rightarrow> chunk list" where
  "w_chunk (W_job p j) = [job_ch j]"
| "w_chunk w = []"

fun w_active :: "worker \<Rightarrow> bool" where
  "w_active (W_job p j) = True"
| "w_active W_leaving = True"
| "w_active w = False"

fun w_direct_pipe :: "worker \<Rightarrow> bool" where
  "w_direct_pipe (W_pipe Direct) = True"
| "w_direct_pipe (W_job Direct j) = True"
| "w_direct_pipe w = False"

fun w_tries_ok :: "worker \<Rightarrow> bool" where
  "w_tries_ok (W_job p j) \<longleftrightarrow> length (job_tried j) \<le> k_max_proxies"
| "w_tries_ok w \<longleftrightarrow> True"

definition working_chunks :: "worker list \<Rightarrow> chunk list" where
  "working_chunks ws = concat (map w_chunk ws)"

lemma working_chunks_simps [simp]:
  "working_chunks [] = []" "working_chunks (w # ws) = w_chunk w @ working_chunks ws"
  "working_chunks (ws @ vs) = working_chunks ws @ working_chunks vs"
  by (simp_all add: working_chunks_def)

definition conserved :: "chunk list \<Rightarrow> 'a download \<Rightarrow> bool" where
  "conserved chunks s \<longleftrightarrow>
     mset (map job_ch (dl_jobs s)) + mset (working_chunks (dl_workers s)) + mset (dl_finished s) +
       mset (dl_failed s) = mset chunks"

definition counted :: "'a download \<Rightarrow> bool" where
  "counted s \<longleftrightarrow> dl_inflight s = int (length (filter w_active (dl_workers s))) \<and>
     dl_bytes s = sum_list (map ch_want (dl_finished s))"

definition tries_ok :: "'a download \<Rightarrow> bool" where
  "tries_ok s \<longleftrightarrow> (\<forall>j\<in>set (dl_jobs s). length (job_tried j) < k_max_proxies) \<and>
     (\<forall>w\<in>set (dl_workers s). w_tries_ok w)"

definition done_ok :: "'a download \<Rightarrow> bool" where
  "done_ok s \<longleftrightarrow> (W_done \<in> set (dl_workers s) \<longrightarrow> dl_jobs s = [] \<and> dl_inflight s = 0)"

definition direct_ok :: "run_options \<Rightarrow> 'a download \<Rightarrow> bool" where
  "direct_ok opt s \<longleftrightarrow> direct opt \<or>
     length (filter w_direct_pipe (dl_workers s)) = (if dl_direct_busy s then 1 else 0)"

lemma drop_pipe_simps [simp]:
  "dl_jobs (drop_pipe p s) = dl_jobs s" "dl_workers (drop_pipe p s) = dl_workers s"
  "dl_inflight (drop_pipe p s) = dl_inflight s" "dl_parts (drop_pipe p s) = dl_parts s"
  "dl_finished (drop_pipe p s) = dl_finished s" "dl_failed (drop_pipe p s) = dl_failed s"
  "dl_bytes (drop_pipe p s) = dl_bytes s"
  "dl_direct_busy (drop_pipe p s) = (p \<noteq> Direct \<and> dl_direct_busy s)"
  by (auto simp: drop_pipe_def)

text \<open>The two ways a transfer ends.\<close>

lemma finish_job_cases:
  assumes "finish_job opens fetch p j s = (w, s')"
  obtains part where
    "download_chunk opens fetch (job_ch j) (dl_parts s (ch_id (job_ch j))) = (True, part)" "w = W_leaving"
    "s' = drop_pipe p (s\<lparr>dl_parts := (dl_parts s)(ch_id (job_ch j) := part),
        dl_bytes := dl_bytes s + ch_want (job_ch j), dl_finished := dl_finished s @ [job_ch j]\<rparr>)"
  | part where
    "download_chunk opens fetch (job_ch j) (dl_parts s (ch_id (job_ch j))) = (False, part)" "w = W_leaving"
    "length (job_tried j) \<ge> k_max_proxies"
    "s' = (drop_pipe p (s\<lparr>dl_parts := (dl_parts s)(ch_id (job_ch j) := part)\<rparr>))
        \<lparr>dl_failed := dl_failed s @ [job_ch j]\<rparr>"
  | part j' where
    "download_chunk opens fetch (job_ch j) (dl_parts s (ch_id (job_ch j))) = (False, part)" "w = W_leaving"
    "length (job_tried j) < k_max_proxies" "job_ch j' = job_ch j" "job_tried j' = job_tried j"
    "s' = (drop_pipe p (s\<lparr>dl_parts := (dl_parts s)(ch_id (job_ch j) := part)\<rparr>))
        \<lparr>dl_jobs := dl_jobs s @ [j']\<rparr>"
proof -
  obtain ok part where d: "download_chunk opens fetch (job_ch j) (dl_parts s (ch_id (job_ch j))) = (ok, part)"
    by fastforce
  define j1 where "j1 = j\<lparr>job_attempts := job_attempts j + 1\<rparr>"
  define j2 where "j2 = (if job_attempts j1 \<ge> k_chunk_tries then j1\<lparr>job_attempts := 0\<rparr> else j1)"
  have j2: "job_ch j2 = job_ch j" "job_tried j2 = job_tried j"
    by (simp_all add: j2_def j1_def)
  note f = assms [unfolded finish_job_def Let_def d prod.case, folded j1_def, folded j2_def]
  show ?thesis
  proof (cases ok)
    case True
    with d f that(1) show ?thesis by auto
  next
    case False
    with d f j2 that(2,3) [of part] show ?thesis by (cases "length (job_tried j) \<ge> k_max_proxies") auto
  qed
qed

lemma take_job_cases:
  assumes "take_job p s = (w, s')"
  obtains "dl_jobs s = []" "w = W_idle" "s' = drop_pipe p s"
  | j js j' where "dl_jobs s = j # js" "w = W_job p j'" "job_ch j' = job_ch j"
    "length (job_tried j') \<le> Suc (length (job_tried j))" "p = Direct \<longrightarrow> j' = j"
    "s' = s\<lparr>dl_jobs := js, dl_inflight := dl_inflight s + 1\<rparr>"
  using assms by (cases "dl_jobs s"; cases p) (auto simp: take_job_def)

lemma open_direct_cases:
  assumes "open_direct opt easy s = (w, s')"
  obtains "w = W_pipe Direct" "s' = (if direct opt then s else s\<lparr>dl_direct_busy := True\<rparr>)"
  | "w = W_idle" "s' = s\<lparr>dl_direct_busy := False\<rparr>"
  using assms by (auto simp: open_direct_def split: if_splits)

lemma open_proxy_cases:
  assumes "open_proxy has_client easy acquired s = (w, s')"
  obtains url where "w = W_pipe (Via url)" "s' = s" "has_client" | "w = W_idle" "s' = s"
  using assms by (auto simp: open_proxy_def split: if_splits option.splits)

lemma step_conserved: "worker_step opt hc net s s' \<Longrightarrow> conserved chunks s \<Longrightarrow> conserved chunks s'"
proof (induction rule: worker_step.induct)
  case (w_transfer s pre p j post fetch opens w s')
  from w_transfer(3) show ?case
    by (rule finish_job_cases) (use w_transfer(1,4) in \<open>auto simp: conserved_def\<close>)
next
  case (w_take s pre p post w s')
  from w_take(2) show ?case
    by (rule take_job_cases) (use w_take(1,3) in \<open>auto simp: conserved_def\<close>)
qed (auto simp: conserved_def elim!: open_direct_cases open_proxy_cases)

lemma step_counted: "worker_step opt hc net s s' \<Longrightarrow> counted s \<Longrightarrow> counted s'"
proof (induction rule: worker_step.induct)
  case (w_transfer s pre p j post fetch opens w s')
  from w_transfer(3) show ?case
    by (rule finish_job_cases) (use w_transfer(1,4) in \<open>auto simp: counted_def\<close>)
next
  case (w_take s pre p post w s')
  from w_take(2) show ?case
    by (rule take_job_cases) (use w_take(1,3) in \<open>auto simp: counted_def\<close>)
qed (auto simp: counted_def elim!: open_direct_cases open_proxy_cases)

lemma step_tries: "worker_step opt hc net s s' \<Longrightarrow> tries_ok s \<Longrightarrow> tries_ok s'"
proof (induction rule: worker_step.induct)
  case (w_transfer s pre p j post fetch opens w s')
  from w_transfer(3) show ?case
    by (rule finish_job_cases) (use w_transfer(1,4) in \<open>auto simp: tries_ok_def\<close>)
next
  case (w_take s pre p post w s')
  from w_take(2) show ?case
    by (rule take_job_cases) (use w_take(1,3) in \<open>auto simp: tries_ok_def\<close>)
qed (auto simp: tries_ok_def elim!: open_direct_cases open_proxy_cases split: if_splits)

lemma step_done: "worker_step opt hc net s s' \<Longrightarrow> counted s \<Longrightarrow> done_ok s \<Longrightarrow> done_ok s'"
proof (induction rule: worker_step.induct)
  case (w_transfer s pre p j post fetch opens w s')
  then have "dl_inflight s \<noteq> 0" by (simp add: counted_def)
  then have "W_done \<notin> set (dl_workers s)" using w_transfer(5) by (auto simp: done_ok_def)
  with w_transfer(3) show ?case
    by (elim finish_job_cases) (use w_transfer(1) in \<open>auto simp: done_ok_def\<close>)
next
  case (w_take s pre p post w s')
  from w_take(2) show ?case
    by (rule take_job_cases) (use w_take(1,3,4) in \<open>auto simp: done_ok_def\<close>)
next
  case (w_leave s pre post)
  then have "dl_inflight s \<noteq> 0" by (simp add: counted_def)
  then show ?case using w_leave by (auto simp: done_ok_def)
qed (auto simp: done_ok_def elim!: open_direct_cases open_proxy_cases)

lemma step_direct: "worker_step opt hc net s s' \<Longrightarrow> direct_ok opt s \<Longrightarrow> direct_ok opt s'"
proof (induction rule: worker_step.induct)
  case (w_transfer s pre p j post fetch opens w s')
  from w_transfer(3) show ?case
    by (rule finish_job_cases)
      (use w_transfer(1,4) in \<open>cases p; auto simp: direct_ok_def split: if_splits\<close>)+
next
  case (w_take s pre p post w s')
  from w_take(2) show ?case
    by (rule take_job_cases) (use w_take(1,3) in \<open>cases p; auto simp: direct_ok_def split: if_splits\<close>)+
next
  case (w_direct s pre post easy w s')
  from w_direct(3) show ?case
    by (rule open_direct_cases) (use w_direct(1,2,4) in \<open>auto simp: direct_ok_def wants_direct_def split: if_splits\<close>)
qed (auto simp: direct_ok_def elim!: open_proxy_cases split: if_splits)

section \<open>Reachable states\<close>

lemma start_conserved: "conserved chunks (start_download opt chunks)"
proof -
  have "working_chunks (replicate n W_idle) = []" for n by (induction n) auto
  then show ?thesis by (simp add: conserved_def start_download_def comp_def)
qed

lemma reach_conserved: "dl_reach opt hc net chunks s \<Longrightarrow> conserved chunks s"
  by (induction rule: dl_reach.induct) (auto intro: start_conserved step_conserved)

lemma reach_counted: "dl_reach opt hc net chunks s \<Longrightarrow> counted s"
proof (induction rule: dl_reach.induct)
  case dl_start
  have "filter w_active (replicate n W_idle) = []" for n by (induction n) auto
  then show ?case by (simp add: counted_def start_download_def)
qed (rule step_counted)

lemma reach_tries: "dl_reach opt hc net chunks s \<Longrightarrow> tries_ok s"
  by (induction rule: dl_reach.induct)
    (auto simp: tries_ok_def start_download_def k_max_proxies_def dest: step_tries [unfolded tries_ok_def k_max_proxies_def])

lemma reach_done: "dl_reach opt hc net chunks s \<Longrightarrow> done_ok s"
proof (induction rule: dl_reach.induct)
  case dl_start
  then show ?case by (simp add: done_ok_def start_download_def)
next
  case (dl_step s s')
  then show ?case using reach_counted step_done by blast
qed

lemma reach_direct: "dl_reach opt hc net chunks s \<Longrightarrow> direct_ok opt s"
proof (induction rule: dl_reach.induct)
  case dl_start
  have "filter w_direct_pipe (replicate n W_idle) = []" for n by (induction n) auto
  then show ?case by (simp add: direct_ok_def start_download_def)
qed (rule step_direct)

lemma conserved_distinct:
  assumes "conserved chunks s" "distinct (map ch_id chunks)"
  shows "distinct (map ch_id (map job_ch (dl_jobs s) @ working_chunks (dl_workers s) @ dl_finished s @ dl_failed s))"
proof -
  let ?all = "map job_ch (dl_jobs s) @ working_chunks (dl_workers s) @ dl_finished s @ dl_failed s"
  have "mset ?all = mset chunks" using assms(1) by (simp add: conserved_def add.assoc)
  then have "mset (map ch_id ?all) = mset (map ch_id chunks)" by (metis mset_map)
  then show ?thesis using assms(2) mset_eq_imp_distinct_iff by blast
qed

lemma conserved_sets:
  assumes "conserved chunks s"
  shows "set chunks = job_ch ` set (dl_jobs s) \<union> set (working_chunks (dl_workers s)) \<union> set (dl_finished s) \<union>
    set (dl_failed s)"
proof -
  have "set_mset (mset chunks) = set_mset (mset (map job_ch (dl_jobs s)) + mset (working_chunks (dl_workers s)) +
      mset (dl_finished s) + mset (dl_failed s))"
    using assms by (simp only: conserved_def)
  then show ?thesis by simp
qed

lemma conserved_length:
  assumes "conserved chunks s"
  shows "length chunks = length (dl_jobs s) + length (working_chunks (dl_workers s)) + length (dl_finished s) +
    length (dl_failed s)"
proof -
  have "size (mset chunks) = size (mset (map job_ch (dl_jobs s)) + mset (working_chunks (dl_workers s)) +
      mset (dl_finished s) + mset (dl_failed s))"
    using assms by (simp only: conserved_def)
  then show ?thesis by simp
qed

lemma working_active: "length (working_chunks ws) \<le> length (filter w_active ws)"
proof (induction ws)
  case (Cons w ws)
  then show ?case by (cases w) auto
qed simp

section \<open>Part files\<close>

text \<open>
  What a server promises for a range of a file: a 206 carries a prefix of the range (the transfer may
  break off), a 200 carries nothing that is written, and any other answer has a body shorter than
  the range.
\<close>

definition honest :: "'a list \<Rightarrow> 'a fetch \<Rightarrow> bool" where
  "honest content fetch \<longleftrightarrow>
     (\<forall>a b. 0 \<le> a \<longrightarrow> a \<le> b \<longrightarrow> b < int (length content) \<longrightarrow>
        (case fetch a b of (code, body) \<Rightarrow>
           if code = 206 then \<exists>rest. map (\<lambda>i. content ! nat i) [a..b] = body @ rest
           else int (length body) \<le> b - a \<and> (code = 200 \<longrightarrow> body = [])))"

definition in_file :: "'a list \<Rightarrow> chunk \<Rightarrow> bool" where
  "in_file content c \<longleftrightarrow> 0 \<le> ch_start c \<and> ch_start c \<le> ch_end c \<and> ch_end c < int (length content)"

definition part_ok :: "'a list \<Rightarrow> chunk \<Rightarrow> 'a list option \<Rightarrow> bool" where
  "part_ok content c part \<longleftrightarrow> (case part of None \<Rightarrow> True | Some d \<Rightarrow> \<exists>rest. ch_slice content c = d @ rest)"

lemma part_ok_split:
  assumes "in_file content c" "part_ok content c part" "part_size part < ch_want c"
  shows "ch_slice content c = (case part of None \<Rightarrow> [] | Some d \<Rightarrow> d) @
      map (\<lambda>i. content ! nat i) [ch_start c + part_size part..ch_end c]"
proof -
  let ?f = "\<lambda>i. content ! nat i" and ?d = "case part of None \<Rightarrow> [] | Some d \<Rightarrow> d"
  have slice: "ch_slice content c = map ?f [ch_start c..ch_end c]"
    using assms(1) by (simp add: in_file_def ch_slice_nth ch_bytes_def)
  have len: "int (length ?d) = part_size part" by (simp add: part_size_def split: option.splits)
  obtain r where r: "ch_slice content c = ?d @ r"
    using assms(2) by (auto simp: part_ok_def split: option.splits)
  have "[ch_start c..ch_end c] =
      [ch_start c..ch_start c + part_size part - 1] @ [ch_start c + part_size part..ch_end c]"
    using upto_append [of "ch_start c" "ch_start c + part_size part - 1" "ch_end c"] assms(3) len
    by (simp add: ch_want_def)
  then have "?d @ r = map ?f [ch_start c..ch_start c + part_size part - 1] @
      map ?f [ch_start c + part_size part..ch_end c]"
    using slice r by simp
  moreover have "length ?d = length (map ?f [ch_start c..ch_start c + part_size part - 1])"
    using len by simp
  ultimately have "r = map ?f [ch_start c + part_size part..ch_end c]"
    using append_eq_append_conv by blast
  with r show ?thesis by simp
qed

lemma download_chunk_honest:
  assumes "honest content fetch" "in_file content c" "part_ok content c part"
    "download_chunk opens fetch c part = (ok, part')"
  shows "part_ok content c part' \<and> (ok \<longrightarrow> part' = Some (ch_slice content c))"
proof -
  have want: "int (length (ch_slice content c)) = ch_want c" "1 \<le> ch_want c"
    using assms(2) by (simp_all add: in_file_def length_ch_slice ch_want_def)
  let ?d = "case part of None \<Rightarrow> [] | Some d \<Rightarrow> d"
  have len: "int (length ?d) = part_size part" by (simp add: part_size_def split: option.splits)
  show ?thesis
  proof (cases "part_size part \<ge> ch_want c")
    case True
    then obtain d where d: "part = Some d" using want(2) by (cases part) (auto simp: part_size_def)
    with assms(3) obtain r where "ch_slice content c = d @ r" by (auto simp: part_ok_def)
    moreover from this True want(1) d have "int (length r) = 0"
      by (simp only: part_size_def option.case length_append of_nat_add)
    then have "r = []" by simp
    ultimately show ?thesis using assms(3,4) True d by (simp add: download_chunk_def Let_def)
  next
    case False
    show ?thesis
    proof (cases opens)
      case True
      obtain code body where f: "fetch (ch_start c + part_size part) (ch_end c) = (code, body)" by fastforce
      have range: "0 \<le> ch_start c + part_size part" "ch_start c + part_size part \<le> ch_end c"
        "ch_end c < int (length content)"
        using assms(2) False len by (auto simp: in_file_def ch_want_def)
      then have hon: "if code = 206
          then \<exists>rest. map (\<lambda>i. content ! nat i) [ch_start c + part_size part..ch_end c] = body @ rest
          else int (length body) \<le> ch_end c - (ch_start c + part_size part) \<and> (code = 200 \<longrightarrow> body = [])"
        using assms(1) f unfolding honest_def by fastforce
      have split: "ch_slice content c = ?d @ map (\<lambda>i. content ! nat i) [ch_start c + part_size part..ch_end c]"
        using part_ok_split [OF assms(2,3)] False by simp
      have eq: "download_chunk opens fetch c part =
          (if int (length (?d @ body)) \<ge> ch_want c then (True, Some (?d @ body))
           else if (code = 206 \<or> code = 200) \<and> int (length (?d @ body)) > part_size part then (False, Some (?d @ body))
           else if part_size part \<le> 0 then (False, None) else (False, Some ?d))"
        using False True f len by (auto simp: download_chunk_def Let_def part_size_def split: option.splits)
      show ?thesis
      proof (cases "code = 206")
        case True
        define D where "D = ?d @ body"
        from True hon split obtain rest where r: "ch_slice content c = D @ rest" by (auto simp: D_def)
        show ?thesis
        proof (cases "int (length D) \<ge> ch_want c")
          case True
          with r want(1) have "int (length rest) = 0"
            by (simp only: length_append of_nat_add)
          moreover have "part' = Some D" using assms(4) eq True by (simp add: D_def)
          ultimately show ?thesis using r by (simp add: part_ok_def)
        next
          case False
          then have "\<not> ok" "part' = Some D \<or> part' = None \<or> part' = Some ?d"
            using assms(4) eq by (auto simp: D_def split: if_splits)
          then show ?thesis using r by (auto simp: part_ok_def D_def)
        qed
      next
        case False
        with hon range have "int (length (?d @ body)) < ch_want c" "code = 200 \<longrightarrow> body = []"
          using len by (auto simp: ch_want_def)
        with assms(4) eq split False len show ?thesis
          by (auto simp: part_ok_def split: if_splits)
      qed
    next
      case False2: False
      then show ?thesis using assms(3,4) False by (simp add: download_chunk_def Let_def)
    qed
  qed
qed

definition parts_inv :: "'a list \<Rightarrow> chunk list \<Rightarrow> 'a download \<Rightarrow> bool" where
  "parts_inv content chunks s \<longleftrightarrow>
     (\<forall>c\<in>set chunks. part_ok content c (dl_parts s (ch_id c))) \<and>
     (\<forall>c\<in>set (dl_finished s). dl_parts s (ch_id c) = Some (ch_slice content c))"

lemma finish_job_parts:
  assumes "finish_job opens fetch p j s = (w, s')"
    "download_chunk opens fetch (job_ch j) (dl_parts s (ch_id (job_ch j))) = (ok, part)"
  shows "dl_parts s' = (dl_parts s)(ch_id (job_ch j) := part)"
    "dl_finished s' = (if ok then dl_finished s @ [job_ch j] else dl_finished s)"
  using assms by (auto elim!: finish_job_cases)

lemma step_parts:
  assumes "worker_step opt hc (honest content) s s'" "parts_inv content chunks s" "conserved chunks s"
    "distinct (map ch_id chunks)" "\<forall>c\<in>set chunks. in_file content c"
  shows "parts_inv content chunks s'"
  using assms(1-3)
proof (induction rule: worker_step.induct)
  case (w_transfer s pre p j post fetch opens w s')
  let ?c = "job_ch j"
  obtain ok part where d: "download_chunk opens fetch ?c (dl_parts s (ch_id ?c)) = (ok, part)" by fastforce
  note s' = finish_job_parts [OF w_transfer(3) d]
  have mem: "?c \<in> set chunks" "set (dl_finished s) \<subseteq> set chunks"
    using conserved_sets [OF w_transfer(5)] w_transfer(1) by auto
  have "ch_id ?c \<notin> ch_id ` set (dl_finished s)"
    using conserved_distinct [OF w_transfer(5) assms(4)] w_transfer(1) by auto
  then have "\<forall>c\<in>set (dl_finished s). ch_id c \<noteq> ch_id ?c" by (metis imageI)
  moreover have "part_ok content ?c part \<and> (ok \<longrightarrow> part = Some (ch_slice content ?c))"
    using w_transfer(4) mem(1) assms(5) by (intro download_chunk_honest [OF w_transfer(2) _ _ d]) (auto simp: parts_inv_def)
  moreover have "ch_id c = ch_id ?c \<Longrightarrow> c \<in> set chunks \<Longrightarrow> c = ?c" for c
    using assms(4) mem(1) by (auto simp: distinct_map dest: inj_onD)
  ultimately show ?case
    using w_transfer(4) s' unfolding parts_inv_def by (auto simp: fun_upd_def)
next
  case (w_take s pre p post w s')
  from w_take(2) show ?case
    by (rule take_job_cases) (use w_take(3) in \<open>auto simp: parts_inv_def\<close>)
qed (auto simp: parts_inv_def elim!: open_direct_cases open_proxy_cases split: if_splits)

lemma reach_parts:
  assumes "dl_reach opt hc (honest content) chunks s" "distinct (map ch_id chunks)"
    "\<forall>c\<in>set chunks. in_file content c"
  shows "parts_inv content chunks s"
  using assms(1)
proof (induction rule: dl_reach.induct)
  case dl_start
  then show ?case by (simp add: parts_inv_def part_ok_def start_download_def)
next
  case (dl_step s s')
  then show ?case using step_parts [OF _ _ _ assms(2,3)] reach_conserved by blast
qed

section \<open>The assembled file\<close>

lemma collect_parts_slices:
  "\<forall>c\<in>set cs. parts (ch_id c) = Some (f c) \<Longrightarrow> collect_parts parts (map ch_id cs) = Some (concat (map f cs))"
  by (induction cs) auto

text \<open>What the options must be for the plan to be made without overflow.\<close>

definition plan_accepts :: "run_options \<Rightarrow> int \<Rightarrow> bool" where
  "plan_accepts opt info_size \<longleftrightarrow>
     (if chunk_mb opt > 0
      then in_i64 (chunk_mb opt * 1024 * 1024) \<and> by_size_ok (download_size opt info_size) (chunk_mb opt * 1024 * 1024)
      else by_count_ok (download_size opt info_size) (max_concurrent opt))"

lemma download_plan_tiles:
  assumes "plan_accepts opt info_size"
  shows "\<exists>chunks. download_plan opt info_size = Some chunks \<and> tiles 0 (download_size opt info_size) 0 chunks"
proof (cases "chunk_mb opt > 0")
  case True
  then have ok: "in_i64 (chunk_mb opt * 1024 * 1024)"
    "by_size_ok (download_size opt info_size) (chunk_mb opt * 1024 * 1024)"
    using assms by (simp_all add: plan_accepts_def)
  from ok(1) True have "in_i64 (chunk_mb opt * 1024)" by (auto simp: in_i64_def)
  with ok True have "download_plan opt info_size = plan_chunks (download_size opt info_size) (chunk_mb opt * 1024 * 1024)"
    by (simp add: download_plan_def)
  with by_size.plan_tiles [OF ok(2)] show ?thesis by simp
next
  case False
  then show ?thesis using by_count.plan_tiles assms by (simp add: plan_accepts_def download_plan_def)
qed

lemma download_size_bounds:
  "0 \<le> info_size \<Longrightarrow> 0 \<le> download_size opt info_size \<and> download_size opt info_size \<le> info_size"
  by (auto simp: download_size_def)

lemma tiles_take:
  assumes "tiles 0 n 0 cs" "0 \<le> n" "n \<le> int (length content)"
  shows "concat (map (ch_slice content) cs) = take (nat n) content"
proof -
  let ?t = "take (nat n) content"
  have len: "int (length ?t) = n" using assms(2,3) by simp
  have "ch_slice content c = ch_slice ?t c" if "c \<in> set cs" for c
  proof -
    from tiles_bounds [OF assms(1) that] tiles_start_le [OF assms(1) that] have
      b: "0 \<le> ch_start c" "ch_start c \<le> ch_end c" "ch_end c < n" by auto
    then show ?thesis
      using assms(3) len by (auto simp: ch_slice_nth ch_bytes_def nat_less_iff)
  qed
  then have "map (ch_slice content) cs = map (ch_slice ?t) cs" by simp
  moreover have "concat (map (ch_slice ?t) cs) = ?t" by (rule tiles_slices) (simp only: len assms(1))
  ultimately show ?thesis by metis
qed

lemma tiles_in_file:
  "tiles 0 n 0 cs \<Longrightarrow> n \<le> int (length content) \<Longrightarrow> \<forall>c\<in>set cs. in_file content c"
  using tiles_bounds tiles_start_le by (fastforce simp: in_file_def)

lemma tiles_distinct: "tiles a n k cs \<Longrightarrow> distinct (map ch_id cs)"
  using tiles_ids by (metis distinct_upto)

lemma finished_download:
  assumes "dl_reach opt hc (honest content) chunks s" "tiles 0 n 0 chunks" "n \<le> int (length content)" "0 \<le> n"
    "length chunks \<le> length (dl_finished s)"
  shows "collect_parts (dl_parts s) [0..int (length chunks) - 1] = Some (take (nat n) content)"
proof -
  note d = tiles_distinct [OF assms(2)]
  note inv = reach_parts [OF assms(1) d tiles_in_file [OF assms(2,3)]]
  note c = reach_conserved [OF assms(1)]
  have none: "dl_jobs s = []" "working_chunks (dl_workers s) = []" "dl_failed s = []"
    using conserved_length [OF c] assms(5) by auto
  then have "set (dl_finished s) = set chunks" using conserved_sets [OF c] by auto
  with inv have "\<forall>c\<in>set chunks. dl_parts s (ch_id c) = Some (ch_slice content c)" by (simp add: parts_inv_def)
  from collect_parts_slices [OF this] tiles_take [OF assms(2,4,3)] tiles_ids [OF assms(2)]
  show ?thesis by simp
qed

section \<open>The end of a download\<close>

lemma workers_done:
  assumes "dl_reach opt has_client net chunks s" "W_done \<in> set (dl_workers s)"
  shows "dl_jobs s = [] \<and> working_chunks (dl_workers s) = [] \<and>
    length (dl_finished s) + length (dl_failed s) = length chunks"
proof -
  have d: "dl_jobs s = []" "dl_inflight s = 0"
    using reach_done [OF assms(1)] assms(2) by (simp_all add: done_ok_def)
  then have "length (filter w_active (dl_workers s)) = 0"
    using reach_counted [OF assms(1)] by (simp add: counted_def)
  with working_active [of "dl_workers s"] have w: "working_chunks (dl_workers s) = []" by simp
  then show ?thesis using conserved_length [OF reach_conserved [OF assms(1)]] d by simp
qed

lemma reach_workers:
  assumes "dl_reach opt has_client net chunks s"
  shows "dl_workers s \<noteq> []"
proof -
  have "length (dl_workers s) = worker_count opt chunks"
    using assms
  proof (induction rule: dl_reach.induct)
    case dl_start
    then show ?case by (simp add: start_download_def)
  next
    case (dl_step s s')
    from dl_step(2,3) show ?case by (induction rule: worker_step.induct) auto
  qed
  then show ?thesis by (auto simp: worker_count_def)
qed

lemma tiles_want_range: "tiles a sz k cs \<Longrightarrow> 0 \<le> a \<Longrightarrow> \<forall>c\<in>set cs. 1 \<le> ch_want c \<and> ch_want c \<le> sz"
  by (induction cs arbitrary: a k) (fastforce simp: ch_want_def)+

lemma plan_chunk_range:
  assumes "plan_accepts opt n" "n < 2 ^ 63" "download_plan opt n = Some chunks"
  shows "\<forall>c\<in>set chunks. 1 \<le> ch_want c \<and> ch_want c < 2 ^ 63"
proof -
  have "tiles 0 (download_size opt n) 0 chunks" using download_plan_tiles [OF assms(1)] assms(3) by auto
  from tiles_want_range [OF this] assms(2) show ?thesis by (fastforce simp: download_size_def split: if_splits)
qed

text \<open>Assembling the parts of a download whose chunks are all finished or failed.\<close>

lemma assemble_correct:
  assumes "plan_accepts opt (int (length content))"
    and "download_plan opt (int (length content)) = Some chunks"
    and "dl_reach opt has_client (honest content) chunks s"
    and "length chunks \<le> length (dl_finished s) + length (dl_failed s)"
  shows "assemble opens opt (int (length content)) chunks s =
    (if opens \<and> dl_failed s = []
     then (True, Some (take (nat (download_size opt (int (length content)))) content))
     else (False, None))"
proof (cases "opens \<and> dl_failed s = []")
  case True
  let ?n = "download_size opt (int (length content))"
  from download_plan_tiles [OF assms(1)] assms(2) have t: "tiles 0 ?n 0 chunks" by auto
  have n: "0 \<le> ?n" "?n \<le> int (length content)" using download_size_bounds by auto
  have "length chunks \<le> length (dl_finished s)" using assms(4) True by simp
  from finished_download [OF assms(3) t n(2,1) this] True n show ?thesis
    by (simp add: assemble_def)
qed (auto simp: assemble_def)

end
