(* ===== verification/Download_Props.thy ===== *)
theory Download_Props
  imports Download_Laws
begin

text \<open>
  The properties of the downloader over all interleavings of its workers, from the accounting of
  chunks to the content of the output file.
\<close>

section \<open>Running one worker\<close>

text \<open>
  A whole pass of the first worker over the direct connection, for the witnesses: it sees a job,
  opens the connection, takes the job, runs the transfer and leaves.
\<close>

definition direct_pass :: "run_options \<Rightarrow> 'a fetch \<Rightarrow> worker list \<Rightarrow> 'a download \<Rightarrow> 'a download" where
  "direct_pass opt fetch post s =
     (let s1 = (snd (open_direct opt True s))\<lparr>dl_workers := W_pipe Direct # post\<rparr>;
          (w2, s2) = take_job Direct s1
      in case w2 of
           W_job p j \<Rightarrow>
             (let s3 = (snd (finish_job True fetch p j (s2\<lparr>dl_workers := w2 # post\<rparr>)))\<lparr>dl_workers := W_leaving # post\<rparr>
              in s3\<lparr>dl_workers := W_idle # post, dl_inflight := dl_inflight s3 - 1\<rparr>)
         | _ \<Rightarrow> s)"

lemma direct_pass_reach:
  assumes "dl_reach opt hc net chunks s" "dl_workers s = W_idle # post" "dl_jobs s \<noteq> []" "\<not> dl_direct_busy s"
    "net fetch"
  shows "dl_reach opt hc net chunks (direct_pass opt fetch post s)"
proof -
  define s0 where "s0 = s\<lparr>dl_workers := W_peeked # post\<rparr>"
  have r0: "dl_reach opt hc net chunks s0"
    unfolding s0_def using w_peek [of s "[]" post opt hc net] assms(2,3) by (intro dl_step [OF assms(1)]) simp
  define s1 where "s1 = (snd (open_direct opt True s))\<lparr>dl_workers := W_pipe Direct # post\<rparr>"
  have "worker_step opt hc net s0 s1"
    using w_direct [of s0 "[]" post opt True "W_pipe Direct" "snd (open_direct opt True s0)" hc net] assms(4)
    by (cases "direct opt") (simp_all add: s0_def s1_def wants_direct_def open_direct_def)
  with r0 have r1: "dl_reach opt hc net chunks s1" by (rule dl_step)
  obtain j js where j: "dl_jobs s = j # js" using assms(3) by (cases "dl_jobs s") auto
  then have t: "take_job Direct s1 = (W_job Direct j, s1\<lparr>dl_jobs := js, dl_inflight := dl_inflight s1 + 1\<rparr>)"
    by (simp add: take_job_def s1_def open_direct_def)
  define s2 where "s2 = s1\<lparr>dl_jobs := js, dl_inflight := dl_inflight s1 + 1, dl_workers := W_job Direct j # post\<rparr>"
  have "worker_step opt hc net s1 s2"
    using w_take [of s1 "[]" Direct post "W_job Direct j" _ opt hc net] t by (simp add: s1_def s2_def)
  with r1 have r2: "dl_reach opt hc net chunks s2" by (rule dl_step)
  obtain w s3 where f: "finish_job True fetch Direct j s2 = (w, s3)" by fastforce
  then have w: "w = W_leaving" by (auto elim: finish_job_cases)
  have "worker_step opt hc net s2 (s3\<lparr>dl_workers := W_leaving # post\<rparr>)"
    using w_transfer [of s2 "[]" Direct j post net fetch True w s3 opt hc] f w assms(5) by (simp add: s2_def)
  with r2 have r3: "dl_reach opt hc net chunks (s3\<lparr>dl_workers := W_leaving # post\<rparr>)" by (rule dl_step)
  have "dl_reach opt hc net chunks (s3\<lparr>dl_workers := W_idle # post, dl_inflight := dl_inflight s3 - 1\<rparr>)"
    using dl_step [OF r3] w_leave [of "s3\<lparr>dl_workers := W_leaving # post\<rparr>" "[]" post opt hc net] by simp
  moreover have "direct_pass opt fetch post s = s3\<lparr>dl_workers := W_idle # post, dl_inflight := dl_inflight s3 - 1\<rparr>"
    unfolding direct_pass_def s1_def [symmetric] Let_def t prod.case worker.case
    using f by (simp add: s2_def)
  ultimately show ?thesis by simp
qed

definition demo_content :: "int list" where
  "demo_content = [10, 11, 12, 13, 14]"

definition demo_options :: run_options where
  "demo_options = \<lparr>max_concurrent = 2, chunk_mb = 0, limit_bytes = 3, direct = False\<rparr>"

definition demo_chunks :: "chunk list" where
  "demo_chunks = [\<lparr>ch_start = 0, ch_end = 0, ch_id = 0\<rparr>, \<lparr>ch_start = 1, ch_end = 2, ch_id = 1\<rparr>]"

text \<open>A server that sends all of a range, and one that breaks off after a byte.\<close>

definition whole_fetch :: "int fetch" where
  "whole_fetch a b = (206, map (\<lambda>i. demo_content ! nat i) [a..b])"

definition broken_fetch :: "int fetch" where
  "broken_fetch a b = (206, [demo_content ! nat a])"

lemma demo_honest: "honest demo_content whole_fetch" "honest demo_content broken_fetch"
  unfolding honest_def whole_fetch_def broken_fetch_def by (auto simp: upto_rec1)

definition demo_run :: "int download" where
  "demo_run =
     direct_pass demo_options whole_fetch [W_idle]
       (direct_pass demo_options broken_fetch [W_idle]
         (direct_pass demo_options broken_fetch [W_idle] (start_download demo_options demo_chunks)))"

lemmas demo_pass_reach =
  direct_pass_reach [of demo_options False "honest demo_content" demo_chunks]

lemma demo_run_reach: "dl_reach demo_options False (honest demo_content) demo_chunks demo_run"
proof -
  define s0 where "s0 = (start_download demo_options demo_chunks :: int download)"
  define s1 where "s1 = direct_pass demo_options broken_fetch [W_idle] s0"
  define s2 where "s2 = direct_pass demo_options broken_fetch [W_idle] s1"
  have w: "dl_workers s0 = [W_idle, W_idle]" "dl_jobs s0 \<noteq> []" "\<not> dl_direct_busy s0"
    "dl_workers s1 = [W_idle, W_idle]" "dl_jobs s1 \<noteq> []" "\<not> dl_direct_busy s1"
    "dl_workers s2 = [W_idle, W_idle]" "dl_jobs s2 \<noteq> []" "\<not> dl_direct_busy s2"
    unfolding s2_def s1_def s0_def by code_simp+
  have "dl_reach demo_options False (honest demo_content) demo_chunks s1"
    unfolding s1_def by (rule demo_pass_reach [OF _ w(1-3) demo_honest(2)]) (simp add: s0_def dl_start)
  then have "dl_reach demo_options False (honest demo_content) demo_chunks s2"
    unfolding s2_def by (rule demo_pass_reach [OF _ w(4-6) demo_honest(2)])
  then show ?thesis
    unfolding demo_run_def s0_def [symmetric] s1_def [symmetric] s2_def [symmetric]
    by (rule demo_pass_reach [OF _ w(7-9) demo_honest(1)])
qed

lemma demo_run_state:
  "length (dl_finished demo_run) = 2" "dl_failed demo_run = []" "length (dl_workers demo_run) = 2"
  "length demo_chunks = 2" "download_plan demo_options (int (length demo_content)) = Some demo_chunks"
  by code_simp+

section \<open>The output\<close>



text \<open>
  Content is not checked. The part file alone decides: the bytes of a 200 that breaks off are
  kept and completed by the next proxy, and the body of an error that is as long as the range
  counts as the range. Both parts have the right length, so the check of the size of the assembled
  file cannot notice.
\<close>

lemma download_chunk_keeps_wrong_bytes:
  "let c = \<lparr>ch_start = 0, ch_end = 2, ch_id = 0\<rparr>;
       portal = (\<lambda>a b. (200, [99 :: int]));
       missing = (\<lambda>a b. (404, [52 :: int, 48, 52]))
   in download_chunk True whole_fetch c (snd (download_chunk True portal c None)) = (True, Some [99, 11, 12]) \<and>
      download_chunk True missing c None = (True, Some [52, 48, 52]) \<and>
      ch_slice demo_content c = [10, 11, 12]"
  by code_simp

text \<open>
  C36: Rollback. A transfer that ends with a status other than 200 and 206 and does not complete the
  range leaves the bytes of the part as they were before it.
\<close>

theorem download_chunk_rolls_back:
  assumes "fetch (ch_start c + part_size part) (ch_end c) = (code, body)" "code \<noteq> 200" "code \<noteq> 206"
    and "part_size part + int (length body) < ch_want c"
  shows "download_chunk opens fetch c part = (False, if opens \<and> part_size part = 0 then None else part)"
  using assms by (cases part) (auto simp: download_chunk_def part_size_def Let_def)

lemma download_chunk_rolls_back_witness:
  "download_chunk True (\<lambda>a b. (503, [1, 2])) \<lparr>ch_start = 0, ch_end = 9, ch_id = 0\<rparr> (Some [10, 11 :: int]) =
     (False, Some [10, 11])"
  using download_chunk_rolls_back [of "\<lambda>a b. (503, [1, 2])" "\<lparr>ch_start = 0, ch_end = 9, ch_id = 0\<rparr>" "Some [10, 11 :: int]" 503 "[1, 2]" True]
  by (simp add: part_size_def ch_want_def)

section \<open>The queue\<close>

text \<open>
  C31: No chunk is lost or done twice. In every reachable state the chunks of the plan are exactly the
  queued ones, the ones a worker has, the finished and the failed ones, each once; \<open>inflight\<close> is the
  number of workers between taking a job and leaving it, and \<open>bytes_done\<close> counts the finished bytes.
\<close>

theorem chunks_conserved:
  assumes "dl_reach opt has_client net chunks s"
  shows "mset (map job_ch (dl_jobs s)) + mset (working_chunks (dl_workers s)) + mset (dl_finished s) +
      mset (dl_failed s) = mset chunks \<and>
    dl_inflight s = int (length (filter w_active (dl_workers s))) \<and>
    dl_bytes s = sum_list (map ch_want (dl_finished s))"
  using reach_conserved [OF assms] reach_counted [OF assms] by (simp_all add: conserved_def counted_def)

lemma chunks_conserved_witness: "dl_bytes demo_run = 3"
proof -
  have "sum_list (map ch_want (dl_finished demo_run)) = 3" by code_simp
  then show ?thesis using chunks_conserved [OF demo_run_reach] by simp
qed

text \<open>
  No worker leaves early. A worker that has returned proves that no chunk is queued or being
  transferred: every chunk of the plan is finished or failed.
\<close>

lemma workers_return_last:
  assumes "dl_reach opt has_client net chunks s" "W_done \<in> set (dl_workers s)"
  shows "dl_jobs s = [] \<and> working_chunks (dl_workers s) = [] \<and>
    length (dl_finished s) + length (dl_failed s) = length chunks"
  using workers_done [OF assms] .

definition demo_end :: "int download" where
  "demo_end = demo_run\<lparr>dl_workers := W_done # tl (dl_workers demo_run)\<rparr>"

lemma workers_return_last_witness: "length (dl_finished demo_end) + length (dl_failed demo_end) = 2"
proof -
  have s: "dl_workers demo_run = [] @ W_idle # tl (dl_workers demo_run)" "dl_jobs demo_run = []"
    "dl_inflight demo_run = 0" by code_simp+
  have "worker_step demo_options False (honest demo_content) demo_run demo_end"
    unfolding demo_end_def using w_exit [OF s] by simp
  with demo_run_reach have "dl_reach demo_options False (honest demo_content) demo_chunks demo_end"
    by (rule dl_step)
  moreover have "W_done \<in> set (dl_workers demo_end)" by (simp add: demo_end_def)
  ultimately show ?thesis using workers_return_last demo_run_state(4) by metis
qed

text \<open>
  One direct connection. Unless the options ask for direct transfers only, at most one worker
  holds the direct connection at any time, and \<open>direct_busy\<close> says whether one does.
\<close>

lemma direct_connection_exclusive:
  assumes "dl_reach opt has_client net chunks s" "\<not> direct opt"
  shows "length (filter w_direct_pipe (dl_workers s)) = (if dl_direct_busy s then 1 else 0)"
  using reach_direct [OF assms(1)] assms(2) by (simp add: direct_ok_def)

lemma direct_connection_exclusive_witness:
  "length (filter w_direct_pipe (dl_workers demo_run)) = (if dl_direct_busy demo_run then 1 else 0)"
  by (rule direct_connection_exclusive [OF demo_run_reach]) (simp add: demo_options_def)

text \<open>
  A bound on retries. A queued chunk has been tried through fewer than 32 proxies, and one that
  a worker has through at most 32.
\<close>

lemma proxy_tries_bounded:
  assumes "dl_reach opt has_client net chunks s"
  shows "(j \<in> set (dl_jobs s) \<longrightarrow> length (job_tried j) < 32) \<and>
    (W_job p k \<in> set (dl_workers s) \<longrightarrow> length (job_tried k) \<le> 32)"
  using reach_tries [OF assms] by (auto simp: tries_ok_def k_max_proxies_def dest!: bspec)

lemma proxy_tries_bounded_witness:
  "length (job_tried \<lparr>job_ch = hd demo_chunks, job_attempts = 0, job_tried = []\<rparr>) < 32"
  by (rule proxy_tries_bounded [OF dl_start [of demo_options False "honest demo_content" demo_chunks],
        THEN conjunct1, THEN mp])
    (simp add: start_download_def demo_chunks_def)

text \<open>
  Direct downloads never give up. With \<open>--direct\<close> a chunk is only ever tried without a proxy, so its
  list of proxies stays empty and no number of failed transfers makes it a failed chunk.
\<close>

lemma direct_never_fails:
  assumes "dl_reach opt has_client net chunks s" "direct opt"
  shows "dl_failed s = []"
proof -
  have "dl_failed s = [] \<and> (\<forall>j\<in>set (dl_jobs s). job_tried j = []) \<and>
      (\<forall>w\<in>set (dl_workers s). (\<forall>url. w \<noteq> W_pipe (Via url)) \<and> (\<forall>p j. w = W_job p j \<longrightarrow> job_tried j = []))"
    using assms(1)
  proof (induction rule: dl_reach.induct)
    case dl_start
    then show ?case by (auto simp: start_download_def)
  next
    case (dl_step s s')
    from dl_step(2,3) show ?case
    proof (induction rule: worker_step.induct)
      case (w_transfer s pre p j post fetch opens w s')
      from w_transfer(3) show ?case
        by (rule finish_job_cases) (use w_transfer(1,4) in \<open>auto simp: k_max_proxies_def\<close>)
    next
      case (w_take s pre p post w s')
      from w_take have "p = Direct" by (cases p) auto
      with w_take(2) show ?case
        by (elim take_job_cases) (use w_take(1,3) in auto)
    next
      case (w_proxy s pre post easy acquired w s')
      then show ?case using assms(2) by (simp add: wants_direct_def)
    qed (use assms(2) in \<open>auto elim!: open_direct_cases split: if_splits\<close>)
  qed
  then show ?thesis by blast
qed

lemma direct_never_fails_witness:
  "dl_failed (start_download (demo_options\<lparr>direct := True\<rparr>) demo_chunks :: int download) = []"
  by (rule direct_never_fails [OF dl_start [of "demo_options\<lparr>direct := True\<rparr>" False "honest demo_content"]]) simp

text \<open>
  C32: The workers cannot get stuck. As long as a chunk is neither finished nor failed, some worker
  can take a step, whatever state the others are in.
\<close>

theorem download_not_stuck:
  assumes "dl_reach opt has_client net chunks s" "net fetch"
    and "length (dl_finished s) + length (dl_failed s) < length chunks"
  shows "\<exists>s'. worker_step opt has_client net s s'"
proof -
  have "dl_workers s \<noteq> []" by (rule reach_workers [OF assms(1)])
  have not_done: "W_done \<notin> set (dl_workers s)"
    using workers_done [OF assms(1)] assms(3) by auto
  show ?thesis
  proof (cases "\<exists>w\<in>set (dl_workers s). w \<noteq> W_idle")
    case True
    then obtain pre w post where w: "dl_workers s = pre @ w # post" "w \<noteq> W_idle" by (metis split_list)
    show ?thesis
    proof (cases w)
      case W_peeked
      then show ?thesis
        using w(1) w_direct [of s pre post opt True] w_proxy [of s pre post opt has_client False None]
        by (cases "wants_direct opt s") (fastforce simp: open_direct_def open_proxy_def)+
    next
      case (W_pipe p)
      then show ?thesis using w(1) w_take [of s pre p post] by (metis prod.collapse)
    next
      case (W_job p j)
      then show ?thesis using w(1) w_transfer [of s pre p j post net, OF _ assms(2)] by (metis prod.collapse)
    next
      case W_leaving
      then show ?thesis using w(1) w_leave by blast
    qed (use w not_done in auto)
  next
    case False
    then have "working_chunks ws = []" if "set ws \<subseteq> set (dl_workers s)" for ws
      using that by (induction ws) auto
    then have "working_chunks (dl_workers s) = []" by blast
    then have "dl_jobs s \<noteq> []"
      using conserved_length [OF reach_conserved [OF assms(1)]] assms(3) by auto
    moreover from \<open>dl_workers s \<noteq> []\<close> False obtain post where "dl_workers s = [] @ W_idle # post"
      by (cases "dl_workers s") auto
    ultimately show ?thesis using w_peek by blast
  qed
qed

lemma download_not_stuck_witness:
  "\<exists>s'. worker_step demo_options False (honest demo_content) (start_download demo_options demo_chunks) s'"
  by (rule download_not_stuck [of demo_options False "honest demo_content" demo_chunks, OF dl_start demo_honest(1)]) (simp add: start_download_def demo_chunks_def)

end
