(* ===== verification/Repl.thy ===== *)
theory Repl
  imports Cpp_String
begin

text \<open>
  The interactive prompt (\<open>include/proxchunk/repl.hpp\<close> and \<open>run_repl\<close> of \<open>src/proxchunk.cpp\<close>): the
  tokenizer, the directory builtins and the loop over the input lines.

  The file system is outside the program. The builtins take the calls of \<open>std::filesystem\<close> they make
  as the record \<open>file_ops\<close> over a state \<open>'w\<close> of the world; an error is the message of its
  \<open>error_code\<close>.
\<close>

section \<open>The tokenizer\<close>

text \<open>
  \<open>tokenize_repl_line\<close>, one character per step. The state is \<open>quote\<close> (\<open>None\<close> outside quotes),
  \<open>in_token\<close>, \<open>cur\<close> and \<open>out\<close>; \<open>Inl\<close> is the message the code leaves in \<open>err\<close>.
\<close>

definition flush_token :: "bool \<Rightarrow> string \<Rightarrow> string list \<Rightarrow> string list" where
  "flush_token in_token cur out = (if in_token then out @ [cur] else out)"

fun tokenize_loop ::
  "char option \<Rightarrow> bool \<Rightarrow> string \<Rightarrow> string list \<Rightarrow> string \<Rightarrow> string + string list" where
  "tokenize_loop quote in_token cur out [] =
     (if quote \<noteq> None then Inl ''unmatched quote'' else Inr (flush_token in_token cur out))"
| "tokenize_loop (Some q) in_token cur out (c # line) =
     (if c = q then tokenize_loop None in_token cur out line
      else tokenize_loop (Some q) in_token (cur @ [c]) out line)"
| "tokenize_loop None in_token cur out (c # line) =
     (if c = bslash \<and> line \<noteq> []
      then tokenize_loop None True (cur @ [hd line]) out (tl line)
      else if c = squote \<or> c = dquote then tokenize_loop (Some c) True cur out line
      else if is_blank c
      then tokenize_loop None False (if in_token then [] else cur) (flush_token in_token cur out) line
      else tokenize_loop None True (cur @ [c]) out line)"

definition tokenize_repl_line :: "string \<Rightarrow> string + string list" where
  "tokenize_repl_line line = tokenize_loop None False [] [] line"

section \<open>The file system calls\<close>

datatype file_type = Regular_file | Directory | Symlink | Other_file

record 'w file_ops =
  fo_current :: "'w \<Rightarrow> string + string"
  fo_chdir :: "string \<Rightarrow> 'w \<Rightarrow> string option \<times> 'w"
  fo_mkdir :: "string \<Rightarrow> 'w \<Rightarrow> string option \<times> 'w"
  fo_mkdirs :: "string \<Rightarrow> 'w \<Rightarrow> string option \<times> 'w"
  fo_lstat :: "string \<Rightarrow> 'w \<Rightarrow> string + file_type"
  fo_is_dir :: "string \<Rightarrow> 'w \<Rightarrow> bool"
  fo_is_empty :: "string \<Rightarrow> 'w \<Rightarrow> bool"
  fo_remove :: "string \<Rightarrow> 'w \<Rightarrow> string option \<times> bool \<times> 'w"

section \<open>One line\<close>

text \<open>\<open>enum class repl_kind\<close> and \<open>struct repl_result\<close>.\<close>

datatype repl_kind = Repl_empty | Repl_quit | Repl_error | Repl_info | Repl_run

record repl_result =
  kind :: repl_kind
  message :: string
  argv :: "string list"

definition repl_say :: "repl_kind \<Rightarrow> string \<Rightarrow> repl_result" where
  "repl_say k m = \<lparr>kind = k, message = m, argv = []\<rparr>"

text \<open>\<open>repl_home_dir\<close>, with the value of \<open>HOME\<close>.\<close>

definition repl_home_dir :: "string option \<Rightarrow> string" where
  "repl_home_dir home = (case home of Some h \<Rightarrow> if h \<noteq> [] then h else ''/'' | None \<Rightarrow> ''/'')"

definition repl_help :: string where
  "repl_help = ''builtins: cd [dir]  pwd  mkdir [-p] dir  rm file  rmdir dir  exit'' @ [nl] @
     ''anything else is passed to proxchunk (try -h)''"

definition repl_pwd :: "'w file_ops \<Rightarrow> 'w \<Rightarrow> repl_result" where
  "repl_pwd ops w =
     (case fo_current ops w of Inl ec \<Rightarrow> repl_say Repl_error ec | Inr p \<Rightarrow> repl_say Repl_info p)"

text \<open>
  \<open>cd\<close>. The second \<open>current_path\<close> is the form that throws: \<open>None\<close> stands for its exception, which
  nothing catches.
\<close>

definition repl_cd ::
  "'w file_ops \<Rightarrow> string option \<Rightarrow> string list \<Rightarrow> 'w \<Rightarrow> (repl_result \<times> 'w) option" where
  "repl_cd ops home tok w =
     (let dest = (if length tok \<ge> 2 then tok ! 1 else repl_home_dir home)
      in case fo_chdir ops dest w of
           (Some ec, w') \<Rightarrow> Some (repl_say Repl_error (''cd: '' @ dest @ '': '' @ ec), w')
         | (None, w') \<Rightarrow>
             (case fo_current ops w' of
                Inl ec \<Rightarrow> None
              | Inr p \<Rightarrow> Some (repl_say Repl_info p, w')))"

fun repl_mkdir_loop :: "'w file_ops \<Rightarrow> bool \<Rightarrow> string list \<Rightarrow> 'w \<Rightarrow> repl_result \<times> 'w" where
  "repl_mkdir_loop ops parents [] w = (repl_say Repl_info [], w)"
| "repl_mkdir_loop ops parents (d # dirs) w =
     (case (if parents then fo_mkdirs ops d w else fo_mkdir ops d w) of
        (Some ec, w') \<Rightarrow> (repl_say Repl_error (''mkdir: '' @ d @ '': '' @ ec), w')
      | (None, w') \<Rightarrow> repl_mkdir_loop ops parents dirs w')"

definition repl_mkdir :: "'w file_ops \<Rightarrow> string list \<Rightarrow> 'w \<Rightarrow> repl_result \<times> 'w" where
  "repl_mkdir ops tok w =
     (let dirs = filter (\<lambda>t. t \<noteq> ''-p'') (tl tok)
      in if dirs = [] then (repl_say Repl_error ''mkdir: missing operand'', w)
         else repl_mkdir_loop ops (''-p'' \<in> set (tl tok)) dirs w)"

fun repl_rm_loop :: "'w file_ops \<Rightarrow> string list \<Rightarrow> 'w \<Rightarrow> repl_result \<times> 'w" where
  "repl_rm_loop ops [] w = (repl_say Repl_info [], w)"
| "repl_rm_loop ops (p # ps) w =
     (case fo_lstat ops p w of
        Inl ec \<Rightarrow> (repl_say Repl_error (''rm: '' @ p @ '': '' @ ec), w)
      | Inr st \<Rightarrow>
          (if st = Directory
           then (repl_say Repl_error (''rm: '' @ p @ '': is a directory (use rmdir)''), w)
           else case fo_remove ops p w of (ec, removed, w') \<Rightarrow>
             (if \<not> removed \<or> ec \<noteq> None
              then (repl_say Repl_error (''rm: '' @ p @ '': '' @ (case ec of Some m \<Rightarrow> m | None \<Rightarrow> ''failed'')), w')
              else repl_rm_loop ops ps w')))"

definition repl_rm :: "'w file_ops \<Rightarrow> string list \<Rightarrow> 'w \<Rightarrow> repl_result \<times> 'w" where
  "repl_rm ops tok w =
     (if length tok < 2 then (repl_say Repl_error ''rm: missing operand'', w)
      else repl_rm_loop ops (tl tok) w)"

fun repl_rmdir_loop :: "'w file_ops \<Rightarrow> string list \<Rightarrow> 'w \<Rightarrow> repl_result \<times> 'w" where
  "repl_rmdir_loop ops [] w = (repl_say Repl_info [], w)"
| "repl_rmdir_loop ops (p # ps) w =
     (if \<not> fo_is_dir ops p w
      then (repl_say Repl_error (''rmdir: '' @ p @ '': not a directory''), w)
      else if \<not> fo_is_empty ops p w
      then (repl_say Repl_error (''rmdir: '' @ p @ '': directory not empty''), w)
      else case fo_remove ops p w of (ec, removed, w') \<Rightarrow>
        (case ec of
           Some m \<Rightarrow> (repl_say Repl_error (''rmdir: '' @ p @ '': '' @ m), w')
         | None \<Rightarrow> repl_rmdir_loop ops ps w'))"

definition repl_rmdir :: "'w file_ops \<Rightarrow> string list \<Rightarrow> 'w \<Rightarrow> repl_result \<times> 'w" where
  "repl_rmdir ops tok w =
     (if length tok < 2 then (repl_say Repl_error ''rmdir: missing operand'', w)
      else repl_rmdir_loop ops (tl tok) w)"

definition handle_repl_line ::
  "'w file_ops \<Rightarrow> string option \<Rightarrow> string \<Rightarrow> 'w \<Rightarrow> (repl_result \<times> 'w) option" where
  "handle_repl_line ops home line w =
     (case tokenize_repl_line line of
        Inl err \<Rightarrow> Some (repl_say Repl_error err, w)
      | Inr [] \<Rightarrow> Some (repl_say Repl_empty [], w)
      | Inr (cmd # rest) \<Rightarrow>
          (if cmd = ''exit'' \<or> cmd = ''quit'' then Some (repl_say Repl_quit [], w)
           else if cmd = ''help'' then Some (repl_say Repl_info repl_help, w)
           else if cmd = ''pwd'' then Some (repl_pwd ops w, w)
           else if cmd = ''cd'' then repl_cd ops home (cmd # rest) w
           else if cmd = ''mkdir'' then Some (repl_mkdir ops (cmd # rest) w)
           else if cmd = ''rm'' then Some (repl_rm ops (cmd # rest) w)
           else if cmd = ''rmdir'' then Some (repl_rmdir ops (cmd # rest) w)
           else Some (\<lparr>kind = Repl_run, message = [], argv = cmd # rest\<rparr>, w)))"

section \<open>The prompt loop\<close>

text \<open>
  \<open>run_repl\<close>, once the program's own path is known: what it does with each input line, up to the end
  of input or \<open>exit\<close>. A run of \<open>proxchunk\<close> is an event; \<open>child\<close> says what the child process does to
  the world and whether \<open>waitpid\<close> succeeds, \<open>None\<close> when \<open>fork\<close> fails. The result is the exit code;
  \<open>None\<close> is the escaped exception.
\<close>

datatype repl_event = Repl_out string | Repl_err string | Repl_child "string list"

definition repl_act ::
  "(string list \<Rightarrow> 'w \<Rightarrow> (bool \<times> 'w) option) \<Rightarrow> repl_result \<Rightarrow> 'w \<Rightarrow> repl_event list \<times> 'w" where
  "repl_act child r w =
     (case kind r of
        Repl_error \<Rightarrow> ([Repl_err (message r @ [nl])], w)
      | Repl_info \<Rightarrow> (if message r \<noteq> [] then [Repl_out (message r @ [nl])] else [], w)
      | Repl_run \<Rightarrow>
          (case child (argv r) w of
             None \<Rightarrow> ([Repl_err (''fork failed'' @ [nl])], w)
           | Some (waited, w') \<Rightarrow>
               (Repl_child (argv r) # (if waited then [] else [Repl_err (''waitpid failed'' @ [nl])]), w'))
      | _ \<Rightarrow> ([], w))"

fun run_repl_loop ::
  "'w file_ops \<Rightarrow> (string list \<Rightarrow> 'w \<Rightarrow> (bool \<times> 'w) option) \<Rightarrow> string option \<Rightarrow> string list \<Rightarrow> 'w \<Rightarrow>
   repl_event list \<times> 'w \<times> nat option" where
  "run_repl_loop ops child home [] w = ([Repl_out ''> '', Repl_out [nl]], w, Some 0)"
| "run_repl_loop ops child home (line # lines) w =
     (case handle_repl_line ops home line w of
        None \<Rightarrow> ([Repl_out ''> ''], w, None)
      | Some (r, w') \<Rightarrow>
          (if kind r = Repl_quit then ([Repl_out ''> ''], w', Some 0)
           else let (es, w2) = repl_act child r w';
                    (es', w3, rc) = run_repl_loop ops child home lines w2
                in (Repl_out ''> '' # es @ es', w3, rc)))"

definition run_repl ::
  "'w file_ops \<Rightarrow> (string list \<Rightarrow> 'w \<Rightarrow> (bool \<times> 'w) option) \<Rightarrow> string option \<Rightarrow> string \<Rightarrow>
   string list \<Rightarrow> 'w \<Rightarrow> repl_event list \<times> 'w \<times> nat option" where
  "run_repl ops child home self lines w =
     (if self = []
      then ([Repl_err (''proxchunk: cannot resolve /proc/self/exe'' @ [nl])], w, Some 1)
      else run_repl_loop ops child home lines w)"

section \<open>Quoting\<close>

text \<open>
  The quoting a user can always fall back on, as in a shell: single quotes around the argument, and
  \<open>'\''\<close> for a quote in it. A line is the quoted arguments with blanks between them.
\<close>

definition quote_body :: "string \<Rightarrow> string" where
  "quote_body t = concat (map (\<lambda>c. if c = squote then [squote, bslash, squote, squote] else [c]) t)"

definition quote_arg :: "string \<Rightarrow> string" where
  "quote_arg t = squote # quote_body t @ [squote]"

fun quote_line :: "string list \<Rightarrow> string" where
  "quote_line [] = []"
| "quote_line (t # ts) = quote_arg t @ sp # quote_line ts"

lemma quote_body_simps:
  "quote_body [] = []"
  "quote_body (c # t) = (if c = squote then [squote, bslash, squote, squote] else [c]) @ quote_body t"
  by (simp_all add: quote_body_def)

lemma tokenize_quote_body:
  "tokenize_loop (Some squote) True cur out (quote_body t @ squote # rest) =
     tokenize_loop None True (cur @ t) out rest"
  by (induction t arbitrary: cur) (auto simp: quote_body_simps)

lemma tokenize_quote_line: "tokenize_loop None False [] out (quote_line ts) = Inr (out @ ts)"
  by (induction ts arbitrary: out)
    (simp_all add: quote_arg_def tokenize_quote_body flush_token_def is_blank_def)

section \<open>What a line may do to the file system\<close>

text \<open>
  The changes a builtin may make, one call at a time: it enters or makes directories, removes what is
  not a directory, and removes directories that are empty.
\<close>

inductive repl_change :: "'w file_ops \<Rightarrow> 'w \<Rightarrow> 'w \<Rightarrow> bool" for ops :: "'w file_ops" where
  change_dir: "fo_chdir ops d w = (r, w') \<Longrightarrow> repl_change ops w w'"
| make_dir: "fo_mkdir ops d w = (r, w') \<Longrightarrow> repl_change ops w w'"
| make_dirs: "fo_mkdirs ops d w = (r, w') \<Longrightarrow> repl_change ops w w'"
| remove_file: "fo_lstat ops p w = Inr st \<Longrightarrow> st \<noteq> Directory \<Longrightarrow> fo_remove ops p w = (r, b, w') \<Longrightarrow>
    repl_change ops w w'"
| remove_dir: "fo_is_dir ops p w \<Longrightarrow> fo_is_empty ops p w \<Longrightarrow> fo_remove ops p w = (r, b, w') \<Longrightarrow>
    repl_change ops w w'"

lemma repl_mkdir_loop_changes: "(repl_change ops)\<^sup>*\<^sup>* w (snd (repl_mkdir_loop ops parents dirs w))"
proof (induction dirs arbitrary: w)
  case (Cons d dirs)
  obtain r w' where m: "(if parents then fo_mkdirs ops d w else fo_mkdir ops d w) = (r, w')" by fastforce
  then have "repl_change ops w w'" by (auto intro: make_dir make_dirs split: if_splits)
  with m Cons [of w'] show ?case
    by (cases r) (auto intro: converse_rtranclp_into_rtranclp)
qed simp

lemma repl_rm_loop_changes: "(repl_change ops)\<^sup>*\<^sup>* w (snd (repl_rm_loop ops ps w))"
proof (induction ps arbitrary: w)
  case (Cons p ps)
  obtain r b w' where m: "fo_remove ops p w = (r, b, w')" by (cases "fo_remove ops p w") auto
  show ?case
  proof (cases "fo_lstat ops p w")
    case (Inr st)
    then have "st \<noteq> Directory \<Longrightarrow> repl_change ops w w'" using m by (auto intro: remove_file)
    with m Inr Cons [of w'] show ?thesis
      by (auto intro: converse_rtranclp_into_rtranclp)
  qed simp
qed simp

lemma repl_rmdir_loop_changes: "(repl_change ops)\<^sup>*\<^sup>* w (snd (repl_rmdir_loop ops ps w))"
proof (induction ps arbitrary: w)
  case (Cons p ps)
  obtain r b w' where m: "fo_remove ops p w = (r, b, w')" by (cases "fo_remove ops p w") auto
  then have "fo_is_dir ops p w \<and> fo_is_empty ops p w \<Longrightarrow> repl_change ops w w'" by (auto intro: remove_dir)
  with m Cons [of w'] show ?case
    by (cases r) (auto intro: converse_rtranclp_into_rtranclp)
qed simp

lemma repl_loop_kinds:
  "kind (fst (repl_mkdir_loop ops b ds w)) \<noteq> Repl_run" "kind (fst (repl_rm_loop ops ds w)) \<noteq> Repl_run"
  "kind (fst (repl_rmdir_loop ops ds w)) \<noteq> Repl_run"
  by (induction ds arbitrary: w) (auto simp: repl_say_def split: sum.splits prod.splits option.splits)

lemmas repl_loops = repl_mkdir_loop_changes repl_rm_loop_changes repl_rmdir_loop_changes repl_loop_kinds

lemma repl_builtins:
  "(repl_change ops)\<^sup>*\<^sup>* w (snd (repl_mkdir ops tok w)) \<and> kind (fst (repl_mkdir ops tok w)) \<noteq> Repl_run"
  "(repl_change ops)\<^sup>*\<^sup>* w (snd (repl_rm ops tok w)) \<and> kind (fst (repl_rm ops tok w)) \<noteq> Repl_run"
  "(repl_change ops)\<^sup>*\<^sup>* w (snd (repl_rmdir ops tok w)) \<and> kind (fst (repl_rmdir ops tok w)) \<noteq> Repl_run"
  by (simp_all add: repl_mkdir_def repl_rm_def repl_rmdir_def repl_say_def Let_def repl_loops)

lemma repl_cd_changes:
  "repl_cd ops home tok w = Some (r, w') \<Longrightarrow> (repl_change ops)\<^sup>*\<^sup>* w w' \<and> kind r \<noteq> Repl_run"
  by (auto simp: repl_cd_def repl_say_def Let_def split: prod.splits option.splits sum.splits
      intro!: r_into_rtranclp intro: change_dir)

lemma repl_pwd_kind: "kind (repl_pwd ops w) \<noteq> Repl_run"
  by (simp add: repl_pwd_def repl_say_def split: sum.splits)

text \<open>
  C27: The prompt and the file system. A line changes it only by entering and making directories, by
  removing things that are not directories, and by removing empty directories, one call after the
  other; a line that is handed on to \<open>proxchunk\<close> changes nothing and passes its tokens on as they
  are, whatever the quoting.
\<close>

theorem repl_line_changes:
  assumes "handle_repl_line ops home line w = Some (r, w')"
  shows "(repl_change ops)\<^sup>*\<^sup>* w w' \<and>
    (kind r = Repl_run \<longrightarrow> w' = w \<and> tokenize_repl_line line = Inr (argv r) \<and> argv r \<noteq> [])"
proof (cases "tokenize_repl_line line")
  case (Inl err)
  then show ?thesis using assms by (auto simp: handle_repl_line_def repl_say_def)
next
  case (Inr tok)
  show ?thesis
  proof (cases tok)
    case Nil
    then show ?thesis using assms Inr by (auto simp: handle_repl_line_def repl_say_def)
  next
    case (Cons cmd rest)
    show ?thesis
      using assms repl_builtins [of ops w "cmd # rest"] repl_cd_changes [of ops home "cmd # rest" w r w']
        repl_pwd_kind [of ops w]
      by (auto simp: handle_repl_line_def Inr Cons repl_say_def split: if_splits)
  qed
qed

text \<open>
  C28: Quoting. Every list of arguments has a line that the tokenizer splits into exactly that list.\<close>

theorem tokenize_quoted:
  "tokenize_repl_line (quote_line ts) = Inr ts"
  using tokenize_quote_line [of "[]" ts] by (simp add: tokenize_repl_line_def)

text \<open>
  A small file system for examples: the names of the directories and files at one level, the working
  directory never changes, and every directory is empty.
\<close>

record demo_tree =
  t_dirs :: "string list"
  t_files :: "string list"

definition demo_ops :: "demo_tree file_ops" where
  "demo_ops =
     \<lparr>fo_current = (\<lambda>w. Inr ''/''),
      fo_chdir = (\<lambda>d w. (if d \<in> set (t_dirs w) then None else Some ''No such file or directory'', w)),
      fo_mkdir = (\<lambda>d w. (None, if d \<in> set (t_dirs w) then w else w\<lparr>t_dirs := d # t_dirs w\<rparr>)),
      fo_mkdirs = (\<lambda>d w. (None, if d \<in> set (t_dirs w) then w else w\<lparr>t_dirs := d # t_dirs w\<rparr>)),
      fo_lstat = (\<lambda>p w. if p \<in> set (t_dirs w) then Inr Directory
        else if p \<in> set (t_files w) then Inr Regular_file else Inl ''No such file or directory''),
      fo_is_dir = (\<lambda>p w. p \<in> set (t_dirs w)),
      fo_is_empty = (\<lambda>p w. True),
      fo_remove = (\<lambda>p w. (None, p \<in> set (t_dirs w @ t_files w),
        w\<lparr>t_dirs := filter (\<lambda>x. x \<noteq> p) (t_dirs w), t_files := filter (\<lambda>x. x \<noteq> p) (t_files w)\<rparr>))\<rparr>"

definition demo_tree :: demo_tree where
  "demo_tree = \<lparr>t_dirs = [''d''], t_files = [''f'']\<rparr>"

lemma repl_line_changes_witness:
  "(repl_change demo_ops)\<^sup>*\<^sup>* demo_tree
     (snd (the (handle_repl_line demo_ops None (quote_line [''rm'', ''f'', ''d'']) demo_tree))) \<and>
   t_files (snd (the (handle_repl_line demo_ops None (quote_line [''rm'', ''f'', ''d'']) demo_tree))) = [] \<and>
   t_dirs (snd (the (handle_repl_line demo_ops None (quote_line [''rm'', ''f'', ''d'']) demo_tree))) = [''d'']"
proof -
  let ?h = "handle_repl_line demo_ops None (quote_line [''rm'', ''f'', ''d'']) demo_tree"
  have "?h \<noteq> None" and t: "t_files (snd (the ?h)) = []" "t_dirs (snd (the ?h)) = [''d'']" by code_simp+
  then obtain r w' where h: "?h = Some (r, w')" by auto
  show ?thesis using repl_line_changes [OF h] t h by simp
qed

end
