(* ===== verification/Probe.thy ===== *)
theory Probe
  imports Cpp_Number
begin

text \<open>
  How the size of the file is found (\<open>include/proxchunk/ia_size.hpp\<close>; \<open>probe_file\<close>,
  \<open>probe_archive_org_metadata\<close>, \<open>probe_size_direct\<close> and the first part of \<open>run_download\<close> in
  \<open>src/proxchunk.cpp\<close>): archive.org URLs and metadata, and the headers of a small range request. What
  libcurl brings back is an argument.
\<close>

section \<open>archive.org\<close>

text \<open>\<open>url_decode\<close>.\<close>

fun url_decode :: "string \<Rightarrow> string" where
  "url_decode [] = []"
| "url_decode (c # s) =
     (if c = CHR ''%'' \<and> length s \<ge> 2 \<and> is_xdigit (s ! 0) \<and> is_xdigit (s ! 1)
      then char_of (16 * xdigit_val (s ! 0) + xdigit_val (s ! 1)) # url_decode (drop 2 s)
      else if c = CHR ''+'' then sp # url_decode s
      else c # url_decode s)"

definition ia_marker :: string where
  "ia_marker = ''archive.org/download/''"

text \<open>\<open>ia_parse_download_url\<close>: the item and the decoded file name.\<close>

definition cut_query :: "string \<Rightarrow> string" where
  "cut_query s = (case find_if (\<lambda>c. c = CHR ''?'' \<or> c = CHR ''#'') s of Some q \<Rightarrow> take q s | None \<Rightarrow> s)"

definition ia_parse_download_url :: "string \<Rightarrow> (string \<times> string) option" where
  "ia_parse_download_url url =
     (case find_str ia_marker url of
        None \<Rightarrow> None
      | Some p \<Rightarrow>
          (let rest = drop (p + length ia_marker) url
           in case find_char CHR ''/'' rest of
                None \<Rightarrow> None
              | Some slash \<Rightarrow>
                  (if slash = 0 then None
                   else let ident = take slash rest;
                            filename = cut_query (drop (slash + 1) rest)
                        in if filename = [] \<or> ident = [] then None
                           else Some (ident, url_decode filename))))"

text \<open>
  \<open>ia_size_from_metadata_json\<close>. The outer option is undefined behaviour: the number is summed up in an
  \<open>int64_t\<close> without a check. The inner one is the code's \<open>optional\<close>.
\<close>

fun json_number :: "int \<Rightarrow> string \<Rightarrow> int option" where
  "json_number n [] = Some n"
| "json_number n (c # s) =
     (if is_digit c
      then do { m \<leftarrow> i64 (n * 10); n' \<leftarrow> i64 (m + int (digit_val c)); json_number n' s }
      else Some n)"

definition json_name :: "string \<Rightarrow> string" where
  "json_name filename = [dquote] @ ''name'' @ [dquote] @ '':'' @ [dquote] @ filename @ [dquote]"

definition json_size :: string where
  "json_size = [dquote] @ ''size'' @ [dquote] @ '':''"

definition ia_size_from_metadata_json :: "string \<Rightarrow> string \<Rightarrow> int option option" where
  "ia_size_from_metadata_json json filename =
     (if json = [] \<or> filename = [] then Some None
      else case find_str (json_name filename) json of
        None \<Rightarrow> Some None
      | Some pos \<Rightarrow>
          (let window = take 1024 (drop pos json)
           in case find_str json_size window of
                None \<Rightarrow> Some None
              | Some p \<Rightarrow>
                  (let d = dropWhile (\<lambda>c. c = sp \<or> c = dquote) (drop (p + 7) window)
                   in if d = [] \<or> \<not> is_digit (hd d) then Some None
                      else map_option (\<lambda>n. if n \<le> 0 then None else Some n) (json_number 0 d))))"

section \<open>The range probe\<close>

text \<open>\<open>struct FileInfo\<close>, and what a transfer leaves: its error, if any, the status, and the text.\<close>

record file_info =
  fi_size :: int
  accepts_ranges :: bool

record http_reply =
  re_error :: "string option"
  re_code :: int
  re_text :: string

definition header_pos :: "string \<Rightarrow> string \<Rightarrow> string \<Rightarrow> nat option" where
  "header_pos name lower headers =
     (case find_str name headers of Some p \<Rightarrow> Some p | None \<Rightarrow> find_str lower headers)"

text \<open>The size in \<open>Content-Range\<close>, after the slash, and in \<open>Content-Length\<close>; -1 when there is none.\<close>

definition content_range_size :: "string \<Rightarrow> int" where
  "content_range_size headers =
     (case header_pos ''Content-Range:'' ''content-range:'' headers of
        None \<Rightarrow> -1
      | Some pos \<Rightarrow>
          (case find_char CHR ''/'' (drop pos headers) of
             None \<Rightarrow> -1
           | Some slash \<Rightarrow>
               (let total = drop (pos + slash + 1) headers;
                    total = takeWhile (\<lambda>c. c \<noteq> cr \<and> c \<noteq> nl \<and> c \<noteq> sp) total
                in case stoll total of Some n \<Rightarrow> n | None \<Rightarrow> -1)))"

definition content_length_size :: "string \<Rightarrow> int" where
  "content_length_size headers =
     (case header_pos ''Content-Length:'' ''content-length:'' headers of
        None \<Rightarrow> -1
      | Some pos \<Rightarrow>
          (case find_if is_digit (drop pos headers) of
             None \<Rightarrow> -1
           | Some start \<Rightarrow>
               (case stoll (drop (pos + start) headers) of Some n \<Rightarrow> n | None \<Rightarrow> -1)))"

text \<open>\<open>probe_file\<close>. \<open>None\<close> is a failed \<open>curl_easy_init\<close>.\<close>

definition probe_file :: "http_reply option \<Rightarrow> string + file_info" where
  "probe_file reply =
     (case reply of
        None \<Rightarrow> Inl ''curl_easy_init failed''
      | Some r \<Rightarrow>
          (case re_error r of
             Some err \<Rightarrow> Inl (''Range probe failed: '' @ err)
           | None \<Rightarrow>
               (if re_code r \<noteq> 206 \<and> re_code r \<noteq> 200
                then Inl (''Unexpected HTTP '' @ show_int (re_code r) @ '' on Range probe'')
                else let info = (if re_code r = 206
                                 then \<lparr>fi_size = content_range_size (re_text r), accepts_ranges = True\<rparr>
                                 else \<lparr>fi_size = content_length_size (re_text r), accepts_ranges = False\<rparr>)
                     in if fi_size info \<le> 0 then Inl ''Could not determine file size''
                        else Inr info)))"

text \<open>\<open>probe_archive_org_metadata\<close>, with the transfer of a URL as an argument; \<open>None\<close> as above for overflow.\<close>

definition probe_archive_org_metadata ::
  "(string \<Rightarrow> http_reply option) \<Rightarrow> string \<Rightarrow> (string + file_info) option" where
  "probe_archive_org_metadata fetch url =
     (case ia_parse_download_url url of
        None \<Rightarrow> Some (Inl ''not an archive.org download URL'')
      | Some (ident, filename) \<Rightarrow>
          (case fetch (''https://archive.org/metadata/'' @ ident) of
             None \<Rightarrow> Some (Inl ''curl_easy_init failed'')
           | Some r \<Rightarrow>
               (case re_error r of
                  Some err \<Rightarrow> Some (Inl (''metadata fetch: '' @ err))
                | None \<Rightarrow>
                    (if re_code r \<noteq> 200 then Some (Inl (''metadata HTTP '' @ show_int (re_code r)))
                     else map_option (\<lambda>sz. case sz of
                              None \<Rightarrow> Inl ''file not listed in archive.org metadata''
                            | Some n \<Rightarrow> Inr \<lparr>fi_size = n, accepts_ranges = True\<rparr>)
                            (ia_size_from_metadata_json (re_text r) filename)))))"

text \<open>\<open>probe_size_direct\<close>: the metadata when they give a size, else the range probe.\<close>

definition probe_size_direct ::
  "(string \<Rightarrow> http_reply option) \<Rightarrow> (string \<Rightarrow> http_reply option) \<Rightarrow> string \<Rightarrow>
   (string + file_info) option" where
  "probe_size_direct fetch ranged url =
     map_option (\<lambda>ia. case ia of Inr info \<Rightarrow> Inr info | Inl _ \<Rightarrow> probe_file (ranged url))
       (probe_archive_org_metadata fetch url)"

text \<open>
  \<open>run_download\<close> up to the planning: the probe, the need for ranges, and the target check, when there is
  a client (\<open>target\<close> is its \<open>set_target\<close>). \<open>Inl\<close> is the message with which the download is given up.
\<close>

definition prepare_download ::
  "string + file_info \<Rightarrow> (string \<Rightarrow> int) option \<Rightarrow> string \<Rightarrow> string + file_info" where
  "prepare_download probe target url =
     (case probe of
        Inl err \<Rightarrow> Inl (''Probe failed: '' @ err)
      | Inr info \<Rightarrow>
          (if \<not> accepts_ranges info then Inl ''Server does not support Range. Aborting.''
           else case target of
                  None \<Rightarrow> Inr info
                | Some set_target \<Rightarrow>
                    (if set_target url < 0 then Inl ''TARGET IPC failed''
                     else if set_target url < 1 then Inl ''No proxy can fetch this URL. Aborting.''
                     else Inr info)))"

section \<open>Percent encoding\<close>

text \<open>The encoding that \<open>url_decode\<close> undoes: unreserved characters and slashes stay, others become \<open>%XX\<close>.\<close>

definition hex_digit :: "nat \<Rightarrow> char" where
  "hex_digit d = (if d < 10 then char_of (48 + d) else char_of (55 + d))"

definition url_plain :: "char \<Rightarrow> bool" where
  "url_plain c \<longleftrightarrow> is_digit c \<or> 65 \<le> char_code c \<and> char_code c \<le> 90 \<or> 97 \<le> char_code c \<and> char_code c \<le> 122 \<or>
     c \<in> set ''-_.~/''"

definition url_encode :: "string \<Rightarrow> string" where
  "url_encode s = concat (map (\<lambda>c. if url_plain c then [c]
     else [CHR ''%'', hex_digit (char_code c div 16), hex_digit (char_code c mod 16)]) s)"

lemma char_code_of: "n < 256 \<Longrightarrow> char_code (char_of n) = n"
  by (simp add: char_code_def of_char_of take_bit_eq_mod)

lemma char_code_less: "char_code c < 256"
  by (simp add: char_code_def)

lemma hex_digit_props:
  assumes "d < 16"
  shows "is_xdigit (hex_digit d) \<and> xdigit_val (hex_digit d) = d \<and> url_plain (hex_digit d)"
  using assms by (auto simp: hex_digit_def is_xdigit_def is_digit_def xdigit_val_def url_plain_def char_code_of Let_def)

lemma url_plain_not: "url_plain c \<Longrightarrow> c \<noteq> CHR ''%'' \<and> c \<noteq> CHR ''+'' \<and> c \<noteq> CHR ''?'' \<and> c \<noteq> CHR ''#''"
  by (auto simp: url_plain_def is_digit_def char_code_def)

lemma url_decode_escape:
  assumes "a < 16" "b < 16"
  shows "url_decode (CHR ''%'' # hex_digit a # hex_digit b # s) = char_of (16 * a + b) # url_decode s"
  using hex_digit_props [OF assms(1)] hex_digit_props [OF assms(2)] by simp

lemma url_decode_encode: "url_decode (url_encode s) = s"
proof (induction s)
  case (Cons c s)
  have e: "url_encode (c # s) = (if url_plain c then [c]
     else [CHR ''%'', hex_digit (char_code c div 16), hex_digit (char_code c mod 16)]) @ url_encode s"
    by (simp add: url_encode_def)
  have "char_code c div 16 < 16" using char_code_less [of c] by simp
  moreover have "char_of (16 * (char_code c div 16) + char_code c mod 16) = c" by (simp add: char_code_def)
  ultimately show ?case
    using Cons url_decode_escape [of "char_code c div 16" "char_code c mod 16" "url_encode s"] url_plain_not [of c]
    by (auto simp: e)
qed (simp add: url_encode_def)

lemma url_encode_chars: "c \<in> set (url_encode s) \<Longrightarrow> c \<noteq> CHR ''?'' \<and> c \<noteq> CHR ''#''"
proof (induction s)
  case (Cons d s)
  have "char_code d div 16 < 16" using char_code_less [of d] by simp
  then have "url_plain (hex_digit (char_code d div 16))" "url_plain (hex_digit (char_code d mod 16))"
    by (simp_all add: hex_digit_props)
  with Cons show ?case using url_plain_not [of c] by (auto simp: url_encode_def split: if_splits)
qed (simp add: url_encode_def)

lemma url_encode_nonempty: "s \<noteq> [] \<Longrightarrow> url_encode s \<noteq> []"
  by (cases s) (auto simp: url_encode_def)

lemma cut_query_encoded:
  assumes "q = [] \<or> hd q = CHR ''?'' \<or> hd q = CHR ''#''"
  shows "cut_query (url_encode f @ q) = url_encode f"
proof (cases q)
  case Nil
  then have "find_if (\<lambda>c. c = CHR ''?'' \<or> c = CHR ''#'') (url_encode f @ q) = None"
    using url_encode_chars by (auto simp: find_if_None)
  then show ?thesis using Nil by (simp add: cut_query_def)
next
  case (Cons c q')
  then have "find_if (\<lambda>c. c = CHR ''?'' \<or> c = CHR ''#'') (url_encode f @ c # q') = Some (length (url_encode f))"
    using assms url_encode_chars by (intro find_if_append_stop) auto
  then show ?thesis using Cons by (simp add: cut_query_def)
qed

section \<open>Numbers in metadata and headers\<close>

lemma json_number_append:
  "\<forall>c\<in>set ds. is_digit c \<Longrightarrow> json_number a (ds @ rest) = Option.bind (json_number a ds) (\<lambda>m. json_number m rest)"
  by (induction ds arbitrary: a) (auto simp: i64_def)

lemma json_number_show_nat: "int n < 2 ^ 63 \<Longrightarrow> json_number 0 (show_nat n) = Some (int n)"
proof (induction n rule: show_nat.induct)
  case (1 n)
  have d: "is_digit (digit_char (n mod 10))" "digit_val (digit_char (n mod 10)) = n mod 10"
    by (simp_all add: is_digit_digit_char digit_val_digit_char)
  show ?case
  proof (cases "n < 10")
    case True
    then show ?thesis using d by (subst show_nat.simps) (simp add: in_i64_def)
  next
    case False
    have p: "int (n div 10) < 2 ^ 63" "in_i64 (int (n div 10) * 10)" "in_i64 (int n)"
      using 1(2) by (auto simp: in_i64_def)
    have "int (n div 10) * 10 + int (n mod 10) = int (n div 10 * 10 + n mod 10)"
      by (simp only: of_nat_add of_nat_mult of_nat_numeral)
    then have "int (n div 10) * 10 + int (n mod 10) = int n" by (simp only: div_mult_mod_eq)
    then show ?thesis
      using False 1(1) [OF False p(1)] d p
      by (subst show_nat.simps) (simp add: json_number_append show_nat_digits del: show_nat.simps)
  qed
qed

lemma json_number_shown:
  assumes "int n < 2 ^ 63" "rest = [] \<or> \<not> is_digit (hd rest)"
  shows "json_number 0 (show_nat n @ rest) = Some (int n)"
  using assms by (cases rest) (simp_all add: json_number_append show_nat_digits json_number_show_nat)

lemma stoll_shown:
  "int n < 2 ^ 63 \<Longrightarrow> rest = [] \<or> \<not> is_digit (hd rest) \<Longrightarrow> stoll (show_nat n @ rest) = Some (int n)"
  by (simp add: stoll_def strtol10_show_nat in_i64_def)


section \<open>Properties\<close>

text \<open>
  C29: archive.org. For the download URL of any file of an item, however the name is encoded and
  whatever query follows, the metadata request goes to that item, and the size found is the number
  listed after the file's name, as long as it is in the 1024 bytes that are searched.
\<close>

theorem archive_size_found:
  assumes "ident \<noteq> []" "CHR ''/'' \<notin> set ident" "f \<noteq> []"
    and "query = [] \<or> hd query = CHR ''?'' \<or> hd query = CHR ''#''"
    and "fetch (''https://archive.org/metadata/'' @ ident) = Some \<lparr>re_error = None, re_code = 200, re_text = json\<rparr>"
    and "find_str (json_name f) json = Some pos"
    and "take 1024 (drop pos json) = before @ json_size @ blanks @ show_nat n @ after"
    and "find_str json_size (take 1024 (drop pos json)) = Some (length before)"
    and "set blanks \<subseteq> {sp, dquote}" "after \<noteq> []" "\<not> is_digit (hd after)" "0 < n" "int n < 2 ^ 63"
  shows "ia_parse_download_url (''https://archive.org/download/'' @ ident @ ''/'' @ url_encode f @ query) = Some (ident, f) \<and>
    probe_archive_org_metadata fetch (''https://archive.org/download/'' @ ident @ ''/'' @ url_encode f @ query) =
      Some (Inr \<lparr>fi_size = int n, accepts_ranges = True\<rparr>)"
proof -
  let ?rest = "ident @ ''/'' @ url_encode f @ query"
  have m: "find_str ia_marker (''https://archive.org/download/'' @ ?rest) = Some 8"
    "drop (8 + length ia_marker) (''https://archive.org/download/'' @ ?rest) = ?rest"
    by (simp_all add: ia_marker_def starts_with_def)
  have s: "find_char CHR ''/'' ?rest = Some (length ident)"
    using find_char_append_stop [OF assms(2)] by simp
  have t: "take (length ident) ?rest = ident" "drop (length ident + 1) ?rest = url_encode f @ query" by simp_all
  have p: "ia_parse_download_url (''https://archive.org/download/'' @ ?rest) = Some (ident, f)"
    unfolding ia_parse_download_url_def m(1) option.case m(2) s Let_def t
    using assms(1,3) by (simp add: cut_query_encoded [OF assms(4)] url_encode_nonempty url_decode_encode)
  have l: "length json_size = 7" by (simp add: json_size_def)
  obtain d ds where d: "show_nat n = d # ds" by (cases "show_nat n") auto
  then have dig: "is_digit d" using show_nat_digits [of n] by simp
  then have "d \<noteq> sp \<and> d \<noteq> dquote" by (auto simp: is_digit_def char_code_def)
  then have "dropWhile (\<lambda>c. c = sp \<or> c = dquote) (blanks @ show_nat n @ after) = show_nat n @ after"
    using assms(9) d by (simp add: dropWhile_append subset_iff)
  then have "ia_size_from_metadata_json json f = Some (Some (int n))"
    using assms(3,6-8,10-13) l dig d json_number_shown [of n after]
    by (cases json) (auto simp: ia_size_from_metadata_json_def json_name_def)
  with p assms(5) show ?thesis by (simp add: probe_archive_org_metadata_def)
qed

definition demo_json :: string where
  "demo_json = ''{'' @ json_name ''a b'' @ '','' @ json_size @ [dquote] @ ''70'' @ [dquote] @ ''},{'' @
     json_name ''meta.xml'' @ ''},{'' @ json_name ''c'' @ '','' @ json_size @ [dquote] @ ''9'' @ [dquote] @ ''}''"

definition demo_fetch :: "string \<Rightarrow> http_reply option" where
  "demo_fetch url = Some \<lparr>re_error = None, re_code = 200, re_text = demo_json\<rparr>"

lemma archive_size_found_witness:
  "ia_parse_download_url (''https://archive.org/download/it/'' @ url_encode ''a b'' @ ''?x'') = Some (''it'', ''a b'')"
proof -
  let ?before = "json_name ''a b'' @ '',''"
  have j: "find_str (json_name ''a b'') demo_json = Some 1"
    "take 1024 (drop 1 demo_json) = ?before @ json_size @ [dquote] @ show_nat 70 @ drop 24 demo_json"
    "find_str json_size (take 1024 (drop 1 demo_json)) = Some (length ?before)"
    "drop 24 demo_json \<noteq> []" "\<not> is_digit (hd (drop 24 demo_json))"
    by code_simp+
  have f: "demo_fetch (''https://archive.org/metadata/'' @ ''it'') = Some \<lparr>re_error = None, re_code = 200, re_text = demo_json\<rparr>"
    by (simp add: demo_fetch_def)
  have "ia_parse_download_url (''https://archive.org/download/'' @ ''it'' @ ''/'' @ url_encode ''a b'' @ ''?x'') = Some (''it'', ''a b'')"
    by (rule archive_size_found [of "''it''" "''a b''" "''?x''" demo_fetch demo_json 1 ?before "[dquote]" 70
          "drop 24 demo_json", THEN conjunct1]) (use f j in simp_all)
  then show ?thesis by simp
qed

text \<open>
  C30: The range probe. The total of a \<open>Content-Range\<close> header is the size that is found, for every
  number of 64 bits; 0 and totals that do not fit, or that are not given (\<open>*\<close>), are refused.
\<close>

theorem range_probe_size:
  assumes "find_str ''Content-Range:'' (before @ ''Content-Range:'' @ unit @ ''/'' @ amount @ cr # rest) = Some (length before)"
    and "CHR ''/'' \<notin> set unit" "amount = ''*'' \<or> amount = show_nat n"
  shows "probe_file (Some \<lparr>re_error = None, re_code = 206,
      re_text = before @ ''Content-Range:'' @ unit @ ''/'' @ amount @ cr # rest\<rparr>) =
    (if amount = show_nat n \<and> 0 < n \<and> int n < 2 ^ 63 then Inr \<lparr>fi_size = int n, accepts_ranges = True\<rparr>
     else Inl ''Could not determine file size'')"
proof -
  let ?h = "before @ ''Content-Range:'' @ unit @ ''/'' @ amount @ cr # rest"
  have "CHR ''/'' \<notin> set (''Content-Range:'' @ unit)" using assms(2) by simp
  from find_char_append_stop [OF this, of "amount @ cr # rest"]
  have s: "find_char CHR ''/'' (drop (length before) ?h) = Some (14 + length unit)" by simp
  have e: "?h = (before @ ''Content-Range:'' @ unit @ ''/'') @ amount @ cr # rest"
    and l: "length before + (14 + length unit) + 1 = length (before @ ''Content-Range:'' @ unit @ ''/'')"
    by simp_all
  have "drop (length xs) (xs @ ys) = ys" for xs ys :: string by simp
  from this [of "before @ ''Content-Range:'' @ unit @ ''/''"]
  have d: "drop (length before + (14 + length unit) + 1) ?h = amount @ cr # rest" unfolding e l .
  have "solid ''*''" by (simp add: is_space_def is_blank_def)
  then have "solid amount" using assms(3) by (elim disjE) simp_all
  then have "c \<noteq> cr \<and> c \<noteq> nl \<and> c \<noteq> sp" if "c \<in> set amount" for c
    using that by (auto simp: solid_def is_space_def is_blank_def)
  then have t: "takeWhile (\<lambda>c. c \<noteq> cr \<and> c \<noteq> nl \<and> c \<noteq> sp) (amount @ cr # rest) = amount"
    by (intro takeWhile_append_stop) auto
  have z: "content_range_size ?h = (case stoll amount of Some m \<Rightarrow> m | None \<Rightarrow> -1)"
    unfolding content_range_size_def header_pos_def assms(1) option.case s Let_def d t by (rule refl)
  have nd: "\<not> is_digit CHR ''*''" by (simp add: is_digit_def char_code_def)
  then have star: "stoll ''*'' = None"
    by (simp add: stoll_def strtol10_def is_space_def is_blank_def)
  have "''*'' \<noteq> show_nat n"
  proof
    assume "''*'' = show_nat n"
    with show_nat_digits [of n] have "\<forall>c\<in>set ''*''. is_digit c" by simp
    with nd show False by simp
  qed
  note star = star this
  have num: "stoll (show_nat n) = (if int n < 2 ^ 63 then Some (int n) else None)"
    using strtol10_show_nat [of "[]" n] by (simp add: stoll_def i64_def in_i64_def)
  have p: "probe_file (Some \<lparr>re_error = None, re_code = 206, re_text = ?h\<rparr>) =
    (if content_range_size ?h \<le> 0 then Inl ''Could not determine file size''
     else Inr \<lparr>fi_size = content_range_size ?h, accepts_ranges = True\<rparr>)"
    by (simp add: probe_file_def Let_def)
  from assms(3) show ?thesis
  proof
    assume "amount = ''*''"
    then show ?thesis unfolding p z using star by simp
  next
    assume a: "amount = show_nat n"
    show ?thesis unfolding p z unfolding a num by auto
  qed
qed

lemma range_probe_size_witness:
  "probe_file (Some \<lparr>re_error = None, re_code = 206,
      re_text = [] @ ''Content-Range:'' @ '' bytes 0-8191'' @ ''/'' @ show_nat 5000 @ cr # [nl]\<rparr>) =
    Inr \<lparr>fi_size = 5000, accepts_ranges = True\<rparr>"
proof -
  have "find_str ''Content-Range:'' ([] @ ''Content-Range:'' @ '' bytes 0-8191'' @ ''/'' @ show_nat 5000 @ cr # [nl]) =
    Some (length [])" by code_simp
  from range_probe_size [OF this _ disjI2 [OF refl]] show ?thesis by simp
qed

text \<open>
  The search for the size does not stop at the end of the file's entry. For a file listed without
  a size, the size of the next file is taken.
\<close>

lemma metadata_size_of_next_file:
  "ia_size_from_metadata_json demo_json ''meta.xml'' = Some (Some 9) \<and>
   ia_size_from_metadata_json demo_json ''c'' = Some (Some 9)"
  by code_simp

end
