(* ===== verification/Paths.thy ===== *)
theory Paths
  imports Cpp_Number
begin

text \<open>
  Default places (\<open>src/proxy_ipc.cpp\<close>, \<open>include/proxchunk/proxy_engine.hpp\<close>): the runtime directory with
  the socket and the pid file, the log, the cache and the user's list. Paths are strings; the two
  operations of \<open>std::filesystem::path\<close> that the code uses on them come first. The environment
  (\<open>getenv\<close>) and the directories that exist are arguments.
\<close>

text \<open>\<open>operator/\<close> and \<open>parent_path\<close> of a POSIX path.\<close>

definition path_join :: "string \<Rightarrow> string \<Rightarrow> string" where
  "path_join a b =
     (if starts_with b ''/'' then b
      else if a = [] \<or> last a = CHR ''/'' then a @ b
      else a @ ''/'' @ b)"

definition parent_path :: "string \<Rightarrow> string" where
  "parent_path p =
     (let dir = rev (dropWhile (\<lambda>c. c \<noteq> CHR ''/'') (rev p));
          bare = rev (dropWhile (\<lambda>c. c = CHR ''/'') (rev dir))
      in if dir = [] then [] else if bare = [] then ''/'' else bare)"

text \<open>The value of a variable that is set and not empty.\<close>

definition env_value :: "(string \<Rightarrow> string option) \<Rightarrow> string \<Rightarrow> string option" where
  "env_value getenv name = (case getenv name of Some v \<Rightarrow> if v \<noteq> [] then Some v else None | None \<Rightarrow> None)"

definition default_runtime_dir :: "(string \<Rightarrow> string option) \<Rightarrow> (string \<Rightarrow> bool) \<Rightarrow> nat \<Rightarrow> string" where
  "default_runtime_dir getenv is_directory uid =
     (let run = path_join ''/run/user'' (show_nat uid);
          rest = (if is_directory run then path_join run ''proxchunk''
                  else path_join ''/tmp'' (''proxchunk-'' @ show_nat uid))
      in case env_value getenv ''XDG_RUNTIME_DIR'' of
           Some xdg \<Rightarrow> if is_directory xdg then path_join xdg ''proxchunk'' else rest
         | None \<Rightarrow> rest)"

definition default_socket_path :: "(string \<Rightarrow> string option) \<Rightarrow> (string \<Rightarrow> bool) \<Rightarrow> nat \<Rightarrow> string" where
  "default_socket_path getenv is_directory uid =
     path_join (default_runtime_dir getenv is_directory uid) ''proxchunkd.sock''"

definition default_pid_path :: "(string \<Rightarrow> string option) \<Rightarrow> (string \<Rightarrow> bool) \<Rightarrow> nat \<Rightarrow> string" where
  "default_pid_path getenv is_directory uid =
     path_join (default_runtime_dir getenv is_directory uid) ''proxchunkd.pid''"

definition default_log_path :: "(string \<Rightarrow> string option) \<Rightarrow> string" where
  "default_log_path getenv =
     (case env_value getenv ''XDG_CACHE_HOME'' of
        Some xdg \<Rightarrow> path_join (path_join xdg ''proxchunk'') ''proxchunkd.log''
      | None \<Rightarrow>
          (case env_value getenv ''HOME'' of
             Some home \<Rightarrow> path_join (path_join (path_join home ''.cache'') ''proxchunk'') ''proxchunkd.log''
           | None \<Rightarrow> ''proxchunkd.log''))"

definition default_proxy_cache_path :: "(string \<Rightarrow> string option) \<Rightarrow> string" where
  "default_proxy_cache_path getenv =
     (case env_value getenv ''XDG_CACHE_HOME'' of
        Some xdg \<Rightarrow> path_join (path_join xdg ''proxchunk'') ''proxies.txt''
      | None \<Rightarrow>
          (case env_value getenv ''HOME'' of
             Some home \<Rightarrow> path_join (path_join (path_join home ''.cache'') ''proxchunk'') ''proxies.txt''
           | None \<Rightarrow> ''proxchunk.proxies''))"

definition default_user_proxy_list_path :: "(string \<Rightarrow> string option) \<Rightarrow> string" where
  "default_user_proxy_list_path getenv =
     (case env_value getenv ''XDG_CONFIG_HOME'' of
        Some xdg \<Rightarrow> path_join (path_join xdg ''proxchunk'') ''proxies.txt''
      | None \<Rightarrow>
          (case env_value getenv ''HOME'' of
             Some home \<Rightarrow> path_join (path_join (path_join home ''.config'') ''proxchunk'') ''proxies.txt''
           | None \<Rightarrow> ''proxies.txt''))"

end
