(* ===== verification/Cmdline.thy ===== *)
theory Cmdline
  imports Proxy_List Engine Download Paths
begin

text \<open>
  The command lines of both programs (\<open>parse_args\<close> and \<open>main\<close> of \<open>src/proxchunkd.cpp\<close>, \<open>main\<close> of
  \<open>src/proxchunk.cpp\<close>) and the one that a client starts the daemon with. What is printed is not
  modelled.
\<close>

text \<open>The outcome of parsing: options, an exit with a code, or undefined behaviour (in \<open>atoi\<close>).\<close>

datatype 'o parsed = Parsed 'o | Exits int | Undefined

fun and_then :: "'o parsed \<Rightarrow> ('o \<Rightarrow> 'p parsed) \<Rightarrow> 'p parsed" where
  "and_then (Parsed x) f = f x"
| "and_then (Exits n) f = Exits n"
| "and_then Undefined f = Undefined"

definition with_atoi :: "string \<Rightarrow> (int \<Rightarrow> 'o) \<Rightarrow> 'o parsed" where
  "with_atoi v f = (case atoi v of Some n \<Rightarrow> Parsed (f n) | None \<Rightarrow> Undefined)"

section \<open>The daemon\<close>

text \<open>\<open>struct Options\<close> of \<open>proxchunkd\<close>, with its default member initializers.\<close>

record daemon_options =
  do_foreground :: bool
  do_stop :: bool
  do_status :: bool
  do_socket :: string
  do_pid :: string
  do_log :: string
  do_proxies :: int
  do_refresh :: int
  do_test_url :: string
  do_cache :: bool
  do_tor :: bool
  do_fetch :: bool
  do_user_list :: bool
  do_debug :: bool
  do_extra :: "string list"
  do_files :: "string list"

definition k_default_test_url :: string where
  "k_default_test_url = ''https://speed.cloudflare.com/__down?bytes=65536''"

definition default_daemon_options :: daemon_options where
  "default_daemon_options =
     \<lparr>do_foreground = False, do_stop = False, do_status = False, do_socket = [], do_pid = [], do_log = [],
      do_proxies = 128, do_refresh = 180, do_test_url = k_default_test_url, do_cache = True, do_tor = True,
      do_fetch = True, do_user_list = True, do_debug = False, do_extra = [], do_files = []\<rparr>"

text \<open>The options without and with a value. \<open>None\<close>: not an option of this kind.\<close>

definition daemon_flag :: "string \<Rightarrow> daemon_options \<Rightarrow> daemon_options option" where
  "daemon_flag a opt =
     (if a = ''--foreground'' then Some (opt\<lparr>do_foreground := True\<rparr>)
      else if a = ''--stop'' then Some (opt\<lparr>do_stop := True\<rparr>)
      else if a = ''--status'' then Some (opt\<lparr>do_status := True\<rparr>)
      else if a = ''--no-cache'' then Some (opt\<lparr>do_cache := False\<rparr>)
      else if a = ''--no-tor'' then Some (opt\<lparr>do_tor := False\<rparr>)
      else if a = ''--no-fetch'' then Some (opt\<lparr>do_fetch := False\<rparr>)
      else if a = ''--no-user-proxies'' then Some (opt\<lparr>do_user_list := False\<rparr>)
      else if a = ''--debug'' then Some (opt\<lparr>do_debug := True\<rparr>)
      else None)"

definition add_proxy :: "string \<Rightarrow> string list \<Rightarrow> string list" where
  "add_proxy v extra =
     (let u = normalize_proxy_line v ''http://'' in if u \<noteq> [] then extra @ [u] else extra)"

definition daemon_value :: "string \<Rightarrow> string \<Rightarrow> daemon_options \<Rightarrow> daemon_options parsed option" where
  "daemon_value a v opt =
     (if a = ''--socket'' then Some (Parsed (opt\<lparr>do_socket := v\<rparr>))
      else if a = ''--pid-file'' then Some (Parsed (opt\<lparr>do_pid := v\<rparr>))
      else if a = ''-p'' \<or> a = ''--proxies'' then Some (with_atoi v (\<lambda>n. opt\<lparr>do_proxies := n\<rparr>))
      else if a = ''-r'' \<or> a = ''--refresh'' then Some (with_atoi v (\<lambda>n. opt\<lparr>do_refresh := n\<rparr>))
      else if a = ''--test-url'' then Some (Parsed (opt\<lparr>do_test_url := v\<rparr>))
      else if a = ''--socks'' then Some (Parsed (opt\<lparr>do_extra := add_proxy v (do_extra opt)\<rparr>))
      else if a = ''--proxy-file'' then Some (Parsed (opt\<lparr>do_files := do_files opt @ [v]\<rparr>))
      else if a = ''--log-file'' then Some (Parsed (opt\<lparr>do_log := v\<rparr>))
      else None)"

text \<open>\<open>parse_args\<close>: first a look at all arguments for help and version, then one option after the other.\<close>

fun parse_daemon_loop :: "string list \<Rightarrow> daemon_options \<Rightarrow> daemon_options parsed" where
  "parse_daemon_loop [] opt = Parsed opt"
| "parse_daemon_loop [a] opt =
     (case daemon_flag a opt of Some opt' \<Rightarrow> Parsed opt' | None \<Rightarrow> Exits 1)"
| "parse_daemon_loop (a # v # args) opt =
     (case daemon_flag a opt of
        Some opt' \<Rightarrow> parse_daemon_loop (v # args) opt'
      | None \<Rightarrow>
          (case daemon_value a v opt of
             Some (Parsed opt') \<Rightarrow> parse_daemon_loop args opt'
           | Some (Exits n) \<Rightarrow> Exits n
           | Some Undefined \<Rightarrow> Undefined
           | None \<Rightarrow> Exits 1))"

definition parse_args :: "string list \<Rightarrow> daemon_options parsed" where
  "parse_args args =
     (if \<exists>a\<in>set args. a = ''-h'' \<or> a = ''--help'' \<or> a = ''-v'' \<or> a = ''--version'' then Exits 0
      else parse_daemon_loop args default_daemon_options)"

text \<open>
  \<open>main\<close> up to the point where it stops, asks for the status, or runs: the checks, and the paths that
  were not given.
\<close>

definition checked_options ::
  "(string \<Rightarrow> string option) \<Rightarrow> (string \<Rightarrow> bool) \<Rightarrow> nat \<Rightarrow> string list \<Rightarrow> daemon_options parsed" where
  "checked_options getenv is_directory uid args =
     and_then (parse_args args) (\<lambda>opt.
       if do_proxies opt < 1 then Exits 1
       else if do_refresh opt < 0 then Exits 1
       else let opt = (if do_socket opt = [] then opt\<lparr>do_socket := default_socket_path getenv is_directory uid\<rparr>
                       else opt);
                opt = (if do_pid opt = []
                       then (let pid = path_join (parent_path (do_socket opt)) ''proxchunkd.pid''
                             in if parent_path pid = [] then opt\<lparr>do_pid := ''proxchunkd.pid''\<rparr>
                                else opt\<lparr>do_pid := pid\<rparr>)
                       else opt);
                opt = (if do_log opt = [] then opt\<lparr>do_log := default_log_path getenv\<rparr> else opt)
            in Parsed opt)"

text \<open>\<open>load_extra_lists\<close>: the files that exist, as their contents; a missing one gives no rows.\<close>

definition list_rows :: "(string \<Rightarrow> string option) \<Rightarrow> string \<Rightarrow> string list" where
  "list_rows files p = load_proxy_file (files p) ''http://''"

definition load_extra_lists ::
  "(string \<Rightarrow> string option) \<Rightarrow> (string \<Rightarrow> string option) \<Rightarrow> daemon_options \<Rightarrow> daemon_options" where
  "load_extra_lists getenv files opt =
     (let extra = (if do_user_list opt
                   then do_extra opt @ list_rows files (default_user_proxy_list_path getenv)
                   else do_extra opt)
      in opt\<lparr>do_extra := extra @ concat (map (list_rows files) (do_files opt))\<rparr>)"

text \<open>
  The configuration \<open>run_server\<close> makes from the options, with the number of processors; \<open>None\<close> is
  overflow. The engine's constructor replaces an empty test URL.
\<close>

definition server_config ::
  "(string \<Rightarrow> string option) \<Rightarrow> nat \<Rightarrow> daemon_options \<Rightarrow> engine_config option" where
  "server_config getenv ncpu opt =
     do {
       inflight \<leftarrow> i32 (int (if ncpu < 1 then 4 else ncpu) * 16);
       Some \<lparr>max_keep = nat (do_proxies opt), max_inflight = max 32 inflight, refresh_sec = do_refresh opt,
         test_url = (if do_test_url opt = [] then k_default_test_url else do_test_url opt),
         cache_path = default_proxy_cache_path getenv, use_cache = do_cache opt, use_tor = do_tor opt,
         fetch_public = do_fetch opt, extra_proxies = do_extra opt\<rparr>
     }"

section \<open>The downloader\<close>

text \<open>The variables of \<open>main\<close> that its options set; the two numbers that have a flag of their own are options.\<close>

record client_options =
  co_url :: string
  co_out :: string
  co_concurrent :: "int option"
  co_chunk_mb :: "int option"
  co_proxies :: "int option"
  co_refresh :: "int option"
  co_limit :: int
  co_direct :: bool
  co_progress :: bool
  co_show :: bool
  co_cache :: bool
  co_tor :: bool
  co_user_list :: bool
  co_extra :: "string list"
  co_files :: "string list"
  co_socket :: string

definition default_client_options :: client_options where
  "default_client_options =
     \<lparr>co_url = [], co_out = [], co_concurrent = None, co_chunk_mb = None, co_proxies = None, co_refresh = None,
      co_limit = 0, co_direct = False, co_progress = True, co_show = False, co_cache = True, co_tor = True,
      co_user_list = True, co_extra = [], co_files = [], co_socket = []\<rparr>"

definition client_flag :: "string \<Rightarrow> client_options \<Rightarrow> client_options option" where
  "client_flag a opt =
     (if a = ''--direct'' then Some (opt\<lparr>co_direct := True\<rparr>)
      else if a = ''--no-progress'' then Some (opt\<lparr>co_progress := False\<rparr>)
      else if a = ''--no-cache'' then Some (opt\<lparr>co_cache := False\<rparr>)
      else if a = ''--show-proxies'' then Some (opt\<lparr>co_show := True\<rparr>)
      else if a = ''--no-tor'' then Some (opt\<lparr>co_tor := False\<rparr>)
      else if a = ''--no-user-proxies'' then Some (opt\<lparr>co_user_list := False\<rparr>)
      else None)"

definition client_value_option :: "string \<Rightarrow> bool" where
  "client_value_option a \<longleftrightarrow>
     a \<in> set [''-o'', ''--output'', ''-c'', ''--concurrent'', ''-s'', ''--chunk-mb'', ''-p'', ''--proxies'', ''-r'', ''--refresh'',
       ''--socket'', ''--limit-mb'', ''--socks'', ''--proxy-file'']"

definition client_value :: "string \<Rightarrow> string \<Rightarrow> client_options \<Rightarrow> client_options parsed" where
  "client_value a v opt =
     (if a = ''-o'' \<or> a = ''--output'' then Parsed (opt\<lparr>co_out := v\<rparr>)
      else if a = ''-c'' \<or> a = ''--concurrent'' then with_atoi v (\<lambda>n. opt\<lparr>co_concurrent := Some n\<rparr>)
      else if a = ''-s'' \<or> a = ''--chunk-mb'' then with_atoi v (\<lambda>n. opt\<lparr>co_chunk_mb := Some n\<rparr>)
      else if a = ''-p'' \<or> a = ''--proxies'' then with_atoi v (\<lambda>n. opt\<lparr>co_proxies := Some n\<rparr>)
      else if a = ''-r'' \<or> a = ''--refresh'' then with_atoi v (\<lambda>n. opt\<lparr>co_refresh := Some n\<rparr>)
      else if a = ''--socket'' then Parsed (opt\<lparr>co_socket := v\<rparr>)
      else if a = ''--limit-mb''
      then (case atoi v of
              None \<Rightarrow> Undefined
            | Some n \<Rightarrow>
                (case Option.bind (i64 (n * 1024)) (\<lambda>k. i64 (k * 1024)) of
                   None \<Rightarrow> Undefined
                 | Some b \<Rightarrow> Parsed (opt\<lparr>co_limit := b\<rparr>)))
      else if a = ''--socks'' then Parsed (opt\<lparr>co_extra := add_proxy v (co_extra opt)\<rparr>)
      else Parsed (opt\<lparr>co_files := co_files opt @ [v]\<rparr>))"

text \<open>The loop over \<open>argv\<close>. Anything that does not start with a dash is the URL; the last one counts.\<close>

function parse_client_loop :: "string list \<Rightarrow> client_options \<Rightarrow> client_options parsed" where
  "parse_client_loop [] opt = Parsed opt"
| "parse_client_loop (a # args) opt =
     (if a = ''-h'' \<or> a = ''--help'' \<or> a = ''-v'' \<or> a = ''--version'' then Exits 0
      else if client_value_option a
      then (case args of
              [] \<Rightarrow> Exits 1
            | v # rest \<Rightarrow> and_then (client_value a v opt) (parse_client_loop rest))
      else (case client_flag a opt of
              Some opt' \<Rightarrow> parse_client_loop args opt'
            | None \<Rightarrow>
                (if a = [] \<or> hd a \<noteq> CHR ''-'' then parse_client_loop args (opt\<lparr>co_url := a\<rparr>)
                 else Exits 1)))"
  by pat_completeness auto
termination by (relation "measure (\<lambda>(args, opt). length args)") auto

text \<open>
  \<open>main\<close>: the prompt, an exit, or a download of a URL into a file. \<open>ncpu\<close> is
  \<open>hardware_concurrency()\<close>.
\<close>

datatype client_action =
  Client_repl
| Client_exit int
| Client_undefined
| Client_download string string run_options client_options

definition chosen_concurrent :: "nat \<Rightarrow> client_options \<Rightarrow> int" where
  "chosen_concurrent ncpu opt =
     (case co_concurrent opt of Some n \<Rightarrow> n | None \<Rightarrow> if ncpu = 0 then 4 else int ncpu)"

definition client_main :: "nat \<Rightarrow> string list \<Rightarrow> client_action" where
  "client_main ncpu args =
     (if ''--repl'' \<in> set args then Client_repl
      else if args = [] then Client_exit 0
      else case parse_client_loop args default_client_options of
        Exits n \<Rightarrow> Client_exit n
      | Undefined \<Rightarrow> Client_undefined
      | Parsed opt \<Rightarrow>
          (let concurrent = chosen_concurrent ncpu opt
           in if co_url opt = [] then Client_exit 0
              else if concurrent < 1 \<or> (case co_proxies opt of Some n \<Rightarrow> n < 1 | None \<Rightarrow> False) then Client_exit 1
              else if (case co_chunk_mb opt of Some n \<Rightarrow> n < 1 | None \<Rightarrow> False) then Client_exit 1
              else if (case co_refresh opt of Some n \<Rightarrow> n < 0 | None \<Rightarrow> False) then Client_exit 1
              else Client_download (co_url opt)
                     (if co_out opt = [] then default_output_name (co_url opt) else co_out opt)
                     \<lparr>max_concurrent = concurrent,
                      chunk_mb = (case co_chunk_mb opt of Some n \<Rightarrow> n | None \<Rightarrow> 0),
                      limit_bytes = co_limit opt, direct = co_direct opt\<rparr> opt))"

text \<open>
  What the client passes on to a daemon it starts. \<open>absolute\<close> is \<open>fs::absolute\<close>; \<open>None\<close> is an error.
\<close>

definition daemon_extra :: "(string \<Rightarrow> string option) \<Rightarrow> client_options \<Rightarrow> string list" where
  "daemon_extra absolute opt =
     (case co_proxies opt of Some n \<Rightarrow> [''-p'', show_int n] | None \<Rightarrow> []) @
     (case co_refresh opt of Some n \<Rightarrow> [''-r'', show_int n] | None \<Rightarrow> []) @
     (if co_cache opt then [] else [''--no-cache'']) @
     (if co_tor opt then [] else [''--no-tor'']) @
     (if co_user_list opt then [] else [''--no-user-proxies'']) @
     concat (map (\<lambda>u. [''--socks'', u]) (co_extra opt)) @
     concat (map (\<lambda>pf. [''--proxy-file'', case absolute pf of Some p \<Rightarrow> p | None \<Rightarrow> pf]) (co_files opt))"

text \<open>The arguments of \<open>ProxyClient::spawn_daemon\<close>, after the program's name.\<close>

definition spawn_args :: "string \<Rightarrow> string list \<Rightarrow> string list" where
  "spawn_args socket_path extra = [''--socket'', socket_path] @ extra"

section \<open>Parsing lemmas\<close>

text \<open>What the downloader's options satisfy whatever the arguments are.\<close>

definition client_ok :: "client_options \<Rightarrow> bool" where
  "client_ok opt \<longleftrightarrow> pred_option in_i32 (co_concurrent opt) \<and> pred_option in_i32 (co_chunk_mb opt) \<and>
     pred_option in_i32 (co_proxies opt) \<and> pred_option in_i32 (co_refresh opt) \<and> in_i64 (co_limit opt) \<and>
     (\<forall>u\<in>set (co_extra opt). proxy_url u)"

lemma atoi_i32: "atoi v = Some n \<Longrightarrow> in_i32 n"
  by (auto simp: atoi_def i32_eq_Some_iff in_i32_def split: option.splits)

lemma add_proxy_urls: "\<forall>u\<in>set extra. proxy_url u \<Longrightarrow> u \<in> set (add_proxy v extra) \<Longrightarrow> proxy_url u"
  using normalize_proxy_line_url [of "''http://''" v] by (auto simp: add_proxy_def Let_def split: if_splits)

fun pred_parsed :: "('o \<Rightarrow> bool) \<Rightarrow> 'o parsed \<Rightarrow> bool" where
  "pred_parsed P (Parsed x) = P x"
| "pred_parsed P (Exits n) = True"
| "pred_parsed P Undefined = True"

lemma pred_parsed_if: "pred_parsed P x \<Longrightarrow> pred_parsed P y \<Longrightarrow> pred_parsed P (if c then x else y)"
  by simp

lemma pred_parsed_atoi: "(\<And>n. in_i32 n \<Longrightarrow> P (f n)) \<Longrightarrow> pred_parsed P (with_atoi v f)"
  by (auto simp: with_atoi_def dest: atoi_i32 split: option.splits)

lemma client_limit_ok:
  "client_ok opt \<Longrightarrow> pred_parsed client_ok
     (case atoi v of None \<Rightarrow> Undefined
      | Some n \<Rightarrow> (case Option.bind (i64 (n * 1024)) (\<lambda>k. i64 (k * 1024)) of
           None \<Rightarrow> Undefined | Some b \<Rightarrow> Parsed (opt\<lparr>co_limit := b\<rparr>)))"
  by (auto simp: client_ok_def i64_def split: option.splits bind_splits)

lemma client_value_ok: "client_ok opt \<Longrightarrow> pred_parsed client_ok (client_value a v opt)"
  unfolding client_value_def
  by (intro pred_parsed_if pred_parsed_atoi client_limit_ok)
    (auto simp: client_ok_def intro: add_proxy_urls)

lemma client_flag_ok: "client_flag a opt = Some opt' \<Longrightarrow> client_ok opt \<Longrightarrow> client_ok opt'"
  by (auto simp: client_flag_def client_ok_def split: if_splits)

lemma parse_client_ok: "parse_client_loop args opt = Parsed opt' \<Longrightarrow> client_ok opt \<Longrightarrow> client_ok opt'"
proof (induction args opt rule: parse_client_loop.induct)
  case (2 a args opt)
  have url: "client_ok (opt\<lparr>co_url := a\<rparr>)" using 2(5) by (simp add: client_ok_def)
  show ?case
  proof (cases "client_value_option a")
    case True
    with 2(4) obtain v rest o1 where "args = v # rest" "client_value a v opt = Parsed o1"
      "parse_client_loop rest o1 = Parsed opt'"
      by (cases args; cases "client_value a (hd args) opt") (auto split: if_splits)
    moreover from this client_value_ok [OF 2(5), of a v] have "client_ok o1" by simp
    ultimately show ?thesis using 2(1) True 2(4) by (auto split: if_splits)
  next
    case False
    with 2 url client_flag_ok show ?thesis by (auto split: if_splits option.splits)
  qed
qed simp

lemma client_main_parsed:
  assumes "client_main ncpu args = Client_download url out ro opt"
  shows "client_ok opt" "url = co_url opt" "url \<noteq> []"
    "out = (if co_out opt = [] then default_output_name url else co_out opt)"
    "ro = \<lparr>max_concurrent = chosen_concurrent ncpu opt, chunk_mb = (case co_chunk_mb opt of Some n \<Rightarrow> n | None \<Rightarrow> 0),
       limit_bytes = co_limit opt, direct = co_direct opt\<rparr>"
    "1 \<le> chosen_concurrent ncpu opt" "pred_option (\<lambda>n. 1 \<le> n) (co_chunk_mb opt)"
    "pred_option (\<lambda>n. 1 \<le> n) (co_proxies opt)" "pred_option (\<lambda>n. 0 \<le> n) (co_refresh opt)"
proof -
  have d: "client_ok default_client_options" by (simp add: client_ok_def default_client_options_def in_i64_def)
  from assms obtain o1 where p: "parse_client_loop args default_client_options = Parsed o1"
    by (auto simp: client_main_def split: if_splits parsed.splits)
  with assms have "o1 = opt" by (auto simp: client_main_def Let_def split: if_splits option.splits)
  with parse_client_ok [OF p d] show "client_ok opt" by simp
  show "url = co_url opt" "url \<noteq> []" "out = (if co_out opt = [] then default_output_name url else co_out opt)"
    "ro = \<lparr>max_concurrent = chosen_concurrent ncpu opt, chunk_mb = (case co_chunk_mb opt of Some n \<Rightarrow> n | None \<Rightarrow> 0),
       limit_bytes = co_limit opt, direct = co_direct opt\<rparr>"
    "1 \<le> chosen_concurrent ncpu opt" "pred_option (\<lambda>n. 1 \<le> n) (co_chunk_mb opt)"
    "pred_option (\<lambda>n. 1 \<le> n) (co_proxies opt)" "pred_option (\<lambda>n. 0 \<le> n) (co_refresh opt)"
    using assms p by (auto simp: client_main_def Let_def not_less split: if_splits option.splits)
qed

section \<open>Properties\<close>

text \<open>
  C17: What a command line can start. Whatever the arguments, a download that \<open>main\<close> starts has a URL
  and an output name, at least one connection, no negative chunk size, and no overflow on the way;
  and for every file below a pebibyte the planner returns chunks that list the bytes to download
  once and in order.
\<close>

theorem client_options_well_typed:
  assumes "client_main ncpu args = Client_download url out ro opt" "int ncpu < 2 ^ 31"
  shows "url \<noteq> [] \<and> out \<noteq> [] \<and> 1 \<le> max_concurrent ro \<and> in_i32 (max_concurrent ro) \<and>
    0 \<le> chunk_mb ro \<and> in_i32 (chunk_mb ro) \<and> in_i64 (limit_bytes ro) \<and>
    (\<forall>info_size. 0 < info_size \<and> info_size \<le> 2 ^ 50 \<longrightarrow>
       (\<exists>chunks. download_plan ro info_size = Some chunks \<and>
          concat (map ch_bytes chunks) = [0..download_size ro info_size - 1]))"
proof -
  note m = client_main_parsed [OF assms(1)]
  have out: "out \<noteq> []" using m(3,4) default_output_name_safe [of url] by (auto simp: safe_component_def)
  have conc: "1 \<le> max_concurrent ro" "in_i32 (max_concurrent ro)"
    using m(1,5,6) assms(2)
    by (auto simp: client_ok_def chosen_concurrent_def in_i32_def split: option.splits)
  have mb: "0 \<le> chunk_mb ro" "in_i32 (chunk_mb ro)"
    using m(1,5,7) by (auto simp: client_ok_def in_i32_def split: option.splits)
  have limit: "in_i64 (limit_bytes ro)" using m(1,5) by (simp add: client_ok_def)
  have "\<exists>chunks. download_plan ro sz = Some chunks \<and> concat (map ch_bytes chunks) = [0..download_size ro sz - 1]"
    if sz: "0 < sz" "sz \<le> 2 ^ 50" for sz
  proof -
    have ds: "0 < download_size ro sz" "download_size ro sz \<le> 2 ^ 50" using sz by (auto simp: download_size_def)
    show ?thesis
    proof (cases "chunk_mb ro > 0")
      case True
      have kib: "in_i64 (chunk_mb ro * 1024)" "in_i64 (chunk_mb ro * 1024 * 1024)"
        using True mb(2) by (auto simp: in_i64_def in_i32_def)
      have "by_size_ok (download_size ro sz) (chunk_mb ro * 1024 * 1024)"
        using ds True mb(2) by (auto simp: by_size_ok_def in_i32_def)
      from plan_chunks_spec [OF this] by_size.bytes_of [OF this] kib True show ?thesis
        by (auto simp: download_plan_def)
    next
      case False
      have "by_count_ok (download_size ro sz) (max_concurrent ro)"
        using ds conc by (auto simp: by_count_ok_def in_i64_def)
      from plan_chunks_n_spec [OF this] by_count.bytes_of [OF this] False show ?thesis
        by (auto simp: download_plan_def)
    qed
  qed
  with m(3) out conc mb limit show ?thesis by blast
qed

definition demo_args :: "string list" where
  "demo_args = [''--limit-mb'', ''2'', ''-c'', ''3'', ''http://h/f.iso'', ''--socks'', ''10.0.0.1:9050'', ''-p'', ''40'', ''--no-tor'']"

definition demo_ro :: run_options where
  "demo_ro = \<lparr>max_concurrent = 3, chunk_mb = 0, limit_bytes = 2097152, direct = False\<rparr>"

definition demo_co :: client_options where
  "demo_co = default_client_options\<lparr>co_url := ''http://h/f.iso'', co_concurrent := Some 3, co_proxies := Some 40,
     co_limit := 2097152, co_tor := False, co_extra := [''http://10.0.0.1:9050'']\<rparr>"

lemma demo_args_parse: "client_main 4 demo_args = Client_download ''http://h/f.iso'' ''f.iso'' demo_ro demo_co"
  unfolding demo_args_def demo_ro_def demo_co_def default_client_options_def by code_simp

lemma client_options_well_typed_witness:
  "\<exists>chunks. download_plan demo_ro 100 = Some chunks \<and> concat (map ch_bytes chunks) = [0..99]"
proof -
  have d: "download_size demo_ro 100 = 100" by (simp add: download_size_def demo_ro_def)
  have "\<forall>sz. 0 < sz \<and> sz \<le> 2 ^ 50 \<longrightarrow> (\<exists>chunks. download_plan demo_ro sz = Some chunks \<and>
      concat (map ch_bytes chunks) = [0..download_size demo_ro sz - 1])"
    using client_options_well_typed [OF demo_args_parse] by simp
  from this [THEN spec [of _ 100]] d show ?thesis by simp
qed

lemma atoi_show_int: "0 \<le> n \<Longrightarrow> in_i32 n \<Longrightarrow> atoi (show_int n) = Some n"
  using strtol10_show_nat [of "[]" "nat n"] by (simp add: atoi_def show_int_def)

lemma daemon_flag_step: "daemon_flag a opt = Some opt' \<Longrightarrow> parse_daemon_loop (a # args) opt = parse_daemon_loop args opt'"
  by (cases args) simp_all

lemma daemon_value_step:
  "daemon_flag a opt = None \<Longrightarrow> daemon_value a v opt = Some (Parsed opt') \<Longrightarrow>
   parse_daemon_loop (a # v # args) opt = parse_daemon_loop args opt'"
  by simp

lemma parse_socks:
  "\<forall>u\<in>set us. proxy_url u \<Longrightarrow>
   parse_daemon_loop (concat (map (\<lambda>u. [''--socks'', u]) us) @ args) opt =
     parse_daemon_loop args (opt\<lparr>do_extra := do_extra opt @ us\<rparr>)"
proof (induction us arbitrary: opt)
  case (Cons u us)
  then have "add_proxy u (do_extra opt) = do_extra opt @ [u]"
    by (auto simp: add_proxy_def Let_def normalize_proxy_url proxy_url_def)
  with Cons show ?case by (simp add: daemon_flag_def daemon_value_def)
qed simp

lemma parse_files:
  "parse_daemon_loop (concat (map (\<lambda>f. [''--proxy-file'', g f]) fs) @ args) opt =
     parse_daemon_loop args (opt\<lparr>do_files := do_files opt @ map g fs\<rparr>)"
  by (induction fs arbitrary: opt) (simp_all add: daemon_flag_def daemon_value_def)

lemma parse_number:
  assumes "pred_option (\<lambda>n. 0 \<le> n \<and> in_i32 n) x"
  shows "parse_daemon_loop ((case x of Some n \<Rightarrow> [''-p'', show_int n] | None \<Rightarrow> []) @ args) opt =
      parse_daemon_loop args (opt\<lparr>do_proxies := case x of Some n \<Rightarrow> n | None \<Rightarrow> do_proxies opt\<rparr>)"
    "parse_daemon_loop ((case x of Some n \<Rightarrow> [''-r'', show_int n] | None \<Rightarrow> []) @ args) opt =
      parse_daemon_loop args (opt\<lparr>do_refresh := case x of Some n \<Rightarrow> n | None \<Rightarrow> do_refresh opt\<rparr>)"
  using assms by (cases x; simp add: daemon_flag_def daemon_value_def with_atoi_def atoi_show_int)+

lemma parse_flag:
  "parse_daemon_loop ((if b then [] else [''--no-cache'']) @ args) opt =
     parse_daemon_loop args (opt\<lparr>do_cache := b \<and> do_cache opt\<rparr>)"
  "parse_daemon_loop ((if b then [] else [''--no-tor'']) @ args) opt =
     parse_daemon_loop args (opt\<lparr>do_tor := b \<and> do_tor opt\<rparr>)"
  "parse_daemon_loop ((if b then [] else [''--no-user-proxies'']) @ args) opt =
     parse_daemon_loop args (opt\<lparr>do_user_list := b \<and> do_user_list opt\<rparr>)"
  by (simp_all add: daemon_flag_step daemon_flag_def)

definition help_word :: "string \<Rightarrow> bool" where
  "help_word a \<longleftrightarrow> a = ''-h'' \<or> a = ''--help'' \<or> a = ''-v'' \<or> a = ''--version''"

lemma proxy_url_no_help: "proxy_url u \<Longrightarrow> \<not> help_word u"
  by (auto simp: proxy_url_def help_word_def scheme_sep_def starts_with_def)

lemma show_int_no_help: "0 \<le> n \<Longrightarrow> \<not> help_word (show_int n)"
  using show_nat_digits [of "nat n"] by (auto simp: show_int_def help_word_def is_digit_def char_code_def)

text \<open>
  C25: The command line of an auto-started daemon. Parsing the arguments with which the client starts
  \<open>proxchunkd\<close> gives the settings of the client's own command line, each where it was set and the
  daemon's default where it was not; in particular a refresh interval that was not given is the
  daemon's 180 seconds.
\<close>

theorem spawned_daemon_options:
  assumes "client_main ncpu args = Client_download url out ro opt" "\<not> help_word sock"
    and "\<forall>f\<in>set (co_files opt). \<exists>p. absolute f = Some (CHR ''/'' # p)"
  shows "parse_args (spawn_args sock (daemon_extra absolute opt)) =
    Parsed (default_daemon_options
      \<lparr>do_socket := sock, do_proxies := (case co_proxies opt of Some n \<Rightarrow> n | None \<Rightarrow> 128),
       do_refresh := (case co_refresh opt of Some n \<Rightarrow> n | None \<Rightarrow> 180), do_cache := co_cache opt,
       do_tor := co_tor opt, do_user_list := co_user_list opt, do_extra := co_extra opt,
       do_files := map (\<lambda>f. the (absolute f)) (co_files opt)\<rparr>)"
proof -
  note m = client_main_parsed [OF assms(1)]
  let ?abs = "\<lambda>pf. case absolute pf of Some p \<Rightarrow> p | None \<Rightarrow> pf"
  have nums: "pred_option (\<lambda>n. 0 \<le> n \<and> in_i32 n) (co_proxies opt)" "pred_option (\<lambda>n. 0 \<le> n \<and> in_i32 n) (co_refresh opt)"
    using m(1,8,9) by (auto simp: client_ok_def pred_option_def)
  have urls: "\<forall>u\<in>set (co_extra opt). proxy_url u" using m(1) by (simp add: client_ok_def)
  have abs: "map ?abs (co_files opt) = map (\<lambda>f. the (absolute f)) (co_files opt)" using assms(3) by fastforce
  have files: "\<not> help_word (?abs f)" if "f \<in> set (co_files opt)" for f
    using assms(3) that by (fastforce simp: help_word_def)
  have lit: "\<not> help_word ''--socket''" "\<not> help_word ''-p''" "\<not> help_word ''-r''" "\<not> help_word ''--no-cache''"
    "\<not> help_word ''--no-tor''" "\<not> help_word ''--no-user-proxies''" "\<not> help_word ''--socks''" "\<not> help_word ''--proxy-file''"
    by (simp_all add: help_word_def)
  have p: "\<forall>a\<in>set (case co_proxies opt of Some n \<Rightarrow> [''-p'', show_int n] | None \<Rightarrow> []). \<not> help_word a"
    using nums(1) lit(2) show_int_no_help by (cases "co_proxies opt") simp_all
  have r: "\<forall>a\<in>set (case co_refresh opt of Some n \<Rightarrow> [''-r'', show_int n] | None \<Rightarrow> []). \<not> help_word a"
    using nums(2) lit(3) show_int_no_help by (cases "co_refresh opt") simp_all
  have x: "\<forall>a\<in>set (concat (map (\<lambda>u. [''--socks'', u]) (co_extra opt))). \<not> help_word a"
    using urls lit(7) proxy_url_no_help by simp
  have f: "\<forall>a\<in>set (concat (map (\<lambda>pf. [''--proxy-file'', ?abs pf]) (co_files opt))). \<not> help_word a"
    using files lit(8) by simp
  have "\<forall>a\<in>set (spawn_args sock (daemon_extra absolute opt)). \<not> help_word a"
    unfolding spawn_args_def daemon_extra_def set_append ball_Un
    using assms(2) p r x f lit by simp
  then have "parse_args (spawn_args sock (daemon_extra absolute opt)) =
    parse_daemon_loop (spawn_args sock (daemon_extra absolute opt)) default_daemon_options"
    unfolding parse_args_def help_word_def [symmetric] by auto
  also have "\<dots> = parse_daemon_loop (daemon_extra absolute opt) (default_daemon_options\<lparr>do_socket := sock\<rparr>)"
    by (simp add: spawn_args_def daemon_flag_def daemon_value_def)
  finally show ?thesis
    using parse_files [of ?abs "co_files opt" "[]"]
    by (simp add: daemon_extra_def parse_number nums parse_flag parse_socks urls abs default_daemon_options_def
        cong: option.case_cong)
qed

lemma spawned_daemon_options_witness:
  "parse_args (spawn_args ''/run/s'' (daemon_extra Some demo_co)) =
     Parsed (default_daemon_options\<lparr>do_socket := ''/run/s'', do_proxies := 40, do_tor := False, do_extra := [''http://10.0.0.1:9050'']\<rparr>)"
proof -
  have "\<not> help_word ''/run/s''" "co_files demo_co = []"
    by (simp_all add: help_word_def demo_co_def default_client_options_def)
  with spawned_daemon_options [OF demo_args_parse, of "''/run/s''" Some] show ?thesis
    by (simp add: demo_co_def default_client_options_def default_daemon_options_def)
qed

end
