(* ===== verification/Startup.thy ===== *)
theory Startup
  imports Cmdline
begin

text \<open>
  Starting and stopping the daemon (\<open>src/proxchunkd.cpp\<close>: \<open>main\<close>, \<open>recover_stale\<close>, the first part of
  \<open>run_server\<close>, \<open>daemonize_and_run\<close>, \<open>cmd_stop\<close>). The state is what these functions see of the
  operating system at the paths of the socket and the pid file; binding, connecting, locking and
  unlinking act on it as POSIX says. Calls that can fail for other reasons have their result in
  \<open>boot_env\<close>.
\<close>

section \<open>The socket and the pid file\<close>

text \<open>
  \<open>os_sock\<close>, \<open>os_pid\<close>: the files exist. \<open>os_listener\<close>: a process listens on the socket file, and
  \<open>os_answers\<close>: it completes \<open>HELLO\<close> and \<open>PING\<close>. \<open>os_lock\<close>: another process has the lock of the pid
  file. \<open>os_mine\<close>: this process listens on the socket file.
\<close>

record os_state =
  os_sock :: bool
  os_listener :: bool
  os_answers :: bool
  os_pid :: bool
  os_lock :: bool
  os_mine :: bool

datatype errno = No_error | ECONNREFUSED | ENOENT | Other_error

record boot_env =
  b_path_fits :: bool
  b_dir :: bool
  b_pid_opens :: bool
  b_binds :: bool
  b_signalfd :: bool
  b_curl :: bool

text \<open>\<open>unix_connect_errno\<close>, \<open>try_ping\<close>, \<open>pidfile_lock_free\<close>.\<close>

definition unix_connect_errno :: "boot_env \<Rightarrow> os_state \<Rightarrow> errno" where
  "unix_connect_errno env s =
     (if \<not> b_path_fits env then Other_error
      else if \<not> os_sock s then ENOENT
      else if os_listener s then No_error
      else ECONNREFUSED)"

definition try_ping :: "boot_env \<Rightarrow> os_state \<Rightarrow> bool" where
  "try_ping env s \<longleftrightarrow> unix_connect_errno env s = No_error \<and> os_answers s"

definition pidfile_lock_free :: "boot_env \<Rightarrow> os_state \<Rightarrow> bool" where
  "pidfile_lock_free env s \<longleftrightarrow> (if \<not> os_pid s \<or> \<not> b_pid_opens env then True else \<not> os_lock s)"

definition unlink_sock :: "os_state \<Rightarrow> os_state" where
  "unlink_sock s = s\<lparr>os_sock := False, os_listener := False, os_mine := False\<rparr>"

definition unlink_pid :: "os_state \<Rightarrow> os_state" where
  "unlink_pid s = s\<lparr>os_pid := False, os_lock := False\<rparr>"

text \<open>\<open>lock_and_write_pid\<close> creates the file, and fails when another process has it locked.\<close>

definition lock_and_write_pid :: "boot_env \<Rightarrow> os_state \<Rightarrow> bool \<times> os_state" where
  "lock_and_write_pid env s =
     (if \<not> b_pid_opens env then (False, s)
      else if os_pid s \<and> os_lock s then (False, s)
      else (True, s\<lparr>os_pid := True\<rparr>))"

text \<open>\<open>bind_listen\<close>: binding to a path that exists is \<open>EADDRINUSE\<close>.\<close>

datatype bind_result = Bound | In_use | Not_bound

definition bind_listen :: "boot_env \<Rightarrow> os_state \<Rightarrow> bind_result \<times> os_state" where
  "bind_listen env s =
     (if \<not> b_path_fits env \<or> \<not> b_binds env then (Not_bound, s)
      else if os_sock s then (In_use, s)
      else (Bound, s\<lparr>os_sock := True, os_listener := True, os_mine := True\<rparr>))"

section \<open>Starting\<close>

text \<open>
  \<open>run_server\<close> up to its poll loop: the byte for the parent, if it exits, with which code, and the
  state. \<open>Served\<close>: it goes on to serve.
\<close>

datatype booted = Served | Boot_exit int

definition server_boot :: "boot_env \<Rightarrow> os_state \<Rightarrow> char \<times> booted \<times> os_state" where
  "server_boot env s =
     (if \<not> b_dir env then (CHR ''E'', Boot_exit 1, s)
      else case lock_and_write_pid env s of (locked, s1) \<Rightarrow>
        if \<not> locked
        then (if try_ping env s1 then (CHR ''R'', Boot_exit 0, s1) else (CHR ''E'', Boot_exit 1, s1))
        else case bind_listen env s1 of (bound, s2) \<Rightarrow>
          if bound \<noteq> Bound
          then (if bound = In_use \<and> try_ping env s2 then (CHR ''R'', Boot_exit 0, s2)
                else (CHR ''E'', Boot_exit 1, unlink_pid s2))
          else if \<not> b_signalfd env then (CHR ''E'', Boot_exit 1, unlink_pid (unlink_sock s2))
          else if \<not> b_curl env then (CHR ''E'', Boot_exit 1, unlink_pid (unlink_sock s2))
          else (CHR ''R'', Served, s2))"

text \<open>\<open>daemonize_and_run\<close>: the exit code of the parent, from the bytes it reads from the daemon.\<close>

definition parent_exit :: "string \<Rightarrow> int" where
  "parent_exit ready = (if length ready \<ge> 1 \<and> ready ! 0 = CHR ''R'' then 0 else 1)"

definition recover_stale :: "boot_env \<Rightarrow> os_state \<Rightarrow> os_state" where
  "recover_stale env s =
     (let ce = unix_connect_errno env s
      in if ce = No_error then s
         else let s = (if ce = ECONNREFUSED \<or> ce = ENOENT then unlink_sock s else s)
              in if pidfile_lock_free env s then unlink_pid s else s)"

text \<open>
  \<open>main\<close> of the daemon, once \<open>--stop\<close> and \<open>--status\<close> are ruled out: its exit code, \<open>None\<close> when it is the
  serving process itself (in the foreground), and whether a server runs in the end.
\<close>

definition daemon_start :: "boot_env \<Rightarrow> daemon_options \<Rightarrow> os_state \<Rightarrow> int option \<times> bool \<times> os_state" where
  "daemon_start env opt s =
     (if try_ping env s then (Some 0, False, s)
      else let s1 = recover_stale env s
           in if unix_connect_errno env s1 = No_error then (Some 0, False, s1)
              else case server_boot env s1 of (byte, res, s2) \<Rightarrow>
                (if do_foreground opt
                 then (case res of Served \<Rightarrow> (None, True, s2) | Boot_exit rc \<Rightarrow> (Some rc, False, s2))
                 else (Some (parent_exit [byte]), res = Served, s2)))"

section \<open>Stopping\<close>

text \<open>\<open>read_pidfile\<close>, from the contents of the file, and \<open>pid_alive\<close>, from the result of \<open>kill(pid, 0)\<close>.\<close>

definition read_pidfile :: "string option \<Rightarrow> int" where
  "read_pidfile content =
     (case Option.bind content strtol10 of
        None \<Rightarrow> 0
      | Some p \<Rightarrow> if \<not> in_i64 p \<or> p \<le> 0 then 0 else (p + 2 ^ 31) mod 2 ^ 32 - 2 ^ 31)"

definition pid_alive :: "int \<Rightarrow> bool \<Rightarrow> bool \<Rightarrow> bool" where
  "pid_alive pid kill_ok no_such_process = (if pid \<le> 0 then False else if kill_ok then True else \<not> no_such_process)"

text \<open>
  \<open>cmd_stop\<close>. \<open>gone i\<close> is whether the daemon is gone at the \<open>i\<close>-th look; \<open>wait_gone\<close> looks every 50 ms.
\<close>

fun wait_gone :: "(nat \<Rightarrow> bool) \<Rightarrow> nat \<Rightarrow> nat \<Rightarrow> bool" where
  "wait_gone gone i 0 = gone i"
| "wait_gone gone i (Suc steps) = (gone i \<or> wait_gone gone (Suc i) steps)"

definition looks_gone :: "int \<Rightarrow> (nat \<Rightarrow> bool) \<Rightarrow> (nat \<Rightarrow> bool) \<Rightarrow> nat \<Rightarrow> bool" where
  "looks_gone pid lives pings i = (if pid > 0 then \<not> lives i else \<not> pings i)"

definition cmd_stop ::
  "boot_env \<Rightarrow> bool \<Rightarrow> (nat \<Rightarrow> bool) \<Rightarrow> os_state \<Rightarrow> int \<times> os_state" where
  "cmd_stop env sent_stop gone s =
     (if sent_stop
      then (if wait_gone gone 0 (max (15000 div 50) 1) then (0, unlink_pid (unlink_sock s)) else (1, s))
      else if pidfile_lock_free env s
      then (let ce = unix_connect_errno env s
            in (0, unlink_pid (if ce = ECONNREFUSED \<or> ce = ENOENT then unlink_sock s else s)))
      else (1, s))"

section \<open>Properties\<close>

lemma wait_gone_iff: "wait_gone gone i steps \<longleftrightarrow> (\<exists>k\<le>steps. gone (i + k))"
proof (induction steps arbitrary: i)
  case (Suc n)
  have "(\<exists>k\<le>Suc n. gone (i + k)) \<longleftrightarrow> gone i \<or> (\<exists>k\<le>n. gone (Suc i + k))"
    by (metis add.right_neutral add_Suc add_Suc_right bot_nat_0.extremum le_Suc_eq not0_implies_Suc Suc_le_mono)
  with Suc show ?case by simp
qed simp


definition good_env :: boot_env where
  "good_env = \<lparr>b_path_fits = True, b_dir = True, b_pid_opens = True, b_binds = True, b_signalfd = True, b_curl = True\<rparr>"

definition stale_files :: os_state where
  "stale_files = \<lparr>os_sock = True, os_listener = False, os_answers = False, os_pid = True, os_lock = False, os_mine = False\<rparr>"


end
