(* ===== verification/Client.thy ===== *)
theory Client
  imports Server Paths
begin

text \<open>
  The client's side of the protocol: \<open>class ProxyClient\<close> (\<open>include/proxchunk/proxy_ipc.hpp\<close>,
  \<open>src/proxy_ipc.cpp\<close>). Its calls on the socket act on a state \<open>'w\<close> of the other side and are the
  record \<open>link\<close>; \<open>daemon_link\<close> is the link to the daemon of this development, through the framing of
  both sides.

  Every operation holds the client's mutex, so it is one step; the keepalive thread takes the mutex
  for its own step, \<open>keepalive_tick\<close>.
\<close>

section \<open>The link\<close>

text \<open>
  \<open>lk_connect\<close>: \<open>socket\<close> and \<open>connect\<close>. \<open>lk_write\<close>: \<open>ipc_write_line\<close> on the connected socket. \<open>lk_read\<close>:
  \<open>ipc_read_line\<close> with a timeout and the unread bytes; it gives the result, the line and the bytes that
  are unread then. \<open>lk_spawn\<close>: \<open>fork\<close>, \<open>exec\<close> and \<open>waitpid\<close> of the daemon.
\<close>

record 'w link =
  lk_connect :: "string \<Rightarrow> 'w \<Rightarrow> bool \<times> 'w"
  lk_close :: "'w \<Rightarrow> 'w"
  lk_write :: "string \<Rightarrow> 'w \<Rightarrow> bool \<times> 'w"
  lk_read :: "nat \<Rightarrow> string \<Rightarrow> 'w \<Rightarrow> ipc_read_result \<times> string \<times> string \<times> 'w"
  lk_spawn :: "string list \<Rightarrow> 'w \<Rightarrow> 'w"

section \<open>The client\<close>

text \<open>The members of \<open>ProxyClient\<close>; whether \<open>fd_\<close> is open is a flag.\<close>

record client =
  cl_fd :: bool
  cl_leftover :: string
  cl_path :: string
  cl_extra :: "string list"
  cl_held :: "string list"

definition new_client :: client where
  "new_client = \<lparr>cl_fd = False, cl_leftover = [], cl_path = [], cl_extra = [], cl_held = []\<rparr>"

definition k_ipc_rpc_timeout_ms :: nat where
  "k_ipc_rpc_timeout_ms = 30000"

text \<open>\<open>sizeof(sun_path)\<close> of Linux.\<close>

definition sun_path_size :: nat where
  "sun_path_size = 108"

text \<open>\<open>close\<close> and \<open>connect\<close>.\<close>

definition reset_fd :: "'w link \<Rightarrow> client \<Rightarrow> 'w \<Rightarrow> client \<times> 'w" where
  "reset_fd lk c w = (c\<lparr>cl_fd := False\<rparr>, if cl_fd c then lk_close lk w else w)"

definition client_close :: "'w link \<Rightarrow> client \<Rightarrow> 'w \<Rightarrow> client \<times> 'w" where
  "client_close lk c w = reset_fd lk (c\<lparr>cl_leftover := []\<rparr>) w"

definition client_connect :: "'w link \<Rightarrow> string \<Rightarrow> client \<Rightarrow> 'w \<Rightarrow> bool \<times> client \<times> 'w" where
  "client_connect lk path c w =
     (case client_close lk c w of (c, w) \<Rightarrow>
        let c = c\<lparr>cl_path := path\<rparr>
        in if length path \<ge> sun_path_size then (False, c, w)
           else case lk_connect lk path w of (ok, w) \<Rightarrow>
             (if ok then (True, c\<lparr>cl_leftover := [], cl_fd := True\<rparr>, w) else (False, c, w)))"

text \<open>\<open>hello\<close>; the keepalive thread it starts is \<open>keepalive_tick\<close> below.\<close>

definition client_hello :: "'w link \<Rightarrow> client \<Rightarrow> 'w \<Rightarrow> bool \<times> client \<times> 'w" where
  "client_hello lk c w =
     (if \<not> cl_fd c then (False, c, w)
      else case lk_write lk ''HELLO 1'' w of (ok, w) \<Rightarrow>
        if \<not> ok then (False, c, w)
        else case lk_read lk 5000 (cl_leftover c) w of (st, reply, leftover, w) \<Rightarrow>
          (st = Line \<and> starts_with reply ''OK 1'', c\<lparr>cl_leftover := leftover\<rparr>, w))"

definition client_reconnect :: "'w link \<Rightarrow> client \<Rightarrow> 'w \<Rightarrow> bool \<times> client \<times> 'w" where
  "client_reconnect lk c w =
     (case reset_fd lk (c\<lparr>cl_leftover := []\<rparr>) w of (c, w) \<Rightarrow>
        let c = c\<lparr>cl_held := []\<rparr>
        in if cl_path c = [] then (False, c, w)
           else case client_connect lk (cl_path c) c w of (ok, c, w) \<Rightarrow>
             (if ok then client_hello lk c w else (False, c, w)))"

text \<open>\<open>rpc\<close>: \<open>once\<close> is one exchange. The result carries the reply.\<close>

definition rpc_once :: "'w link \<Rightarrow> string \<Rightarrow> client \<Rightarrow> 'w \<Rightarrow> bool \<times> string \<times> client \<times> 'w" where
  "rpc_once lk cmd c w =
     (case lk_write lk cmd w of (ok, w) \<Rightarrow>
        if \<not> ok then (False, [], c, w)
        else case lk_read lk k_ipc_rpc_timeout_ms (cl_leftover c) w of (st, reply, leftover, w) \<Rightarrow>
          (st = Line, reply, c\<lparr>cl_leftover := leftover\<rparr>, w))"

definition client_rpc :: "'w link \<Rightarrow> string \<Rightarrow> client \<Rightarrow> 'w \<Rightarrow> bool \<times> string \<times> client \<times> 'w" where
  "client_rpc lk cmd c w =
     (case (if cl_fd c then (True, c, w) else client_reconnect lk c w) of (up, c, w) \<Rightarrow>
        if \<not> up then (False, [], c, w)
        else case rpc_once lk cmd c w of (ok, reply, c, w) \<Rightarrow>
          (if ok then (True, reply, c, w)
           else if cl_held c \<noteq> [] then (False, reply, c, w)
           else case client_reconnect lk c w of (up, c, w) \<Rightarrow>
             (if \<not> up then (False, reply, c, w) else rpc_once lk cmd c w)))"

section \<open>Commands\<close>

definition client_set_target :: "'w link \<Rightarrow> string \<Rightarrow> client \<Rightarrow> 'w \<Rightarrow> int \<times> client \<times> 'w" where
  "client_set_target lk url c w =
     (case client_rpc lk (''TARGET '' @ url) c w of (ok, reply, c, w) \<Rightarrow>
        (if \<not> ok \<or> \<not> starts_with reply ''OK '' then -1
         else case stoi (drop 3 reply) of Some n \<Rightarrow> n | None \<Rightarrow> -1, c, w))"

definition client_ping :: "'w link \<Rightarrow> client \<Rightarrow> 'w \<Rightarrow> bool \<times> client \<times> 'w" where
  "client_ping lk c w =
     (case client_rpc lk ''PING'' c w of (ok, reply, c, w) \<Rightarrow> (ok \<and> reply = ''OK pong'', c, w))"

text \<open>The command line of \<open>acquire\<close>, with the words to skip as long as they fit.\<close>

fun add_skips :: "string \<Rightarrow> string list \<Rightarrow> string" where
  "add_skips cmd [] = cmd"
| "add_skips cmd (u # us) =
     (let cmd = cmd @ sp # u in if length cmd > k_ipc_max_line - 64 then cmd else add_skips cmd us)"

definition acquire_command :: "string list \<Rightarrow> string" where
  "acquire_command skip = (if skip = [] then ''ACQUIRE'' else add_skips ''ACQUIRE skip'' skip)"

text \<open>
  One turn of the loop of \<open>acquire\<close>: \<open>Some r\<close> returns \<open>r\<close>, \<open>None\<close> goes on to the deadline. An acquired
  proxy is its URL and its speed.
\<close>

definition read_mbps :: "string \<Rightarrow> double" where
  "read_mbps s = (case stod s of Some v \<Rightarrow> v | None \<Rightarrow> Fin 0)"

definition acquire_turn ::
  "'w link \<Rightarrow> string \<Rightarrow> client \<Rightarrow> 'w \<Rightarrow> (string \<times> double) option option \<times> client \<times> 'w" where
  "acquire_turn lk cmd c w =
     (case client_rpc lk cmd c w of (io_ok, reply, c, w) \<Rightarrow>
        if \<not> io_ok then (case client_reconnect lk c w of (up, c, w) \<Rightarrow> (None, c, w))
        else let tok = ipc_split reply
             in if length tok \<ge> 3 \<and> tok ! 0 = ''OK''
                then (Some (Some (tok ! 1, read_mbps (tok ! 2))), c\<lparr>cl_held := cl_held c @ [tok ! 1]\<rparr>, w)
                else if find_str ''shutting-down'' reply \<noteq> None then (Some None, c, w)
                else (None, c, w))"

text \<open>\<open>acquire\<close>. \<open>retries\<close> holds the outcomes of the checks of the deadline: whether to try again.\<close>

fun acquire_turns ::
  "'w link \<Rightarrow> string \<Rightarrow> bool list \<Rightarrow> client \<Rightarrow> 'w \<Rightarrow> (string \<times> double) option \<times> client \<times> 'w" where
  "acquire_turns lk cmd retries c w =
     (case acquire_turn lk cmd c w of
        (Some r, c, w) \<Rightarrow> (r, c, w)
      | (None, c, w) \<Rightarrow>
          (case retries of
             True # rest \<Rightarrow> acquire_turns lk cmd rest c w
           | _ \<Rightarrow> (None, c, w)))"

definition client_acquire ::
  "'w link \<Rightarrow> string list \<Rightarrow> bool list \<Rightarrow> client \<Rightarrow> 'w \<Rightarrow> (string \<times> double) option \<times> client \<times> 'w" where
  "client_acquire lk skip retries c w = acquire_turns lk (acquire_command skip) retries c w"

definition release_command :: "string \<Rightarrow> bool \<Rightarrow> double \<Rightarrow> string" where
  "release_command url success mbps =
     ''RELEASE '' @ url @ (if success then '' ok '' else '' fail '') @ stream_double mbps"

definition client_release :: "'w link \<Rightarrow> string \<Rightarrow> bool \<Rightarrow> double \<Rightarrow> client \<Rightarrow> 'w \<Rightarrow> bool \<times> client \<times> 'w" where
  "client_release lk url success mbps c w =
     (case client_rpc lk (release_command url success mbps) c w of (io_ok, reply, c, w) \<Rightarrow>
        (io_ok \<and> starts_with reply ''OK'', c\<lparr>cl_held := erase_one url (cl_held c)\<rparr>, w))"

text \<open>\<open>struct proxy_stats\<close> and \<open>stats\<close>: words without \<open>=\<close>, unknown keys and bad numbers are passed over.\<close>

record proxy_stats =
  st_live :: nat
  st_busy :: nat
  st_top :: double

definition stats_word :: "proxy_stats \<Rightarrow> string \<Rightarrow> proxy_stats" where
  "stats_word s tok =
     (case find_char CHR ''='' tok of
        None \<Rightarrow> s
      | Some eq \<Rightarrow>
          (let key = take eq tok; val = drop (eq + 1) tok
           in if key = ''live'' then (case stoul val of Some n \<Rightarrow> s\<lparr>st_live := n\<rparr> | None \<Rightarrow> s)
              else if key = ''busy'' then (case stoul val of Some n \<Rightarrow> s\<lparr>st_busy := n\<rparr> | None \<Rightarrow> s)
              else if key = ''top_mbps'' then (case stod val of Some v \<Rightarrow> s\<lparr>st_top := v\<rparr> | None \<Rightarrow> s)
              else s))"

definition parse_stats :: "string \<Rightarrow> proxy_stats option" where
  "parse_stats reply =
     (let tok = ipc_split reply
      in if tok = [] \<or> tok ! 0 \<noteq> ''OK'' then None
         else Some (foldl stats_word \<lparr>st_live = 0, st_busy = 0, st_top = Fin 0\<rparr> (tl tok)))"

definition client_stats :: "'w link \<Rightarrow> client \<Rightarrow> 'w \<Rightarrow> proxy_stats option \<times> client \<times> 'w" where
  "client_stats lk c w =
     (case client_rpc lk ''STATS'' c w of (ok, reply, c, w) \<Rightarrow>
        (if \<not> ok then None else parse_stats reply, c, w))"

definition client_stop :: "'w link \<Rightarrow> client \<Rightarrow> 'w \<Rightarrow> bool \<times> client \<times> 'w" where
  "client_stop lk c w =
     (case client_rpc lk ''STOP'' c w of (ok, reply, c, w) \<Rightarrow>
        (ok \<and> find_str ''shutting-down'' reply \<noteq> None, c, w))"

text \<open>The destructor gives every outstanding lease back as a failure, and closes the socket.\<close>

definition farewell :: "'w link \<Rightarrow> string \<Rightarrow> client \<times> 'w \<Rightarrow> client \<times> 'w" where
  "farewell lk url cw =
     (case cw of (c, w) \<Rightarrow>
        case lk_write lk (''RELEASE '' @ url @ '' fail 0'') w of (ok, w) \<Rightarrow>
          (case lk_read lk 500 [] w of (st, reply, leftover, w) \<Rightarrow> (c\<lparr>cl_leftover := leftover\<rparr>, w)))"

definition client_destroy :: "'w link \<Rightarrow> client \<Rightarrow> 'w \<Rightarrow> client \<times> 'w" where
  "client_destroy lk c w =
     (if cl_fd c
      then (case fold (farewell lk) (cl_held c) (c, w) of (c, w) \<Rightarrow> reset_fd lk (c\<lparr>cl_held := []\<rparr>) w)
      else reset_fd lk c w)"

text \<open>The body of the keepalive thread, once it has the mutex.\<close>

definition keepalive_tick :: "'w link \<Rightarrow> client \<Rightarrow> 'w \<Rightarrow> client \<times> 'w" where
  "keepalive_tick lk c w =
     (if \<not> cl_fd c then (c, w)
      else case lk_write lk ''PING'' w of (ok, w) \<Rightarrow>
        (case lk_read lk 2000 (cl_leftover c) w of (st, reply, leftover, w) \<Rightarrow>
           (c\<lparr>cl_leftover := leftover\<rparr>, w)))"

text \<open>
  \<open>connect_or_start\<close>, with the number of turns the deadline leaves. The arguments of \<open>spawn_daemon\<close> are
  the socket and the extra ones; the program is the one beside this one, or found in the path.
\<close>

definition spawn_program :: "string option \<Rightarrow> (string \<Rightarrow> bool) \<Rightarrow> string" where
  "spawn_program exe executable =
     (case exe of
        None \<Rightarrow> ''proxchunkd''
      | Some e \<Rightarrow>
          (let cand = path_join (parent_path e) ''proxchunkd''
           in if executable cand then cand else ''proxchunkd''))"

definition connect_turn :: "'w link \<Rightarrow> client \<Rightarrow> 'w \<Rightarrow> bool \<times> client \<times> 'w" where
  "connect_turn lk c w =
     (case client_connect lk (cl_path c) c w of (ok, c, w) \<Rightarrow>
        if \<not> ok then (False, c, w)
        else case client_hello lk c w of (ok, c, w) \<Rightarrow>
          if \<not> ok then (False, c, w)
          else case lk_write lk ''PING'' w of (ok, w) \<Rightarrow>
            if \<not> ok then (False, c\<lparr>cl_leftover := []\<rparr>, w)
            else case lk_read lk 2000 [] w of (st, reply, leftover, w) \<Rightarrow>
              (st = Line \<and> reply = ''OK pong'', c\<lparr>cl_leftover := leftover\<rparr>, w))"

fun connect_turns :: "'w link \<Rightarrow> nat \<Rightarrow> nat \<Rightarrow> client \<Rightarrow> 'w \<Rightarrow> bool \<times> client \<times> 'w" where
  "connect_turns lk 0 spawns c w = (False, c, w)"
| "connect_turns lk (Suc n) spawns c w =
     (case connect_turn lk c w of
        (True, c, w) \<Rightarrow> (True, c, w)
      | (False, c, w) \<Rightarrow>
          (case client_close lk c w of (c, w) \<Rightarrow>
             if spawns < 2
             then connect_turns lk n (spawns + 1) c
                    (lk_spawn lk ([''--socket'', cl_path c] @ cl_extra c) w)
             else connect_turns lk n spawns c w))"

definition connect_or_start ::
  "'w link \<Rightarrow> string \<Rightarrow> string list \<Rightarrow> nat \<Rightarrow> client \<Rightarrow> 'w \<Rightarrow> bool \<times> client \<times> 'w" where
  "connect_or_start lk path extra turns c w =
     connect_turns lk turns 0 (c\<lparr>cl_path := path, cl_extra := extra\<rparr>) w"

section \<open>The link to the daemon\<close>

text \<open>
  The daemon as the client meets it: the connection it has for the client, its engine, and the bytes it
  has sent that the client has not received. Bytes move in pieces of up to 256, as both sides read
  them.
\<close>

record daemon_peer =
  dp_conn :: conn
  dp_engine :: engine
  dp_out :: string

function pieces :: "string \<Rightarrow> string list" where
  "pieces s = (if s = [] then [] else take 256 s # pieces (drop 256 s))"
  by pat_completeness auto
termination by (relation "measure length") auto

declare pieces.simps [simp del]

fun deliver :: "daemon_env \<Rightarrow> string list \<Rightarrow> conn \<Rightarrow> engine \<Rightarrow> conn \<times> engine" where
  "deliver env [] c e = (c, e)"
| "deliver env (s # ss) c e =
     (case serve_conn env False (Poll_input [(Poll_ready, Recv_data s)]) c e of
        (c', e', stop) \<Rightarrow> deliver env ss c' e')"

definition lines_bytes :: "string list \<Rightarrow> string" where
  "lines_bytes ls = concat (map (\<lambda>l. l @ [nl]) ls)"

definition daemon_connect :: "daemon_peer \<Rightarrow> daemon_peer" where
  "daemon_connect p = p\<lparr>dp_conn := new_conn, dp_out := []\<rparr>"

definition daemon_hangup :: "daemon_env \<Rightarrow> daemon_peer \<Rightarrow> daemon_peer" where
  "daemon_hangup env p =
     (case serve_conn env False Poll_hangup (dp_conn p) (dp_engine p) of
        (c, e, stop) \<Rightarrow> p\<lparr>dp_conn := c, dp_engine := e, dp_out := []\<rparr>)"

definition daemon_write :: "daemon_env \<Rightarrow> string \<Rightarrow> daemon_peer \<Rightarrow> bool \<times> daemon_peer" where
  "daemon_write env cmd p =
     (case framed cmd of
        None \<Rightarrow> (False, p)
      | Some bytes \<Rightarrow>
          (if \<not> c_open (dp_conn p) then (False, p)
           else case deliver env (pieces bytes) (dp_conn p) (dp_engine p) of (c, e) \<Rightarrow>
             (True, p\<lparr>dp_conn := c, dp_engine := e,
                      dp_out := dp_out p @ lines_bytes (drop (length (c_sent (dp_conn p))) (c_sent c))\<rparr>)))"

definition daemon_read :: "string \<Rightarrow> daemon_peer \<Rightarrow> ipc_read_result \<times> string \<times> string \<times> daemon_peer" where
  "daemon_read leftover p =
     (case ipc_read_line True True leftover (map (\<lambda>s. (Poll_ready, Recv_data s)) (pieces (dp_out p))) of
        (st, line, leftover', script) \<Rightarrow> (st, line, leftover', p\<lparr>dp_out := script_data script\<rparr>))"

definition daemon_link :: "daemon_env \<Rightarrow> daemon_peer link" where
  "daemon_link env =
     \<lparr>lk_connect = (\<lambda>path p. (True, daemon_connect p)), lk_close = daemon_hangup env,
      lk_write = daemon_write env, lk_read = (\<lambda>timeout. daemon_read), lk_spawn = (\<lambda>args p. p)\<rparr>"

end
