(* ===== verification/Client_Laws.thy ===== *)
theory Client_Laws
  imports Client Server_Laws
begin

text \<open>
  What the client's operations do when the other side answers. The locale \<open>rpc_link\<close> states what the
  client relies on, one reply per command; inside it each operation is reduced to the answer. The
  daemon of this development provides it, through the framing of both sides.
\<close>

section \<open>The contract of a link\<close>

locale rpc_link =
  fixes lk :: "'w link"
    and ready :: "string \<Rightarrow> 'w \<Rightarrow> bool"
    and answer :: "string \<Rightarrow> 'w \<Rightarrow> string \<times> 'w"
  assumes exchange: "ready cmd w \<Longrightarrow> \<exists>w1. lk_write lk cmd w = (True, w1) \<and>
    lk_read lk timeout [] w1 = (Line, fst (answer cmd w), [], snd (answer cmd w))"
begin

lemma rpc_answer:
  assumes "cl_fd c" "cl_leftover c = []" "ready cmd w"
  shows "client_rpc lk cmd c w = (True, fst (answer cmd w), c, snd (answer cmd w))"
proof -
  from exchange [OF assms(3), of k_ipc_rpc_timeout_ms] obtain w1 where "lk_write lk cmd w = (True, w1)"
    "lk_read lk k_ipc_rpc_timeout_ms [] w1 = (Line, fst (answer cmd w), [], snd (answer cmd w))" by blast
  moreover have "c\<lparr>cl_leftover := []\<rparr> = c" using assms(2) by (cases c) simp
  ultimately show ?thesis using assms(1,2) by (simp add: client_rpc_def rpc_once_def)
qed

lemma keepalive_answer:
  assumes "cl_fd c" "cl_leftover c = []" "ready ''PING'' w"
  shows "keepalive_tick lk c w = (c, snd (answer ''PING'' w))"
proof -
  from exchange [OF assms(3), of 2000] obtain w1 where "lk_write lk ''PING'' w = (True, w1)"
    "lk_read lk 2000 [] w1 = (Line, fst (answer ''PING'' w), [], snd (answer ''PING'' w))" by blast
  moreover have "c\<lparr>cl_leftover := []\<rparr> = c" using assms(2) by (cases c) simp
  ultimately show ?thesis using assms(1,2) by (simp add: keepalive_tick_def)
qed

lemma acquire_answer:
  assumes "cl_fd c" "cl_leftover c = []" "ready (acquire_command skip) w"
    "answer (acquire_command skip) w = (reply, w')"
  shows "client_acquire lk skip [] c w =
    (let tok = ipc_split reply
     in if length tok \<ge> 3 \<and> tok ! 0 = ''OK''
        then (Some (tok ! 1, read_mbps (tok ! 2)), c\<lparr>cl_held := cl_held c @ [tok ! 1]\<rparr>, w')
        else (None, c, w'))"
  using rpc_answer [OF assms(1-3)] assms(4)
  by (simp add: client_acquire_def acquire_turn_def Let_def)

lemma release_answer:
  assumes "cl_fd c" "cl_leftover c = []" "ready (release_command u s v) w"
    "answer (release_command u s v) w = (reply, w')"
  shows "client_release lk u s v c w = (starts_with reply ''OK'', c\<lparr>cl_held := remove1 u (cl_held c)\<rparr>, w')"
  using rpc_answer [OF assms(1-3)] assms(4) by (simp add: client_release_def)

lemma ping_answer:
  assumes "cl_fd c" "cl_leftover c = []" "ready ''PING'' w" "answer ''PING'' w = (reply, w')"
  shows "client_ping lk c w = (reply = ''OK pong'', c, w')"
  using rpc_answer [OF assms(1-3)] assms(4) by (simp add: client_ping_def)

lemma stats_answer:
  assumes "cl_fd c" "cl_leftover c = []" "ready ''STATS'' w" "answer ''STATS'' w = (reply, w')"
  shows "client_stats lk c w = (parse_stats reply, c, w')"
  using rpc_answer [OF assms(1-3)] assms(4) by (simp add: client_stats_def)

lemma target_answer:
  assumes "cl_fd c" "cl_leftover c = []" "ready (''TARGET '' @ url) w" "answer (''TARGET '' @ url) w = (reply, w')"
  shows "client_set_target lk url c w =
    (if starts_with reply ''OK '' then (case stoi (drop 3 reply) of Some n \<Rightarrow> n | None \<Rightarrow> -1) else -1, c, w')"
  using rpc_answer [OF assms(1-3)] assms(4) by (simp add: client_set_target_def)

end

section \<open>The daemon provides it\<close>

definition daemon_answer :: "daemon_env \<Rightarrow> string \<Rightarrow> daemon_peer \<Rightarrow> string \<times> daemon_peer" where
  "daemon_answer env cmd p =
     (case handle_line env False cmd (dp_conn p) (dp_engine p) of
        (r, c, e) \<Rightarrow> (last (c_sent c), p\<lparr>dp_conn := c, dp_engine := e\<rparr>))"

definition daemon_ready :: "daemon_env \<Rightarrow> string \<Rightarrow> daemon_peer \<Rightarrow> bool" where
  "daemon_ready env cmd p \<longleftrightarrow> framable cmd \<and> ipc_split cmd \<noteq> [] \<and> c_open (dp_conn p) \<and> c_buf (dp_conn p) = [] \<and>
     dp_out p = [] \<and> fst (handle_line env False cmd (dp_conn p) (dp_engine p)) = Cmd_ok \<and>
     framable (fst (daemon_answer env cmd p))"

lemma concat_pieces: "concat (pieces s) = s"
  by (induction s rule: pieces.induct) (subst pieces.simps, auto)

lemma pieces_nonempty: "[] \<notin> set (pieces s)"
  by (induction s rule: pieces.induct) (subst pieces.simps, auto)

lemma conn_loop_idle: "c_open c \<Longrightarrow> c_buf c = [] \<Longrightarrow> conn_loop env stopping [] c e = (c, e, False)"
  by (subst conn_loop.simps) (simp add: ipc_read_line_def extract_line_def find_char_def k_ipc_max_line_def Let_def)

lemma serve_partial:
  assumes "c_open c" "nl \<notin> set (c_buf c @ s)" "length (c_buf c @ s) < k_ipc_max_line"
  shows "serve_conn env False (Poll_input [(Poll_ready, Recv_data s)]) c e = (c\<lparr>c_buf := c_buf c @ s\<rparr>, e, False)"
proof -
  have n: "extract_line (c_buf c) = None" "extract_line (c_buf c @ s) = None"
    using assms(2) by (simp_all add: extract_line_None)
  have "ipc_read_line True False (c_buf c) [(Poll_ready, Recv_data s)] = (Again, [], c_buf c @ s, [])"
    using assms(3) by (simp add: ipc_read_line_def n)
  then show ?thesis using assms(1) by (simp add: serve_conn_def conn_loop.simps [of env False "[(Poll_ready, Recv_data s)]"])
qed

lemma serve_last:
  assumes "c_open c" "nl \<notin> set (c_buf c)" "c_buf c @ s = l @ [nl]" "framable l"
    and "handle_line env False l (c\<lparr>c_buf := []\<rparr>) e = (Cmd_ok, c', e')"
  shows "serve_conn env False (Poll_input [(Poll_ready, Recv_data s)]) c e = (c', e', False)"
proof -
  have l: "nl \<notin> set l" "length l < k_ipc_max_line" "strip_cr l = l" using assms(4) by (simp_all add: framable_def)
  have e0: "extract_line (c_buf c) = None" using assms(2) by (simp add: extract_line_None)
  have e1: "extract_line (c_buf c @ s) = Some (l, [])"
    using extract_line_framed [OF l(1), of "[]"] assms(3) l(3) by simp
  have "length (c_buf c) < k_ipc_max_line"
  proof -
    have "length (c_buf c) \<le> length l + 1" using arg_cong [OF assms(3), of length] by simp
    moreover have "c_buf c \<noteq> l @ [nl]" using assms(2) by auto
    then have "s \<noteq> []" using assms(3) by auto
    ultimately show ?thesis using l(2) arg_cong [OF assms(3), of length] by (cases s) auto
  qed
  then have r: "ipc_read_line True False (c_buf c) [(Poll_ready, Recv_data s)] = (Line, l, [], [])"
    using l(2) by (simp add: ipc_read_line_def e0 e1 line_result_def k_ipc_max_line_def)
  have k: "c_buf c' = []" "c_open c'" using handle_line_keeps [OF assms(5)] assms(1) by simp_all
  show ?thesis
    using assms(1,5) r conn_loop_idle [OF k(2,1)]
    by (simp add: serve_conn_def conn_loop.simps [of env False "[(Poll_ready, Recv_data s)]"] Let_def)
qed

lemma deliver_line:
  assumes "c_open c" "nl \<notin> set (c_buf c)" "c_buf c @ concat ss = l @ [nl]" "[] \<notin> set ss" "framable l"
    and "handle_line env False l (c\<lparr>c_buf := []\<rparr>) e = (Cmd_ok, c', e')"
  shows "deliver env ss c e = (c', e')"
  using assms
proof (induction ss arbitrary: c)
  case Nil
  then have "c_buf c = l @ [nl]" by simp
  with Nil(2) show ?case by simp
next
  case (Cons s ss)
  have eq: "(c_buf c @ s) @ concat ss = l @ nl # []" using Cons.prems(3) by simp
  show ?case
  proof (cases "nl \<in> set (c_buf c @ s)")
    case True
    have "nl \<notin> set l" using Cons.prems(5) by (simp add: framable_def)
    from append_framed_split [OF eq True this] obtain m where m: "c_buf c @ s = l @ nl # m" "m @ concat ss = []" by blast
    then have "m = []" "concat ss = []" by simp_all
    then have "ss = []" using Cons.prems(4) by (cases ss) auto
    with serve_last [OF Cons.prems(1,2) _ Cons.prems(5,6)] m \<open>m = []\<close> show ?thesis by simp
  next
    case False
    from append_eq_framed [OF eq this] Cons.prems(5) have "length (c_buf c @ s) < k_ipc_max_line"
      by (auto simp: framable_def)
    from serve_partial [OF Cons.prems(1) False this] Cons.IH [of "c\<lparr>c_buf := c_buf c @ s\<rparr>"] Cons.prems False
    show ?thesis by simp
  qed
qed

lemma handle_line_replies:
  assumes "handle_line env stopping line c e = (r, c', e')" "ipc_split line \<noteq> []"
  shows "\<exists>reply. c_sent c' = c_sent c @ [reply]"
  using assms by (auto simp: handler_defs erase_one_held_def Let_def split: option.splits prod.splits if_splits)

lemma daemon_exchange:
  assumes "daemon_ready env cmd p"
  shows "\<exists>p1. lk_write (daemon_link env) cmd p = (True, p1) \<and>
    lk_read (daemon_link env) timeout [] p1 = (Line, fst (daemon_answer env cmd p), [], snd (daemon_answer env cmd p))"
proof -
  obtain c e where h: "handle_line env False cmd (dp_conn p) (dp_engine p) = (Cmd_ok, c, e)"
    using assms by (auto simp: daemon_ready_def) (metis fst_conv prod_cases3)
  have a: "framable cmd" "ipc_split cmd \<noteq> []" "c_open (dp_conn p)" "c_buf (dp_conn p) = []" "dp_out p = []"
    using assms by (simp_all add: daemon_ready_def)
  obtain reply where r: "c_sent c = c_sent (dp_conn p) @ [reply]" using handle_line_replies [OF h a(2)] by blast
  have ans: "daemon_answer env cmd p = (reply, p\<lparr>dp_conn := c, dp_engine := e\<rparr>)" by (simp add: daemon_answer_def h r)
  then have f: "framable reply" using assms by (simp add: daemon_ready_def)
  have same: "(dp_conn p)\<lparr>c_buf := []\<rparr> = dp_conn p" using a(4) by (cases "dp_conn p") simp
  have "deliver env (pieces (cmd @ [nl])) (dp_conn p) (dp_engine p) = (c, e)"
    using deliver_line [of "dp_conn p" "pieces (cmd @ [nl])" cmd env "dp_engine p" c e] a h
    by (simp add: concat_pieces pieces_nonempty same)
  then have w: "daemon_write env cmd p = (True, p\<lparr>dp_conn := c, dp_engine := e, dp_out := reply @ [nl]\<rparr>)"
    using a r by (simp add: daemon_write_def framed_framable lines_bytes_def)
  let ?script = "map (\<lambda>s. (Poll_ready, Recv_data s)) (pieces (reply @ [nl]))"
  have d: "script_data (map (\<lambda>s. (Poll_ready, Recv_data s)) ss) = concat ss" for ss by (induction ss) simp_all
  have "\<exists>leftover' script'. ipc_read_line True True [] ?script = (Line, strip_cr reply, leftover', script') \<and>
      leftover' @ script_data script' = [] \<and> set script' \<subseteq> set ?script"
    using f by (intro read_line_framed) (auto simp: d concat_pieces framable_def)
  then obtain script' where "ipc_read_line True True [] ?script = (Line, reply, [], script')" "script_data script' = []"
    using f by (auto simp: framable_def)
  then have "daemon_read [] (p\<lparr>dp_conn := c, dp_engine := e, dp_out := reply @ [nl]\<rparr>) =
      (Line, reply, [], p\<lparr>dp_conn := c, dp_engine := e\<rparr>)"
    using a(5) by (cases p) (simp add: daemon_read_def)
  with w ans show ?thesis by (simp add: daemon_link_def)
qed

interpretation daemon_rpc: rpc_link "daemon_link env" "daemon_ready env" "daemon_answer env" for env
  by unfold_locales (rule daemon_exchange)

end
