(* ===== verification/Cpp_Number_Laws.thy ===== *)
theory Cpp_Number_Laws
  imports Cpp_Number
begin

text \<open>
  What the numbers of \<open>Cpp_Number\<close> and \<open>Double\<close> mean: the logarithms that fix the digits and the last bit
  are right, rounding is close, and a speed that a stream prints with six digits is read back by
  \<open>stod\<close> with an error of at most one part in \<open>10 ^ 5\<close>.
\<close>

section \<open>Logarithms\<close>

lemma pow2_powi: "pow2 e = 2 powi e"
  by (simp add: pow2_def power_int_def inverse_eq_divide power_one_over)

lemma pow10_powi: "pow10 e = 10 powi e"
  by (simp add: pow10_def power_int_def inverse_eq_divide power_one_over)

lemma pow10_pos [simp]: "0 < pow10 e"
  by (simp add: pow10_powi)

lemma pow10_nonneg [simp]: "0 \<le> pow10 e" "0 \<le> dbl_ulp x"
  by (simp_all add: less_imp_le)

lemma pow10_add: "pow10 (a + b) = pow10 a * pow10 b"
  by (simp add: pow10_powi power_int_add)

lemma pow2_add: "pow2 (a + b) = pow2 a * pow2 b"
  by (simp add: pow2_powi power_int_add)

lemma pow10_nat [simp]: "pow10 (int n) = 10 ^ n"
  by (simp add: pow10_def)

lemma pow2_nat [simp]: "pow2 (int n) = 2 ^ n"
  by (simp add: pow2_def)

lemma nat_log10_bounds: "0 < n \<Longrightarrow> 10 ^ nat_log10 n \<le> n \<and> n < 10 ^ Suc (nat_log10 n)"
proof (induction n rule: nat_log10.induct)
  case (1 n)
  show ?case
  proof (cases "n < 10")
    case True
    then show ?thesis using 1 by (simp add: nat_log10.simps [of n])
  next
    case False
    then have "10 ^ nat_log10 (n div 10) \<le> n div 10 \<and> n div 10 < 10 ^ Suc (nat_log10 (n div 10))"
      using 1 by simp
    then show ?thesis using False by (simp add: nat_log10.simps [of n]) linarith
  qed
qed

lemma nat_log2_bounds: "0 < n \<Longrightarrow> 2 ^ nat_log2 n \<le> n \<and> n < 2 ^ Suc (nat_log2 n)"
proof (induction n rule: nat_log2.induct)
  case (1 n)
  show ?case
  proof (cases "n < 2")
    case True
    then show ?thesis using 1 by (simp add: nat_log2.simps [of n])
  next
    case False
    then have "2 ^ nat_log2 (n div 2) \<le> n div 2 \<and> n div 2 < 2 ^ Suc (nat_log2 (n div 2))"
      using 1 by simp
    then show ?thesis using False by (simp add: nat_log2.simps [of n]) linarith
  qed
qed

lemma nat_log10_cast:
  assumes "0 < n"
  shows "(10::rat) ^ nat_log10 n \<le> of_nat n \<and> of_nat n < (10::rat) ^ Suc (nat_log10 n)"
proof -
  have "of_nat (10 ^ nat_log10 n) \<le> (of_nat n :: rat) \<and> (of_nat n :: rat) < of_nat (10 ^ Suc (nat_log10 n))"
    using nat_log10_bounds [OF assms] by (simp only: of_nat_le_iff of_nat_less_iff)
  then show ?thesis by simp
qed

lemma nat_log2_cast:
  assumes "0 < n"
  shows "(2::rat) ^ nat_log2 n \<le> of_nat n \<and> of_nat n < (2::rat) ^ Suc (nat_log2 n)"
proof -
  have "of_nat (2 ^ nat_log2 n) \<le> (of_nat n :: rat) \<and> (of_nat n :: rat) < of_nat (2 ^ Suc (nat_log2 n))"
    using nat_log2_bounds [OF assms] by (simp only: of_nat_le_iff of_nat_less_iff)
  then show ?thesis by simp
qed

text \<open>The quotient of two numbers between powers of a base.\<close>

lemma quotient_bounds:
  fixes b :: rat
  assumes "1 < b" "b ^ lp \<le> p" "p < b ^ Suc lp" "b ^ lq \<le> q" "q < b ^ Suc lq"
  shows "b powi (int lp - int lq - 1) \<le> p / q" "p / q < b powi (int lp - int lq + 1)"
proof -
  have b: "0 < b" using assms(1) by simp
  then have "0 < b ^ lp" "0 < b ^ lq" by simp_all
  then have p: "0 \<le> p" and q: "0 < q" using assms(2,4) by linarith+
  have "b powi (int lp - int lq - 1) = b ^ lp / b ^ Suc lq"
    using b by (simp add: power_int_diff power_int_add divide_simps)
  also have "\<dots> \<le> p / q" using assms b p q by (intro frac_le) simp_all
  finally show "b powi (int lp - int lq - 1) \<le> p / q" .
  have "p / q < b ^ Suc lp / b ^ lq" using assms b p q by (intro frac_less) simp_all
  also have "\<dots> = b powi (int lp - int lq + 1)"
    using b by (simp add: power_int_diff power_int_add divide_simps)
  finally show "p / q < b powi (int lp - int lq + 1)" .
qed

lemma rat_log10_bounds:
  assumes "0 < x"
  shows "pow10 (rat_log10 x) \<le> x" "x < pow10 (rat_log10 x + 1)"
proof -
  obtain p q where pq: "quotient_of x = (p, q)" by fastforce
  then have x: "x = of_int p / of_int q" and q: "0 < q" by (simp_all add: quotient_of_div quotient_of_denom_pos)
  then have p: "0 < p" using assms by (simp add: zero_less_divide_iff)
  let ?k = "int (nat_log10 (nat p)) - int (nat_log10 (nat q))"
  have cast: "(10::rat) ^ nat_log10 (nat n) \<le> of_int n \<and> of_int n < (10::rat) ^ Suc (nat_log10 (nat n))" if "0 < n" for n
    using that nat_log10_cast [of "nat n"] by simp
  have "pow10 (?k - 1) \<le> x" "x < pow10 (?k + 1)"
    unfolding pow10_powi x using cast [OF p] cast [OF q] by (intro quotient_bounds; simp)+
  then show "pow10 (rat_log10 x) \<le> x" "x < pow10 (rat_log10 x + 1)"
    by (auto simp: rat_log10_def pq Let_def)
qed

lemma rat_log2_bounds:
  assumes "0 < x"
  shows "pow2 (rat_log2 x) \<le> x" "x < pow2 (rat_log2 x + 1)"
proof -
  obtain p q where pq: "quotient_of x = (p, q)" by fastforce
  then have x: "x = of_int p / of_int q" and q: "0 < q" by (simp_all add: quotient_of_div quotient_of_denom_pos)
  then have p: "0 < p" using assms by (simp add: zero_less_divide_iff)
  let ?k = "int (nat_log2 (nat p)) - int (nat_log2 (nat q))"
  have cast: "(2::rat) ^ nat_log2 (nat n) \<le> of_int n \<and> of_int n < (2::rat) ^ Suc (nat_log2 (nat n))" if "0 < n" for n
    using that nat_log2_cast [of "nat n"] by simp
  have "pow2 (?k - 1) \<le> x" "x < pow2 (?k + 1)"
    unfolding pow2_powi x using cast [OF p] cast [OF q] by (intro quotient_bounds; simp)+
  then show "pow2 (rat_log2 x) \<le> x" "x < pow2 (rat_log2 x + 1)"
    by (auto simp: rat_log2_def pq Let_def)
qed

section \<open>Digits\<close>

lemma length_show_nat: "n < 10 ^ k \<Longrightarrow> 0 < k \<Longrightarrow> length (show_nat n) \<le> k"
proof (induction k arbitrary: n)
  case (Suc k)
  show ?case
  proof (cases "n < 10")
    case True
    then show ?thesis by (subst show_nat.simps) simp
  next
    case False
    then have "0 < k" using Suc.prems by (cases k) auto
    moreover have "n div 10 < 10 ^ k" using Suc.prems(1) by (simp add: less_mult_imp_div_less)
    ultimately have "length (show_nat (n div 10)) \<le> k" using Suc.IH by blast
    then show ?thesis using False by (subst show_nat.simps) simp
  qed
qed simp

lemma digits_val_append: "digits_val (xs @ ys) = digits_val xs * 10 ^ length ys + digits_val ys"
proof -
  have "foldl (\<lambda>n c. 10 * n + digit_val c) a ys = a * 10 ^ length ys + digits_val ys" for a
    unfolding digits_val_def
  proof (induction ys rule: rev_induct)
    case (snoc c ys)
    then show ?case by (simp only: foldl_append foldl_Cons foldl_Nil length_append_singleton power_Suc) (simp add: algebra_simps)
  qed simp
  then show ?thesis unfolding digits_val_def [of "xs @ ys"] digits_val_def [of xs] by (simp only: foldl_append)
qed

lemma digits_val_Nil [simp]: "digits_val [] = 0"
  by (simp add: digits_val_def)

lemma digits_val_zeros [simp]: "digits_val (replicate k CHR ''0'') = 0"
  by (induction k) (simp_all add: digits_val_def digit_val_def char_code_def)

lemma digits_val_pad_left [simp]: "digits_val (pad_left w s) = digits_val s"
  by (simp add: pad_left_def digits_val_append)

lemma is_digit_zero [simp]: "is_digit CHR ''0''"
  by (simp add: is_digit_def char_code_def)

lemma pad_left_digits: "\<forall>c\<in>set s. is_digit c \<Longrightarrow> \<forall>c\<in>set (pad_left w s). is_digit c"
  by (auto simp: pad_left_def)

lemma length_pad_left: "length s \<le> w \<Longrightarrow> length (pad_left w s) = w"
  by (simp add: pad_left_def)

text \<open>A fraction without its trailing zeros.\<close>

definition stripped :: "string \<Rightarrow> string" where
  "stripped ds = rev (dropWhile (\<lambda>c. c = CHR ''0'') (rev ds))"

lemma strip_fraction_stripped: "strip_fraction ds = (if stripped ds = [] then [] else CHR ''.'' # stripped ds)"
  by (simp add: strip_fraction_def stripped_def Let_def)

lemma stripped_zeros: "\<exists>k. ds = stripped ds @ replicate k CHR ''0''"
proof -
  let ?z = "takeWhile (\<lambda>c. c = CHR ''0'') (rev ds)"
  have "rev ds = ?z @ rev (stripped ds)" by (simp add: stripped_def)
  then have "ds = stripped ds @ rev ?z" by (metis rev_append rev_rev_ident)
  moreover have "?z = replicate (length ?z) CHR ''0''"
    by (rule replicate_length_same [symmetric]) (auto dest: set_takeWhileD)
  ultimately show ?thesis by (metis rev_replicate)
qed

lemma stripped_digits: "\<forall>c\<in>set ds. is_digit c \<Longrightarrow> \<forall>c\<in>set (stripped ds). is_digit c"
  by (auto simp: stripped_def dest: set_dropWhileD)

lemma stripped_value:
  "of_nat (digits_val (a @ stripped ds)) * pow10 (ex - int (length (stripped ds))) =
   of_nat (digits_val (a @ ds)) * pow10 (ex - int (length ds))"
proof -
  obtain k where k: "ds = stripped ds @ replicate k CHR ''0''" using stripped_zeros by blast
  let ?t = "stripped ds"
  have "digits_val (a @ ds) = digits_val ((a @ ?t) @ replicate k CHR ''0'')" using k by simp
  also have "\<dots> = digits_val (a @ ?t) * 10 ^ k" by (subst digits_val_append) simp
  finally have v: "(of_nat (digits_val (a @ ds)) :: rat) = of_nat (digits_val (a @ ?t)) * pow10 (int k)" by simp
  have "length ds = length ?t + k" using arg_cong [OF k, of length] by simp
  then have "pow10 (ex - int (length ?t)) = pow10 (int k) * pow10 (ex - int (length ds))"
    using pow10_add [of "int k" "ex - int (length ds)"] by simp
  then show ?thesis using v by simp
qed

section \<open>Reading what was printed\<close>

definition numeric :: "string \<Rightarrow> bool" where
  "numeric s \<longleftrightarrow> (\<forall>c\<in>set s. is_digit c \<or> c \<in> {CHR ''.'', CHR ''e'', CHR ''+'', CHR ''-''})"

lemma to_lower_digit: "is_digit c \<Longrightarrow> to_lower c = c"
  by (simp add: to_lower_def is_digit_def)

lemma not_special:
  assumes "numeric s" "s = d # t" "is_digit d"
  shows "\<not> starts_with_ci s ''inf''" "\<not> starts_with_ci s ''nan''" "\<not> starts_with_ci s ''0x''"
proof -
  have d: "to_lower d = d" "d \<noteq> CHR ''i''" "d \<noteq> CHR ''n''" using assms(3) to_lower_digit by (auto simp: is_digit_def char_code_def)
  then show "\<not> starts_with_ci s ''inf''" "\<not> starts_with_ci s ''nan''" by (simp_all add: assms(2) starts_with_ci_def)
  have "to_lower c \<noteq> CHR ''x''" if "c \<in> set s" for c
    using assms(1) that to_lower_digit by (auto simp: numeric_def to_lower_def char_code_def is_digit_def)
  then show "\<not> starts_with_ci s ''0x''" by (cases t) (simp_all add: assms(2) starts_with_ci_def)
qed

lemma split_printed:
  assumes "\<forall>c\<in>set ds. is_digit c" "rest = [] \<or> hd rest = CHR ''e''"
  shows "split_mantissa is_digit (show_nat a @ strip_fraction ds @ rest) = Some (show_nat a, stripped ds, rest)"
proof -
  have nd: "\<not> is_digit CHR ''.''" "\<not> is_digit CHR ''e''" by (simp_all add: is_digit_def char_code_def)
  have a: "takeWhile is_digit (show_nat a @ u) = show_nat a" "dropWhile is_digit (show_nat a @ u) = u"
    if "u = [] \<or> \<not> is_digit (hd u)" for u
  proof -
    show "takeWhile is_digit (show_nat a @ u) = show_nat a" by (rule takeWhile_digits_show_nat [OF that])
    show "dropWhile is_digit (show_nat a @ u) = u"
      using show_nat_digits [of a] that by (cases u) (auto simp: dropWhile_append)
  qed
  have t: "takeWhile is_digit (stripped ds @ rest) = stripped ds" "dropWhile is_digit (stripped ds @ rest) = rest"
    using stripped_digits [OF assms(1)] assms(2) nd by (cases rest; simp add: takeWhile_append dropWhile_append)+
  show ?thesis
  proof (cases "stripped ds = []")
    case True
    have "rest = [] \<or> \<not> is_digit (hd rest)" using assms(2) nd by auto
    from a [OF this] True assms(2) show ?thesis by (auto simp: split_mantissa_def strip_fraction_stripped)
  next
    case False
    have "CHR ''.'' # stripped ds @ rest = [] \<or> \<not> is_digit (hd (CHR ''.'' # stripped ds @ rest))" using nd by simp
    from a [OF this] False t show ?thesis by (simp add: split_mantissa_def strip_fraction_stripped)
  qed
qed

lemma strtod_printed:
  assumes "\<forall>c\<in>set ds. is_digit c" "rest = [] \<or> hd rest = CHR ''e''" "numeric rest"
  shows "strtod_mag (show_nat a @ strip_fraction ds @ rest) =
    Some (Inl (of_nat (a * 10 ^ length ds + digits_val ds) * pow10 (exponent_part CHR ''e'' rest - int (length ds))))"
proof -
  let ?s = "show_nat a @ strip_fraction ds @ rest"
  obtain d t where s: "show_nat a = d # t" by (cases "show_nat a") auto
  then have d: "is_digit d" using show_nat_digits [of a] by simp
  have "numeric ?s"
    using assms stripped_digits [OF assms(1)] show_nat_digits [of a] by (auto simp: numeric_def strip_fraction_stripped)
  from not_special [OF this _ d] s
  have "\<not> starts_with_ci ?s ''inf''" "\<not> starts_with_ci ?s ''nan''" "\<not> starts_with_ci ?s ''0x''" by simp_all
  then show ?thesis
    using stripped_value [of "show_nat a" ds "exponent_part CHR ''e'' rest"]
    by (simp add: strtod_mag_def split_printed [OF assms(1,2)] digits_val_append)
qed

lemma exponent_printed:
  "exponent_part CHR ''e'' ((if e < 0 then ''e-'' else ''e+'') @ pad_left 2 (show_nat (nat \<bar>e\<bar>))) = e"
proof -
  have "takeWhile is_digit (pad_left 2 (show_nat n)) = pad_left 2 (show_nat n)" for n
    by (rule takeWhile_all) (rule pad_left_digits [OF show_nat_digits])
  note tw = this
  have "to_lower CHR ''e'' = CHR ''e''" by (simp add: to_lower_def char_code_def)
  then show ?thesis by (simp add: exponent_part_def Let_def tw)
qed

text \<open>The value a stream prints for a positive number, with six digits.\<close>

definition printed_value :: "rat \<Rightarrow> rat" where
  "printed_value q = of_int (round_even (q * pow10 (5 - rat_log10 q))) * pow10 (rat_log10 q - 5)"

lemma mod_digits: "\<forall>c\<in>set (pad_left w (show_nat n)). is_digit c"
  by (rule pad_left_digits [OF show_nat_digits])

lemma strtod_stream:
  assumes "0 < q"
  shows "strtod_mag (stream_double (Fin q)) = Some (Inl (printed_value q))"
proof -
  define e0 where "e0 = rat_log10 q"
  define m0 where "m0 = nat (round_even (q * pow10 (5 - e0)))"
  define e where "e = (if m0 = 1000000 then e0 + 1 else e0)"
  define m where "m = (if m0 = 1000000 then 100000 else m0)"
  have m0: "of_int (round_even (q * pow10 (5 - e0))) = (of_nat m0 :: rat)"
    unfolding m0_def using assms by (simp add: round_even_nonneg less_imp_le)
  have v: "printed_value q = of_nat m * pow10 (e - 5)"
  proof -
    have "pow10 (e0 + 1 - 5) = pow10 1 * pow10 (e0 - 5)" by (simp flip: pow10_add)
    then show ?thesis using m0 by (simp add: printed_value_def e_def m_def e0_def [symmetric] pow10_def [of 1])
  qed
  have num: "numeric ((if e < 0 then ''e-'' else ''e+'') @ pad_left 2 (show_nat (nat \<bar>e\<bar>)))"
    using mod_digits by (auto simp: numeric_def)
  show ?thesis
  proof (cases "-4 \<le> e \<and> e < 6")
    case True
    let ?d = "nat (5 - e)" let ?ds = "if ?d = 0 then [] else pad_left ?d (show_nat (m mod 10 ^ ?d))"
    have len: "length ?ds = ?d" by (auto intro!: length_pad_left length_show_nat)
    have "digits_val ?ds = m mod 10 ^ ?d" by (cases "?d = 0") simp_all
    then have val: "m div 10 ^ ?d * 10 ^ length ?ds + digits_val ?ds = m" by (simp only: len div_mult_mod_eq)
    have "stream_double (Fin q) = show_nat (m div 10 ^ ?d) @ strip_fraction ?ds @ []"
      using assms True by (auto simp: stream_double_def Let_def e_def m_def m0_def e0_def split: if_splits)
    moreover have "\<forall>c\<in>set ?ds. is_digit c" using mod_digits by auto
    then have "strtod_mag (show_nat (m div 10 ^ ?d) @ strip_fraction ?ds @ []) =
        Some (Inl (of_nat m * pow10 (0 - int ?d)))"
      using strtod_printed [of ?ds "[]" "m div 10 ^ ?d", unfolded val, unfolded len]
      by (simp add: exponent_part_def numeric_def)
    ultimately show ?thesis using v True by simp
  next
    case False
    let ?ds = "pad_left 5 (show_nat (m mod 100000))"
    have len: "length ?ds = 5" by (intro length_pad_left length_show_nat) simp_all
    have val: "m div 100000 * 10 ^ length ?ds + digits_val ?ds = m" unfolding len by simp
    let ?ex = "(if e < 0 then ''e-'' else ''e+'') @ pad_left 2 (show_nat (nat \<bar>e\<bar>))"
    have "?ex = [] \<or> hd ?ex = CHR ''e''" by simp
    from strtod_printed [OF mod_digits this num]
    have "strtod_mag (show_nat (m div 100000) @ strip_fraction ?ds @ ?ex) =
        Some (Inl (of_nat (m div 100000 * 10 ^ length ?ds + digits_val ?ds) * pow10 (e - int (length ?ds))))"
      unfolding exponent_printed .
    then have "strtod_mag (show_nat (m div 100000) @ strip_fraction ?ds @ ?ex) = Some (Inl (of_nat m * pow10 (e - 5)))"
      unfolding val unfolding len by simp
    moreover have "stream_double (Fin q) = show_nat (m div 100000) @ strip_fraction ?ds @ ?ex"
      using assms False by (auto simp: stream_double_def Let_def e_def m_def m0_def e0_def split: if_splits)
    ultimately show ?thesis using v by simp
  qed
qed

section \<open>Accuracy\<close>

lemma round_even_close: "\<bar>of_int (round_even x) - x\<bar> \<le> (1 :: rat) / 2"
proof -
  have "of_int \<lfloor>x\<rfloor> \<le> x" "x < of_int \<lfloor>x\<rfloor> + 1" using floor_correct [of x] by auto
  then show ?thesis unfolding round_even_def Let_def abs_if by (simp split: if_splits) linarith
qed

lemma pow2_mono: "a \<le> b \<Longrightarrow> pow2 a \<le> pow2 b"
  unfolding pow2_powi by (rule power_int_increasing) simp_all

lemma dbl_ulp_le:
  assumes "pow2 (-1022) \<le> x"
  shows "dbl_ulp x \<le> x / 2 ^ 52"
proof -
  have pos: "0 < x" using assms pow2_pos [of "-1022"] by (rule less_le_trans [rotated])
  note b = rat_log2_bounds [OF pos]
  have "-1022 \<le> rat_log2 x"
  proof (rule ccontr)
    assume "\<not> -1022 \<le> rat_log2 x"
    then have "pow2 (rat_log2 x + 1) \<le> pow2 (-1022)" by (intro pow2_mono) simp
    with b(2) assms show False by linarith
  qed
  then have "dbl_ulp x = pow2 (rat_log2 x - 52)" using pos by (simp add: dbl_ulp_def)
  also have "\<dots> = pow2 (rat_log2 x) / 2 ^ 52" by (simp add: pow2_powi power_int_diff)
  finally show ?thesis using b(1) by (simp add: divide_right_mono)
qed

lemma dbl_round_close:
  assumes "pow2 (-1022) \<le> x" "2 * x < pow2 1024"
  shows "\<exists>y. dbl_round x = Fin y \<and> \<bar>y - x\<bar> \<le> x / 2 ^ 53"
proof -
  have pos: "0 < x" using assms(1) pow2_pos [of "-1022"] by (rule less_le_trans [rotated])
  obtain y where y: "dbl_round x = Fin y" using dbl_round_le_double [OF less_imp_le [OF pos] assms(2)] by blast
  let ?u = "dbl_ulp x" let ?m = "of_int (round_even (x / ?u)) :: rat"
  have "y = ?m * ?u" using y pos by (auto simp: dbl_round_def Let_def split: if_splits)
  then have "y - x = (?m - x / ?u) * ?u" using less_imp_neq [OF dbl_ulp_pos [of x]] by (simp add: left_diff_distrib)
  then have "\<bar>y - x\<bar> = \<bar>?m - x / ?u\<bar> * ?u" using less_imp_le [OF dbl_ulp_pos [of x]] by (simp add: abs_mult)
  also have "\<dots> \<le> 1 / 2 * ?u" using round_even_close [of "x / ?u"] dbl_ulp_pos [of x] by (intro mult_right_mono) simp_all
  also have "\<dots> \<le> 1 / 2 * (x / 2 ^ 52)" using dbl_ulp_le [OF assms(1)] by (intro mult_left_mono) simp_all
  finally show ?thesis using y by simp
qed

lemma printed_value_close:
  assumes "0 < q"
  shows "\<bar>printed_value q - q\<bar> \<le> q / 200000"
proof -
  let ?e = "rat_log10 q" let ?x = "q * pow10 (5 - ?e)" let ?m = "of_int (round_even ?x) :: rat"
  have inv: "pow10 (5 - ?e) * pow10 (?e - 5) = 1"
    using pow10_add [of "5 - ?e" "?e - 5"] by (simp add: pow10_def)
  then have q: "q = ?x * pow10 (?e - 5)" by (simp add: mult.assoc)
  have "pow10 (5 - ?e) * pow10 ?e = 100000" using pow10_add [of "5 - ?e" ?e] by (simp add: pow10_def)
  then have "100000 \<le> ?x"
    using mult_right_mono [OF rat_log10_bounds(1) [OF assms], of "pow10 (5 - ?e)"] pow10_pos [of "5 - ?e"]
    by (simp add: mult.commute)
  then have b: "1 / 2 \<le> ?x / 200000" by simp
  have "printed_value q - q = (?m - ?x) * pow10 (?e - 5)"
    unfolding printed_value_def using q by (simp add: left_diff_distrib)
  then have "\<bar>printed_value q - q\<bar> = \<bar>?m - ?x\<bar> * pow10 (?e - 5)"
    using less_imp_le [OF pow10_pos [of "?e - 5"]] by (simp add: abs_mult)
  also have "\<dots> \<le> ?x / 200000 * pow10 (?e - 5)"
    using order_trans [OF round_even_close b] pow10_pos [of "?e - 5"] by (intro mult_right_mono) simp_all
  also have "\<dots> = q / 200000" using q by simp
  finally show ?thesis .
qed

text \<open>
  A speed that is zero or of a size that measuring gives. Its printed form is read back with an error
  of at most one part in \<open>10 ^ 5\<close>.
\<close>

definition wire_speed :: "double \<Rightarrow> bool" where
  "wire_speed v \<longleftrightarrow> (case v of Fin q \<Rightarrow> q = 0 \<or> pow2 (-1000) \<le> q \<and> q \<le> pow2 1000 | _ \<Rightarrow> False)"

lemma stream_first:
  assumes "0 < q"
  shows "\<exists>d s. stream_double (Fin q) = d # s \<and> is_digit d"
proof -
  have "\<exists>d s. show_nat n @ t = d # s \<and> is_digit d" for n t
    using show_nat_digits [of n] show_nat_nonempty [of n] by (cases "show_nat n") auto
  then show ?thesis using assms by (auto simp: stream_double_def Let_def split: prod.split)
qed

lemma stod_stream:
  assumes "pow2 (-1000) \<le> q" "q \<le> pow2 1000"
  shows "\<exists>y. stod (stream_double (Fin q)) = Some (Fin y) \<and> \<bar>y - q\<bar> \<le> q / 100000"
proof -
  let ?r = "printed_value q"
  have pos: "0 < q" using assms(1) pow2_pos [of "-1000"] by (rule less_le_trans [rotated])
  have r: "\<bar>?r - q\<bar> \<le> q / 200000" by (rule printed_value_close [OF pos])
  then have le: "q / 2 \<le> ?r" "?r \<le> 2 * q" using pos by linarith+
  have p: "pow2 (-1022) < pow2 (-1000) / 4" "4 * pow2 1000 < pow2 1024" by (simp_all add: pow2_def)
  have lo: "pow2 (-1022) \<le> ?r / 2" "pow2 (-1022) \<le> ?r" and hi: "2 * ?r < pow2 1024"
    using le assms p pow2_pos [of "-1022"] by linarith+
  obtain y where y: "dbl_round ?r = Fin y" "\<bar>y - ?r\<bar> \<le> ?r / 2 ^ 53" using dbl_round_close [OF lo(2) hi] by blast
  have "?r / 2 ^ 53 \<le> q / 200000" using le pos by simp
  with y(2) r have acc: "\<bar>y - q\<bar> \<le> q / 100000" by linarith
  have "?r / 2 ^ 53 \<le> ?r / 2" using le pos by (intro divide_left_mono) simp_all
  with y(2) have "?r / 2 \<le> y" by linarith
  with lo(1) have "\<not> dbl_erange ?r" by (simp add: dbl_erange_def y(1)) linarith
  moreover obtain d s where d: "stream_double (Fin q) = d # s" "is_digit d" using stream_first [OF pos] by blast
  moreover have "\<not> is_space d" "d \<noteq> CHR ''-''" "d \<noteq> CHR ''+''" using d(2) digit_not_space digit_not_sign by auto
  ultimately have "stod (stream_double (Fin q)) = Some (Fin y)"
    using strtod_stream [OF pos] y(1) by (simp add: stod_def)
  with acc show ?thesis by blast
qed

lemma wire_speed_read:
  assumes "wire_speed (Fin q)"
  shows "\<exists>y. stod (stream_double (Fin q)) = Some (Fin y) \<and> \<bar>y - q\<bar> \<le> q / 100000"
proof (cases "q = 0")
  case True
  have "stod (stream_double (Fin 0)) = Some (Fin 0)" by code_simp
  then show ?thesis using True by simp
qed (use assms stod_stream in \<open>simp add: wire_speed_def\<close>)

text \<open>The length of a printed speed.\<close>

lemma length_strip_fraction: "length (strip_fraction ds) \<le> Suc (length ds)"
  using length_dropWhile_le [of "\<lambda>c. c = CHR ''0''" "rev ds"] by (simp add: strip_fraction_stripped stripped_def)

lemma rat_log10_range:
  assumes "pow2 (-1000) \<le> q" "q \<le> pow2 1000"
  shows "\<bar>rat_log10 q\<bar> \<le> 1001"
proof -
  have pos: "0 < q" using assms(1) pow2_pos [of "-1000"] by (rule less_le_trans [rotated])
  note b = rat_log10_bounds [OF pos]
  have "rat_log10 q < 1001"
  proof (rule ccontr)
    assume "\<not> rat_log10 q < 1001"
    then have "pow10 1001 \<le> pow10 (rat_log10 q)" unfolding pow10_powi by (intro power_int_increasing) simp_all
    moreover have "pow2 1000 < pow10 1001"
    proof -
      have "(2::rat) ^ 1000 \<le> 10 ^ 1000" by (rule power_mono) simp_all
      also have "\<dots> < 10 ^ 1001" by (rule power_strict_increasing) simp_all
      finally show ?thesis using pow2_nat [of 1000] pow10_nat [of 1001] by (simp only: of_nat_numeral)
    qed
    ultimately show False using b(1) assms(2) by linarith
  qed
  moreover have "-1001 \<le> rat_log10 q"
  proof (rule ccontr)
    assume "\<not> -1001 \<le> rat_log10 q"
    then have "pow10 (rat_log10 q + 1) \<le> pow10 (-1001)" unfolding pow10_powi by (intro power_int_increasing) simp_all
    moreover have "pow10 (-1001) < pow2 (-1000)"
    proof -
      have "(10::rat) powi -1001 < 10 powi -1000" by (rule power_int_strict_increasing) simp_all
      also have "(10::rat) powi -1000 \<le> 2 powi -1000"
        unfolding power_int_minus
        by (rule le_imp_inverse_le; (rule power_int_mono zero_less_power_int)?) simp_all
      finally show ?thesis by (simp only: pow2_powi pow10_powi)
    qed
    ultimately show False using b(2) assms(1) by linarith
  qed
  ultimately show ?thesis by simp
qed

lemma length_stream_double:
  assumes "wire_speed v"
  shows "length (stream_double v) \<le> 40"
proof -
  obtain q where v: "v = Fin q" using assms by (auto simp: wire_speed_def split: double.splits)
  show ?thesis
  proof (cases "q = 0")
    case False
    then have q: "pow2 (-1000) \<le> q" "q \<le> pow2 1000" using assms by (simp_all add: v wire_speed_def)
    have pos: "0 < q" using q(1) pow2_pos [of "-1000"] by (rule less_le_trans [rotated])
    define e0 where "e0 = rat_log10 q"
    define m0 where "m0 = nat (round_even (q * pow10 (5 - e0)))"
    define e where "e = (if m0 = 1000000 then e0 + 1 else e0)"
    define m where "m = (if m0 = 1000000 then 100000 else m0)"
    have "q * pow10 (5 - e0) < pow10 (e0 + 1) * pow10 (5 - e0)"
      using rat_log10_bounds(2) [OF pos] by (simp add: e0_def)
    also have "\<dots> = 1000000" using pow10_add [of "e0 + 1" "5 - e0"] by (simp add: pow10_def)
    finally have "of_int (round_even (q * pow10 (5 - e0))) < (of_int 10000000 :: rat)"
      using round_even_le_double [of "q * pow10 (5 - e0)"] pos by simp
    then have m: "m < 10000000" by (simp only: of_int_less_iff m_def m0_def) auto
    then have len: "length (show_nat (m div k)) \<le> 7" for k
      by (intro length_show_nat) (auto intro: le_less_trans [OF div_le_dividend])
    have "\<bar>e\<bar> \<le> 1002" using rat_log10_range [OF q] by (auto simp: e_def e0_def)
    then have "length (show_nat (nat \<bar>e\<bar>)) \<le> 4" by (intro length_show_nat) simp_all
    then have ex: "length (pad_left 2 (show_nat (nat \<bar>e\<bar>))) \<le> 4" by (simp add: pad_left_def)
    have s: "stream_double v =
      (if -4 \<le> e \<and> e < 6
       then show_nat (m div 10 ^ nat (5 - e)) @
            strip_fraction (if nat (5 - e) = 0 then [] else pad_left (nat (5 - e)) (show_nat (m mod 10 ^ nat (5 - e))))
       else show_nat (m div 100000) @ strip_fraction (pad_left 5 (show_nat (m mod 100000))) @
            (if e < 0 then ''e-'' else ''e+'') @ pad_left 2 (show_nat (nat \<bar>e\<bar>)))"
      using pos by (auto simp: v stream_double_def Let_def e_def m_def m0_def e0_def split: if_splits)
    have "length (pad_left 5 (show_nat (m mod 100000))) = 5" by (intro length_pad_left length_show_nat) simp_all
    then have "length (strip_fraction (pad_left 5 (show_nat (m mod 100000)))) \<le> 6"
      using length_strip_fraction by (metis Suc_numeral semiring_norm(5) semiring_norm(8))
    moreover have "length (strip_fraction (if d = 0 then [] else pad_left d (show_nat (m mod 10 ^ d)))) \<le> Suc d" for d
    proof -
      have "length (if d = 0 then [] else pad_left d (show_nat (m mod 10 ^ d))) = d"
        by (auto intro!: length_pad_left length_show_nat)
      with length_strip_fraction show ?thesis by metis
    qed
    from this [of "nat (5 - e)"] have "-4 \<le> e \<and> e < 6 \<Longrightarrow>
        length (strip_fraction (if nat (5 - e) = 0 then [] else pad_left (nat (5 - e)) (show_nat (m mod 10 ^ nat (5 - e))))) \<le> 10"
      by linarith
    ultimately have parts: "length (strip_fraction (pad_left 5 (show_nat (m mod 100000)))) \<le> 6"
      "-4 \<le> e \<and> e < 6 \<Longrightarrow>
        length (strip_fraction (if nat (5 - e) = 0 then [] else pad_left (nat (5 - e)) (show_nat (m mod 10 ^ nat (5 - e))))) \<le> 10"
      by blast+
    have sign: "length (if e < 0 then ''e-'' else ''e+'') = 2" by simp
    show ?thesis
    proof (cases "-4 \<le> e \<and> e < 6")
      case True
      show ?thesis unfolding s if_P [OF True] length_append using len [of "10 ^ nat (5 - e)"] parts(2) [OF True] by linarith
    next
      case False
      show ?thesis unfolding s if_not_P [OF False] length_append sign using len [of 100000] parts(1) ex by linarith
    qed
  qed (simp add: v stream_double_def)
qed

end
