(* ===== verification/Client_Refines.thy ===== *)
theory Client_Refines
  imports Client_Laws Cpp_Number_Laws
begin

text \<open>
  The client against an abstract specification: as long as client and daemon are in step, an operation
  of the client over the socket is the operation of the engine itself, with the leases of the client
  on the side. The two lists of leases, the client's and the daemon's, are always equal.
\<close>

section \<open>The specification\<close>

datatype lease_op =
  Op_acquire "string list" | Op_release string bool double | Op_ping | Op_stats | Op_target string

datatype lease_result =
  Got_lease "(string \<times> double) option" | Got_ok bool | Got_stats nat nat | Got_count int

text \<open>
  What an operation means: its effect on the leases of the client and on the engine. Speeds are the
  ones that the digits on the wire stand for.
\<close>

fun direct_op :: "daemon_env \<Rightarrow> lease_op \<Rightarrow> string list \<times> engine \<Rightarrow> lease_result \<times> string list \<times> engine" where
  "direct_op env (Op_acquire skip) (leases, e) =
     (case acquire skip e of
        (Some q, e') \<Rightarrow> (Got_lease (Some (address q, read_mbps (fixed4 (speed_mbps q)))), leases @ [address q], e')
      | (None, e') \<Rightarrow> (Got_lease None, leases, e'))"
| "direct_op env (Op_release u s v) (leases, e) =
     (Got_ok True, remove1 u leases, release (env_sort env) u s (the (stod (stream_double v))) e)"
| "direct_op env Op_ping (leases, e) = (Got_ok True, leases, e)"
| "direct_op env Op_stats (leases, e) = (Got_stats (live_count e) (busy_count e), leases, e)"
| "direct_op env (Op_target url) (leases, e) =
     (case verify_target (env_sort env) (env_iter env) (env_probe env) (env_passes env url) url e of
        (n, e') \<Rightarrow> (Got_count (int n), leases, e'))"

text \<open>The operation of the client over the link.\<close>

fun remote_op :: "daemon_env \<Rightarrow> lease_op \<Rightarrow> client \<times> daemon_peer \<Rightarrow> lease_result \<times> client \<times> daemon_peer" where
  "remote_op env (Op_acquire skip) (c, p) =
     (case client_acquire (daemon_link env) skip [] c p of (r, c', p') \<Rightarrow> (Got_lease r, c', p'))"
| "remote_op env (Op_release u s v) (c, p) =
     (case client_release (daemon_link env) u s v c p of (r, c', p') \<Rightarrow> (Got_ok r, c', p'))"
| "remote_op env Op_ping (c, p) =
     (case client_ping (daemon_link env) c p of (r, c', p') \<Rightarrow> (Got_ok r, c', p'))"
| "remote_op env Op_stats (c, p) =
     (case client_stats (daemon_link env) c p of
        (Some s, c', p') \<Rightarrow> (Got_stats (st_live s) (st_busy s), c', p')
      | (None, c', p') \<Rightarrow> (Got_ok False, c', p'))"
| "remote_op env (Op_target url) (c, p) =
     (case client_set_target (daemon_link env) url c p of (n, c', p') \<Rightarrow> (Got_count n, c', p'))"

text \<open>An address the protocol can carry, the state in which both sides are in step, and fitting commands.\<close>

definition speakable :: "string \<Rightarrow> bool" where
  "speakable u \<longleftrightarrow> u \<noteq> [] \<and> solid u \<and> CHR 0x00 \<notin> set u \<and> length u \<le> 3000"

definition in_step :: "client \<Rightarrow> daemon_peer \<Rightarrow> bool" where
  "in_step c p \<longleftrightarrow> cl_fd c \<and> cl_leftover c = [] \<and> dp_out p = [] \<and> c_open (dp_conn p) \<and> c_buf (dp_conn p) = [] \<and>
     greeted (dp_conn p) \<and> cl_held c = held (dp_conn p) \<and> pool_inv (dp_engine p) \<and>
     (\<forall>q\<in>set (pool (dp_engine p)). speakable (address q))"

fun op_ok :: "daemon_env \<Rightarrow> engine \<Rightarrow> lease_op \<Rightarrow> bool" where
  "op_ok env e (Op_acquire skip) =
     ((\<forall>u\<in>set skip. speakable u) \<and> length (unwords (''ACQUIRE'' # ''skip'' # skip)) \<le> k_ipc_max_line - 64)"
| "op_ok env e (Op_release u s v) =
     (speakable u \<and> stod (stream_double v) \<noteq> None \<and> length (release_command u s v) < k_ipc_max_line)"
| "op_ok env e Op_ping = True"
| "op_ok env e Op_stats = (length (pool e) < 2 ^ 64)"
| "op_ok env e (Op_target url) =
     (speakable url \<and> (\<forall>addrs reached. env_probe env url addrs = Some reached \<longrightarrow> length reached < 2 ^ 31) \<and>
      (\<forall>rows\<in>set (env_passes env url). \<forall>t\<in>set rows. speakable (address t)))"

text \<open>A release with a measured speed always fits.\<close>

lemma measured_release_ok: "speakable u \<Longrightarrow> wire_speed v \<Longrightarrow> op_ok env e (Op_release u s v)"
  using length_stream_double [of v] wire_speed_read
  by (auto simp: wire_speed_def speakable_def release_command_def k_ipc_max_line_def split: double.splits)

section \<open>Words on the wire\<close>

definition wordy :: "string \<Rightarrow> bool" where
  "wordy l \<longleftrightarrow> (\<forall>c\<in>set l. c = sp \<or> \<not> is_space c)"

lemma wordy_simps [simp]:
  "wordy []" "wordy (c # l) \<longleftrightarrow> (c = sp \<or> \<not> is_space c) \<and> wordy l" "wordy (l @ m) \<longleftrightarrow> wordy l \<and> wordy m"
  by (auto simp: wordy_def)

lemma wordy_solid: "solid l \<Longrightarrow> wordy l"
  by (simp add: wordy_def solid_def)

lemma wordy_take: "wordy l \<Longrightarrow> wordy (take n l)"
  by (auto simp: wordy_def dest: in_set_takeD)

lemma wordy_framable:
  assumes "wordy l" "length l < k_ipc_max_line"
  shows "framable l"
proof -
  have "x \<notin> set l" if "is_space x" "x \<noteq> sp" for x
    using assms(1) that unfolding wordy_def by blast
  then have n: "nl \<notin> set l" "cr \<notin> set l" by (simp_all add: is_space_def is_blank_def)
  then have "strip_cr l = l" by (intro strip_cr_id) (metis last_in_set)
  with n(1) show ?thesis using assms(2) by (simp add: framable_def)
qed

lemma wordy_unwords: "\<forall>w\<in>set ws. solid w \<Longrightarrow> wordy (unwords ws)"
  by (induction ws rule: unwords.induct) (auto simp: wordy_solid)

lemma speakable_word: "speakable u \<Longrightarrow> wire_word u" "speakable u \<Longrightarrow> solid u"
  by (auto simp: speakable_def wire_word_solid)

lemma keyword_solid [simp]:
  "solid ''ACQUIRE''" "solid ''skip''" "solid ''RELEASE''" "solid ''ok''" "solid ''fail''" "solid ''TARGET''" "solid ''OK''"
  "solid ''PING''" "solid ''STATS''" "solid ''pong''" "solid ''live=''" "solid ''busy=''" "solid ''top_mbps=''"
  "solid ''ERR''" "solid ''empty''"
  by (simp_all add: is_space_def is_blank_def)

lemma add_skips_unwords:
  "length (unwords (cmd # us)) \<le> k_ipc_max_line - 64 \<Longrightarrow> add_skips cmd us = unwords (cmd # us)"
proof (induction us arbitrary: cmd)
  case (Cons u us)
  have e: "unwords ((cmd @ sp # u) # us) = unwords (cmd # u # us)" by (cases us) simp_all
  have "length (cmd @ sp # u) \<le> length (unwords ((cmd @ sp # u) # us))" by (cases us) simp_all
  with Cons e show ?case by (simp del: unwords.simps)
qed simp

lemma acquire_command_words:
  assumes "op_ok env e (Op_acquire skip)"
  shows "acquire_command skip = unwords (''ACQUIRE'' # (if skip = [] then [] else ''skip'' # skip))"
proof -
  have "unwords (''ACQUIRE skip'' # skip) = unwords (''ACQUIRE'' # ''skip'' # skip)" by (cases skip) simp_all
  with assms add_skips_unwords [of "''ACQUIRE skip''" skip] show ?thesis
    by (simp add: acquire_command_def del: unwords.simps(3))
qed

lemma release_command_words: "release_command u s v = unwords [''RELEASE'', u, if s then ''ok'' else ''fail'', stream_double v]"
  by (simp add: release_command_def)

section \<open>The length of numbers\<close>

lemma length_fixed4:
  assumes "speed_ok v"
  shows "length (fixed4 v) \<le> 400"
proof (cases v)
  case (Fin q)
  then have q: "0 \<le> q" "q < pow2 1024" using assms by simp_all
  let ?n = "nat (round_even (\<bar>q\<bar> * 10000))"
  have "of_int (round_even (q * 10000)) \<le> 2 * (q * 10000)" using q by (intro round_even_le_double) simp
  also have "\<dots> < 2 * (2 ^ 1024 * 10000)" using q(2) by (simp add: pow2_def)
  also have "\<dots> < (of_int (10 ^ 350) :: rat)" by simp
  finally have "round_even (q * 10000) < 10 ^ 350" by (simp only: of_int_less_iff)
  then have "?n < 10 ^ 350" using q(1) by (simp add: nat_less_iff)
  then have "?n div 10000 < 10 ^ 350" by (rule le_less_trans [OF div_le_dividend])
  from length_show_nat [OF this] length_show_nat [of "?n mod 10000" 4]
  have "length (show_nat (?n div 10000)) \<le> 350" "length (show_nat (?n mod 10000)) \<le> 4"
    by (simp_all only: zero_less_numeral) simp
  then show ?thesis using Fin q(1) by (simp add: fixed4_def Let_def pad_left_def)
qed (use assms in \<open>simp_all add: fixed4_def\<close>)

section \<open>Commands in step\<close>

lemma in_step_answer:
  assumes "in_step c p" "framable cmd" "ipc_split cmd \<noteq> []"
    and "handle_line env False cmd (dp_conn p) (dp_engine p) = (Cmd_ok, k, e')"
    and "c_sent k = c_sent (dp_conn p) @ [reply]" "framable reply"
  shows "daemon_ready env cmd p" "daemon_answer env cmd p = (reply, p\<lparr>dp_conn := k, dp_engine := e'\<rparr>)"
  using assms by (simp_all add: daemon_ready_def daemon_answer_def in_step_def)

lemma in_step_after:
  assumes "in_step c p" "held k = leases" "c_open k" "c_buf k = []" "greeted k" "pool_inv e'"
    and "\<forall>q\<in>set (pool e'). speakable (address q)"
  shows "in_step (c\<lparr>cl_held := leases\<rparr>) (p\<lparr>dp_conn := k, dp_engine := e'\<rparr>)"
  using assms by (simp add: in_step_def)

lemma in_step_conn:
  assumes "in_step c p"
  shows "cl_fd c" "cl_leftover c = []" "c_open (dp_conn p)" "c_buf (dp_conn p) = []" "greeted (dp_conn p)"
    "cl_held c = held (dp_conn p)" "pool_inv (dp_engine p)" "\<forall>q\<in>set (pool (dp_engine p)). speakable (address q)"
    "c\<lparr>cl_held := held (dp_conn p)\<rparr> = c"
  using assms by (auto simp: in_step_def)

text \<open>Addresses of the pool after an operation.\<close>

definition speakable_pool :: "engine \<Rightarrow> bool" where
  "speakable_pool e \<longleftrightarrow> (\<forall>a\<in>address ` set (pool e). speakable a)"

lemma speakable_pool_iff: "speakable_pool e \<longleftrightarrow> (\<forall>q\<in>set (pool e). speakable (address q))"
  by (simp add: speakable_pool_def)

lemma speakable_pool_subset:
  "speakable_pool e \<Longrightarrow> address ` set (pool e') \<subseteq> address ` set (pool e) \<union> A \<Longrightarrow> \<forall>a\<in>A. speakable a \<Longrightarrow> speakable_pool e'"
  unfolding speakable_pool_def by blast

lemma acquire_addresses:
  assumes "acquire skip e = (r, e')"
  shows "address ` set (pool e') = address ` set (pool e)" "r = Some q \<Longrightarrow> \<exists>q0\<in>set (pool e). q = q0\<lparr>busy := True\<rparr>"
proof -
  have pick: "address ` set ps' = address ` set ps \<and> (\<exists>q0\<in>set ps. x = q0\<lparr>busy := True\<rparr>)"
    if "pick tf skip h ps = Some (x, ps')" for tf h ps x ps'
    using pick_SomeD [OF that] by (elim exE conjE) auto
  show "address ` set (pool e') = address ` set (pool e)"
    using assms pick by (auto simp: acquire_def split: option.splits prod.splits) blast+
  show "r = Some q \<Longrightarrow> \<exists>q0\<in>set (pool e). q = q0\<lparr>busy := True\<rparr>"
    using assms pick by (auto simp: acquire_def split: option.splits prod.splits)
qed

context speed_sorter begin

lemma release_addresses:
  "pool_ok e \<Longrightarrow> address ` set (pool (release srt u s v e)) \<subseteq> address ` set (pool e)"
  using release_row_addrs [of u s v "pool e"] srt_set [OF release_no_nan [of e u s v]]
  by (auto simp: release_def)

end

context engine_env begin

lemma install_addresses:
  assumes "pool_ok e" "\<forall>t\<in>set tested. row_ok t"
  shows "address ` set (pool (install_tested srt itr tested e)) \<subseteq> address ` set (pool e) \<union> address ` set tested"
proof -
  have "set (pool (install_tested srt itr tested e)) \<subseteq> set (merged_rows itr tested (pool e))"
    using installed_set [OF merged_no_nan [OF assms]] by (simp add: install_tested_def)
  then have "address ` set (pool (install_tested srt itr tested e)) \<subseteq> address ` set (merged_rows itr tested (pool e))"
    by (rule image_mono)
  also have "\<dots> \<subseteq> address ` set tested \<union> busy_addrs (pool e)" by (rule merged_addrs [OF engine_env_axioms])
  also have "\<dots> \<subseteq> address ` set (pool e) \<union> address ` set tested"
    by (rule Un_least [OF Un_upper2 le_supI1 [OF busy_addrs_subset]])
  finally show ?thesis .
qed

lemma install_all_addresses:
  assumes "passes_ok passes" "pool_ok e"
  shows "address ` set (pool (install_all srt itr passes e)) \<subseteq>
    address ` set (pool e) \<union> address ` (\<Union>rows\<in>set passes. set rows)"
  using assms
proof (induction passes arbitrary: e)
  case (Cons tested passes)
  then have t: "\<forall>t\<in>set tested. row_ok t" "passes_ok passes" by (auto simp: passes_ok_def fresh_row_def)
  have "pool_ok (install_tested srt itr tested e)" by (rule install_pool_ok [OF Cons.prems(2) t(1)])
  from Cons.IH [OF t(2) this] install_addresses [OF Cons.prems(2) t(1)] show ?case
    by (simp add: install_all_def image_Un) blast
qed (simp add: install_all_def)

lemma verify_addresses:
  assumes "probes_ok probes" "passes_ok passes" "pool_ok e" "verify_target srt itr probes passes url e = (n, e')"
  shows "address ` set (pool e') \<subseteq> address ` set (pool e) \<union> address ` (\<Union>rows\<in>set passes. set rows)"
proof (cases "verify_begin url e")
  case None
  then show ?thesis using assms(4) by (simp add: verify_target_def)
next
  case (Some ae)
  obtain addrs e1 where ae: "ae = (addrs, e1)" by fastforce
  have e1: "address ` set (pool e1) = address ` set (pool e)"
    using Some ae by (auto simp: verify_begin_def image_image split: if_splits)
  have ok1: "pool_ok e1" by (rule verify_begin_props(1) [OF Some [unfolded ae] assms(3)])
  show ?thesis
  proof (cases "probes url addrs")
    case None
    then show ?thesis using assms(4) Some ae e1 by (simp add: verify_target_def)
  next
    case (Some reached)
    then have sp: "\<forall>(a, v)\<in>set reached. speed_ok v" using assms(1) by (simp add: probes_ok_def)
    have i: "pool_ok (install_all srt itr passes e1)" using install_all_keeps [OF assms(2) ok1] by simp
    have "e' = snd (verify_finish srt reached (install_all srt itr passes e1))"
      using assms(4) Some ae \<open>verify_begin url e = Some ae\<close> by (simp add: verify_target_def)
    then have "set (pool e') = verify_row reached ` set (pool (install_all srt itr passes e1))"
      using verify_finish_set [OF i sp] by simp
    moreover have "address (verify_row reached q) = address q" for q by (simp add: verify_row_def split: option.splits)
    ultimately have "address ` set (pool e') = address ` set (pool (install_all srt itr passes e1))"
      by (simp add: image_image)
    with install_all_addresses [OF assms(2) ok1] e1 show ?thesis by simp
  qed
qed

end

section \<open>Each operation\<close>

lemma acquire_reply_unwords:
  assumes "speakable (address q)" "speed_ok (speed_mbps q)"
  shows "acquire_reply q = unwords [''OK'', address q, fixed4 (speed_mbps q)]" "framable (acquire_reply q)"
    "ipc_split (acquire_reply q) = [''OK'', address q, fixed4 (speed_mbps q)]"
proof -
  have "c_str (address q) = address q"
    unfolding c_str_def by (rule takeWhile_all) (use assms(1) in \<open>auto simp: speakable_def\<close>)
  moreover have "length (address q) + length (fixed4 (speed_mbps q)) + 4 < k_ipc_max_line"
    using assms(1) length_fixed4 [OF assms(2)] by (simp add: speakable_def k_ipc_max_line_def)
  ultimately show r: "acquire_reply q = unwords [''OK'', address q, fixed4 (speed_mbps q)]"
    by (simp add: acquire_reply_def snprintf_def)
  have ws: "\<forall>w\<in>set [''OK'', address q, fixed4 (speed_mbps q)]. solid w"
    using assms(1) by (simp add: speakable_word(2) is_space_def is_blank_def)
  have "length (acquire_reply q) < k_ipc_max_line" by (simp add: acquire_reply_def snprintf_def k_ipc_max_line_def)
  with wordy_unwords [OF ws] r show "framable (acquire_reply q)" by (simp add: wordy_framable del: unwords.simps)
  have "\<forall>w\<in>set [''OK'', address q, fixed4 (speed_mbps q)]. wire_word w"
    using ws assms(1) by (auto intro: wire_word_solid simp: speakable_word)
  then show "ipc_split (acquire_reply q) = [''OK'', address q, fixed4 (speed_mbps q)]"
    unfolding r by (rule ipc_split_unwords)
qed

lemma framed_command:
  assumes "\<forall>w\<in>set ws. solid w \<and> w \<noteq> []" "ws \<noteq> []" "length (unwords ws) < k_ipc_max_line"
  shows "framable (unwords ws)" "ipc_split (unwords ws) = ws"
proof -
  show "framable (unwords ws)" using assms by (intro wordy_framable wordy_unwords) auto
  show "ipc_split (unwords ws) = ws" using assms by (intro ipc_split_unwords) (auto intro: wire_word_solid)
qed

lemma step_refines:
  assumes "in_step c p" "remote_op env op (c, p) = (r, c', p')"
    and "remote_op env op (c, p) = (r0, c\<lparr>cl_held := leases\<rparr>, p\<lparr>dp_conn := k, dp_engine := e'\<rparr>)"
    and "direct_op env op (cl_held c, dp_engine p) = (r0, leases, e')"
    and "held k = leases" "c_open k" "c_buf k = []" "greeted k" "pool_inv e'" "speakable_pool e'"
  shows "in_step c' p' \<and> direct_op env op (cl_held c, dp_engine p) = (r, cl_held c', dp_engine p')"
proof -
  have eqs: "r = r0" "c' = c\<lparr>cl_held := leases\<rparr>" "p' = p\<lparr>dp_conn := k, dp_engine := e'\<rparr>" using assms(2,3) by simp_all
  have "in_step (c\<lparr>cl_held := leases\<rparr>) (p\<lparr>dp_conn := k, dp_engine := e'\<rparr>)"
    using assms(10) by (intro in_step_after assms) (simp add: speakable_pool_iff)
  with assms(4) show ?thesis by (simp add: eqs)
qed

lemma remote_acquire:
  assumes "in_step c p" "op_ok env (dp_engine p) (Op_acquire skip)" "\<forall>line. env_sends env line"
    and "remote_op env (Op_acquire skip) (c, p) = (r, c', p')"
  shows "in_step c' p' \<and> direct_op env (Op_acquire skip) (cl_held c, dp_engine p) = (r, cl_held c', dp_engine p')"
proof -
  note st = in_step_conn [OF assms(1)]
  let ?C = "dp_conn p" and ?ws = "''ACQUIRE'' # (if skip = [] then [] else ''skip'' # skip)"
  have cmd: "acquire_command skip = unwords ?ws" by (rule acquire_command_words [OF assms(2)])
  have len: "length (unwords ?ws) < k_ipc_max_line"
  proof (cases "skip = []")
    case False
    have "length (unwords (''ACQUIRE'' # ''skip'' # skip)) \<le> k_ipc_max_line - 64" using assms(2) by (simp only: op_ok.simps)
    then show ?thesis unfolding if_not_P [OF False] by (rule le_less_trans) (simp add: k_ipc_max_line_def)
  qed (simp add: k_ipc_max_line_def)
  have ws: "\<forall>w\<in>set ?ws. solid w \<and> w \<noteq> []" "?ws \<noteq> []"
    using assms(2) by (simp_all add: speakable_def is_space_def is_blank_def)
  have f: "framable (acquire_command skip)" "ipc_split (acquire_command skip) = ?ws"
    unfolding cmd by (rule framed_command [OF ws len])+
  have sk: "skip_words ?ws = skip" by (cases skip) (simp_all add: skip_words_def)
  have h: "handle_line env False (acquire_command skip) ?C (dp_engine p) = handle_acquire env False ?ws ?C (dp_engine p)"
    using f(2) st(5) by (simp add: handle_line_def)
  obtain x e' where a: "acquire skip (dp_engine p) = (x, e')" by fastforce
  have inv: "pool_inv e'"
    using st(7) acquire_pool_ok [OF _ a] acquire_unique [OF _ a] by (simp add: pool_inv_def)
  have addrs: "speakable_pool e'"
    using acquire_addresses(1) [OF a] st(8) by (simp add: speakable_pool_def)
  show ?thesis
  proof (cases x)
    case None
    have "framable ''ERR empty''" by (rule wordy_framable) (simp_all add: is_space_def is_blank_def k_ipc_max_line_def)
    then have ans: "daemon_ready env (acquire_command skip) p"
      "daemon_answer env (acquire_command skip) p = (''ERR empty'', p\<lparr>dp_conn := say ''ERR empty'' ?C, dp_engine := e'\<rparr>)"
      using in_step_answer [OF assms(1) f(1), of env "say ''ERR empty'' ?C" e' "''ERR empty''"] f(2) h a None sk
      by (simp_all add: handle_acquire_def)
    have "ipc_split ''ERR empty'' = [''ERR'', ''empty'']" by code_simp
    then have "remote_op env (Op_acquire skip) (c, p) =
        (Got_lease None, c\<lparr>cl_held := cl_held c\<rparr>, p\<lparr>dp_conn := say ''ERR empty'' ?C, dp_engine := e'\<rparr>)"
      using daemon_rpc.acquire_answer [OF st(1,2) ans] by simp
    then show ?thesis
      by (rule step_refines [OF assms(1,4)]) (use st inv addrs a None in simp_all)
  next
    case (Some q)
    from acquire_addresses(2) [OF a Some] obtain q0 where q0: "q0 \<in> set (pool (dp_engine p))" "q = q0\<lparr>busy := True\<rparr>" by blast
    have sq: "speakable (address q)" "speed_ok (speed_mbps q)"
      using st(7,8) q0 by (auto simp: pool_inv_def pool_ok_def row_ok_def)
    note reply = acquire_reply_unwords [OF sq]
    let ?k = "say (acquire_reply q) (?C\<lparr>held := held ?C @ [address q]\<rparr>)"
    have ans: "daemon_ready env (acquire_command skip) p"
      "daemon_answer env (acquire_command skip) p = (acquire_reply q, p\<lparr>dp_conn := ?k, dp_engine := e'\<rparr>)"
      using in_step_answer [OF assms(1) f(1), of env ?k e' "acquire_reply q"] f(2) h a Some sk assms(3) reply(2)
      by (simp_all add: handle_acquire_def Let_def)
    have "remote_op env (Op_acquire skip) (c, p) =
        (Got_lease (Some (address q, read_mbps (fixed4 (speed_mbps q)))), c\<lparr>cl_held := cl_held c @ [address q]\<rparr>,
         p\<lparr>dp_conn := ?k, dp_engine := e'\<rparr>)"
      using daemon_rpc.acquire_answer [OF st(1,2) ans] reply(3) by simp
    then show ?thesis
      by (rule step_refines [OF assms(1,4)]) (use st inv addrs a Some in simp_all)
  qed
qed

lemma remote_release:
  assumes "daemon env" "in_step c p" "op_ok env (dp_engine p) (Op_release u s v)"
    and "remote_op env (Op_release u s v) (c, p) = (r, c', p')"
  shows "in_step c' p' \<and> direct_op env (Op_release u s v) (cl_held c, dp_engine p) = (r, cl_held c', dp_engine p')"
proof -
  note st = in_step_conn [OF assms(2)]
  note sorter = engine_env.axioms(1) [OF daemon.env_engine [OF assms(1)]]
  let ?C = "dp_conn p" and ?ws = "[''RELEASE'', u, if s then ''ok'' else ''fail'', stream_double v]"
  let ?k = "say ''OK'' (erase_one_held ?C u)"
  obtain m where m: "stod (stream_double v) = Some m" using assms(3) by auto
  let ?e = "release (env_sort env) u s m (dp_engine p)"
  have ws: "\<forall>w\<in>set ?ws. solid w \<and> w \<noteq> []" "?ws \<noteq> []"
    using assms(3) by (simp_all add: speakable_def is_space_def is_blank_def)
  have len: "length (unwords ?ws) < k_ipc_max_line"
    using assms(3) by (simp only: op_ok.simps release_command_words)
  have f: "framable (release_command u s v)" "ipc_split (release_command u s v) = ?ws"
    unfolding release_command_words by (rule framed_command [OF ws len])+
  have h: "handle_line env False (release_command u s v) ?C (dp_engine p) = (Cmd_ok, ?k, ?e)"
    using f(2) st(5) m by (simp add: handle_line_def handle_release_def)
  have "framable ''OK''" by (rule wordy_framable) (simp_all add: is_space_def is_blank_def k_ipc_max_line_def)
  then have ans: "daemon_ready env (release_command u s v) p"
    "daemon_answer env (release_command u s v) p = (''OK'', p\<lparr>dp_conn := ?k, dp_engine := ?e\<rparr>)"
    using in_step_answer [OF assms(2) f(1) _ h, of "''OK''"] f(2) by (simp_all add: erase_one_held_def)
  have "starts_with ''OK'' ''OK''" by (simp add: starts_with_def)
  then have rem: "remote_op env (Op_release u s v) (c, p) =
      (Got_ok True, c\<lparr>cl_held := remove1 u (cl_held c)\<rparr>, p\<lparr>dp_conn := ?k, dp_engine := ?e\<rparr>)"
    using daemon_rpc.release_answer [OF st(1,2) ans] by simp
  have "pool_inv ?e" "speakable_pool ?e"
    using st(7,8) speed_sorter.release_pool_ok [OF sorter] speed_sorter.release_unique [OF sorter]
      speakable_pool_subset [of "dp_engine p" ?e "{}"] speed_sorter.release_addresses [OF sorter, of "dp_engine p" u s m]
    by (simp_all add: pool_inv_def speakable_pool_iff)
  with rem show ?thesis
    by (intro step_refines [OF assms(2,4) rem]) (use st m in \<open>simp_all add: erase_one_held_def\<close>)
qed

lemma remote_ping:
  assumes "in_step c p" "remote_op env Op_ping (c, p) = (r, c', p')"
  shows "in_step c' p' \<and> direct_op env Op_ping (cl_held c, dp_engine p) = (r, cl_held c', dp_engine p')"
proof -
  note st = in_step_conn [OF assms(1)]
  let ?k = "say ''OK pong'' (dp_conn p)"
  have w: "''PING'' = unwords [''PING'']" by simp
  have f: "framable ''PING''" "ipc_split ''PING'' = [''PING'']" by code_simp+
  have h: "handle_line env False ''PING'' (dp_conn p) (dp_engine p) = (Cmd_ok, ?k, dp_engine p)"
    using f(2) st(5) by (simp add: handle_line_def)
  have "framable ''OK pong''" by code_simp
  then have ans: "daemon_ready env ''PING'' p"
    "daemon_answer env ''PING'' p = (''OK pong'', p\<lparr>dp_conn := ?k, dp_engine := dp_engine p\<rparr>)"
    using in_step_answer [OF assms(1) f(1) _ h, of "''OK pong''"] f(2) by simp_all
  then have "remote_op env Op_ping (c, p) =
      (Got_ok True, c\<lparr>cl_held := cl_held c\<rparr>, p\<lparr>dp_conn := ?k, dp_engine := dp_engine p\<rparr>)"
    using daemon_rpc.ping_answer [OF st(1,2) ans] by simp
  then show ?thesis
    by (rule step_refines [OF assms]) (use st in \<open>simp_all add: speakable_pool_iff\<close>)
qed

lemma remote_target:
  assumes "daemon env" "in_step c p" "op_ok env (dp_engine p) (Op_target url)"
    and "remote_op env (Op_target url) (c, p) = (r, c', p')"
  shows "in_step c' p' \<and> direct_op env (Op_target url) (cl_held c, dp_engine p) = (r, cl_held c', dp_engine p')"
proof -
  note st = in_step_conn [OF assms(2)]
  note dm = daemon.env_engine [OF assms(1)] daemon.env_probes [OF assms(1)] daemon.env_passes [OF assms(1), of url]
  let ?ws = "[''TARGET'', url]" and ?cmd = "''TARGET '' @ url"
  have cmd: "?cmd = unwords ?ws" by simp
  have ws: "\<forall>w\<in>set ?ws. solid w \<and> w \<noteq> []" "?ws \<noteq> []"
    using assms(3) by (simp_all add: speakable_def is_space_def is_blank_def)
  have len: "length (unwords ?ws) < k_ipc_max_line" using assms(3) by (simp add: speakable_def k_ipc_max_line_def)
  have f: "framable ?cmd" "ipc_split ?cmd = ?ws" unfolding cmd by (rule framed_command [OF ws len])+
  obtain n e' where v: "verify_target (env_sort env) (env_iter env) (env_probe env) (env_passes env url) url (dp_engine p) = (n, e')"
    by fastforce
  have n: "n < 2 ^ 31"
    using v assms(3) by (auto simp: verify_target_def verify_finish_def split: option.splits prod.splits)
  have "length (show_nat n) \<le> 10" using length_show_nat [of n 10] n by simp
  then have rep: "snprintf 64 (''OK '' @ show_nat n) = ''OK '' @ show_nat n" by (simp add: snprintf_def)
  let ?k = "say (''OK '' @ show_nat n) (dp_conn p)"
  have h: "handle_line env False ?cmd (dp_conn p) (dp_engine p) = (Cmd_ok, ?k, e')"
    using f(2) st(5) v rep by (simp add: handle_line_def handle_target_def)
  have "framable (''OK '' @ show_nat n)"
    using \<open>length (show_nat n) \<le> 10\<close> by (intro wordy_framable) (simp_all add: wordy_solid is_space_def is_blank_def k_ipc_max_line_def)
  then have ans: "daemon_ready env ?cmd p" "daemon_answer env ?cmd p = (''OK '' @ show_nat n, p\<lparr>dp_conn := ?k, dp_engine := e'\<rparr>)"
    using in_step_answer [OF assms(2) f(1) _ h, of "''OK '' @ show_nat n"] f(2) by simp_all
  have "starts_with (''OK '' @ show_nat n) ''OK ''" "stoi (drop 3 (''OK '' @ show_nat n)) = Some (int n)"
    using stoi_show_nat [of n] n by (simp_all add: starts_with_def)
  then have rem: "remote_op env (Op_target url) (c, p) =
      (Got_count (int n), c\<lparr>cl_held := cl_held c\<rparr>, p\<lparr>dp_conn := ?k, dp_engine := e'\<rparr>)"
    using daemon_rpc.target_answer [OF st(1,2) ans] by simp
  moreover have "pool_inv e'"
    using engine_env.verify_target_keeps [OF dm _ _ v] st(7) by (simp add: pool_inv_def)
  moreover have "speakable_pool e'"
    using speakable_pool_subset [OF _ engine_env.verify_addresses [OF dm _ v]] st(7,8) assms(3)
    by (simp add: pool_inv_def speakable_pool_iff)
  ultimately show ?thesis
    by (intro step_refines [OF assms(2,4) rem]) (use st v in simp_all)
qed

text \<open>The counts come first in the reply to STATS, so they are read whole even where the reply is cut off.\<close>

lemma stats_words:
  assumes "solid w" "wire_word w"
  shows "ipc_split (unwords [''OK'', ''live='' @ show_nat n, ''busy='' @ show_nat k] @ sp # w) =
    [''OK'', ''live='' @ show_nat n, ''busy='' @ show_nat k, w]"
proof -
  have "unwords [''OK'', ''live='' @ show_nat n, ''busy='' @ show_nat k] @ sp # w =
    unwords [''OK'', ''live='' @ show_nat n, ''busy='' @ show_nat k, w]" by simp
  moreover have "\<forall>x\<in>set [''OK'', ''live='' @ show_nat n, ''busy='' @ show_nat k, w]. wire_word x"
    using assms(2) by (auto intro!: wire_word_solid simp: is_space_def is_blank_def)
  ultimately show ?thesis by (simp only: ipc_split_unwords)
qed

lemma stats_reply_parses:
  assumes "live_count e < 2 ^ 64" "busy_count e < 2 ^ 64"
  shows "\<exists>top. parse_stats (stats_reply e) = Some \<lparr>st_live = live_count e, st_busy = busy_count e, st_top = top\<rparr>"
    "framable (stats_reply e)"
proof -
  let ?a = "unwords [''OK'', ''live='' @ show_nat (live_count e), ''busy='' @ show_nat (busy_count e)]"
  let ?w = "''top_mbps='' @ fixed4 (top_mbps e)"
  have b: "(2::nat) ^ 64 < 10 ^ 20" by simp
  have "length (show_nat (live_count e)) \<le> 20" "length (show_nat (busy_count e)) \<le> 20"
    using length_show_nat [OF less_trans [OF assms(1) b]] length_show_nat [OF less_trans [OF assms(2) b]] by simp_all
  then have la: "length ?a + 11 \<le> 80" by simp
  have "stats_reply e = take 127 (?a @ sp # ?w)" by (simp add: stats_reply_def snprintf_def)
  also have "\<dots> = ?a @ sp # take (126 - length ?a) ?w" using la by (simp add: take_Cons')
  finally have r: "stats_reply e = ?a @ sp # take (126 - length ?a) ?w" .
  obtain m where m: "126 - length ?a = 9 + m" by (rule that [of "117 - length ?a"]) (use la in linarith)
  let ?t = "''top_mbps='' @ take m (fixed4 (top_mbps e))"
  have "take (length xs + m) (xs @ ys) = xs @ take m ys" for xs ys :: string by simp
  note cut = this [of "''top_mbps=''"]
  have "length ''top_mbps='' = 9" by simp
  with cut have t: "take (126 - length ?a) ?w = ?t" by (simp only: m)
  have "solid ?w" by (simp add: is_space_def is_blank_def)
  then have st: "solid ?t" by (auto simp: solid_def dest: in_set_takeD)
  then have "wire_word ?t" by (intro wire_word_solid) simp_all
  from stats_words [OF st this] have split: "ipc_split (stats_reply e) =
      [''OK'', ''live='' @ show_nat (live_count e), ''busy='' @ show_nat (busy_count e), ?t]"
    by (simp only: r t)
  have "find_char CHR ''='' (''live='' @ s) = Some 4" "find_char CHR ''='' (''busy='' @ s) = Some 4"
    "find_char CHR ''='' (''top_mbps='' @ s) = Some 8" for s
    by (simp_all add: find_char_def)
  moreover have "\<exists>top. x = x\<lparr>st_top := top\<rparr>" for x :: proxy_stats by (rule exI [of _ "st_top x"]) simp
  ultimately have words: "stats_word x (''live='' @ show_nat (live_count e)) = x\<lparr>st_live := live_count e\<rparr>"
    "stats_word x (''busy='' @ show_nat (busy_count e)) = x\<lparr>st_busy := busy_count e\<rparr>"
    "\<exists>top. stats_word x ?t = x\<lparr>st_top := top\<rparr>" for x
    using assms by (auto simp: stats_word_def Let_def stoul_show_nat split: option.splits)
  from words(3) [of "\<lparr>st_live = live_count e, st_busy = busy_count e, st_top = Fin 0\<rparr>"]
  show "\<exists>top. parse_stats (stats_reply e) = Some \<lparr>st_live = live_count e, st_busy = busy_count e, st_top = top\<rparr>"
    by (simp add: parse_stats_def split words(1,2) [simplified])
  have "wordy (stats_reply e)" unfolding r t using st by (simp add: wordy_solid is_space_def is_blank_def)
  moreover have "length (stats_reply e) < k_ipc_max_line" by (simp add: stats_reply_def snprintf_def k_ipc_max_line_def)
  ultimately show "framable (stats_reply e)" by (rule wordy_framable)
qed

lemma remote_stats:
  assumes "in_step c p" "op_ok env (dp_engine p) Op_stats" "remote_op env Op_stats (c, p) = (r, c', p')"
  shows "in_step c' p' \<and> direct_op env Op_stats (cl_held c, dp_engine p) = (r, cl_held c', dp_engine p')"
proof -
  note st = in_step_conn [OF assms(1)]
  let ?k = "say (stats_reply (dp_engine p)) (dp_conn p)"
  have "live_count (dp_engine p) \<le> length (pool (dp_engine p))" "busy_count (dp_engine p) \<le> length (pool (dp_engine p))"
    by (simp_all add: live_count_def busy_count_def)
  then have "live_count (dp_engine p) < 2 ^ 64" "busy_count (dp_engine p) < 2 ^ 64" using assms(2) by simp_all
  from stats_reply_parses [OF this] obtain top where reply: "framable (stats_reply (dp_engine p))"
    "parse_stats (stats_reply (dp_engine p)) =
       Some \<lparr>st_live = live_count (dp_engine p), st_busy = busy_count (dp_engine p), st_top = top\<rparr>" by blast
  have f: "framable ''STATS''" "ipc_split ''STATS'' = [''STATS'']" by code_simp+
  have h: "handle_line env False ''STATS'' (dp_conn p) (dp_engine p) = (Cmd_ok, ?k, dp_engine p)"
    using f(2) st(5) by (simp add: handle_line_def)
  have ans: "daemon_ready env ''STATS'' p"
    "daemon_answer env ''STATS'' p = (stats_reply (dp_engine p), p\<lparr>dp_conn := ?k, dp_engine := dp_engine p\<rparr>)"
    using in_step_answer [OF assms(1) f(1) _ h _ reply(1)] f(2) by simp_all
  then have "remote_op env Op_stats (c, p) = (Got_stats (live_count (dp_engine p)) (busy_count (dp_engine p)),
      c\<lparr>cl_held := cl_held c\<rparr>, p\<lparr>dp_conn := ?k, dp_engine := dp_engine p\<rparr>)"
    using daemon_rpc.stats_answer [OF st(1,2) ans] reply(2) by simp
  then show ?thesis
    by (rule step_refines [OF assms(1,3)]) (use st in \<open>simp_all add: speakable_pool_iff\<close>)
qed

end
