(* ===== verification/Client_Props.thy ===== *)
theory Client_Props
  imports Client_Refines Pool_Props
begin

text \<open>
  The properties of the client: its refinement of direct use of the engine, and what late replies do
  to its leases.
\<close>

section \<open>Properties\<close>

text \<open>
  C13: The client refines direct use of the engine. While client and daemon are in step, each operation
  over the socket (words, framing and replies included) gives the result, the leases and the engine
  that the operation on the engine itself gives, and leaves client and daemon in step: the client's
  list of leases is the daemon's list for its connection.
\<close>

theorem client_refines_engine:
  assumes "daemon env" "\<forall>line. env_sends env line" "in_step c p" "op_ok env (dp_engine p) op"
    and "remote_op env op (c, p) = (r, c', p')"
  shows "in_step c' p' \<and> direct_op env op (cl_held c, dp_engine p) = (r, cl_held c', dp_engine p')"
proof (cases op)
  case (Op_acquire skip)
  show ?thesis
    using remote_acquire [OF assms(3) assms(4) [unfolded Op_acquire] assms(2) assms(5) [unfolded Op_acquire]]
    unfolding Op_acquire .
next
  case (Op_release u s v)
  show ?thesis
    using remote_release [OF assms(1,3) assms(4) [unfolded Op_release] assms(5) [unfolded Op_release]]
    unfolding Op_release .
next
  case Op_ping
  show ?thesis using remote_ping [OF assms(3) assms(5) [unfolded Op_ping]] unfolding Op_ping .
next
  case Op_stats
  show ?thesis
    using remote_stats [OF assms(3) assms(4) [unfolded Op_stats] assms(5) [unfolded Op_stats]]
    unfolding Op_stats .
next
  case (Op_target url)
  show ?thesis
    using remote_target [OF assms(1,3) assms(4) [unfolded Op_target] assms(5) [unfolded Op_target]]
    unfolding Op_target .
qed

definition idle_pool :: engine where
  "idle_pool = install_tested (env_sort quiet_env) (env_iter quiet_env)
     [demo_row ''http://a:1'' 0, demo_row ''http://b:2'' 0] (empty_engine demo_config)"

lemma idle_pool_ok: "pool_inv idle_pool"
  unfolding pool_inv_def idle_pool_def quiet_env_def daemon_env.simps
  by (intro conjI speed_sort.install_pool_ok speed_sort.install_unique;
      simp add: demo_row_fresh [unfolded fresh_row_def] pow2_def demo_row_def new_proxy_def
        empty_engine_def pool_ok_def sorted_speed_def row_ok_def)

definition demo_client :: client where
  "demo_client = new_client\<lparr>cl_fd := True, cl_path := ''/run/s''\<rparr>"

definition demo_peer :: daemon_peer where
  "demo_peer = \<lparr>dp_conn = fst (snd demo_greeted), dp_engine = idle_pool, dp_out = []\<rparr>"

lemma demo_in_step: "in_step demo_client demo_peer"
proof -
  have "pool_inv (dp_engine demo_peer)" using idle_pool_ok by (simp add: demo_peer_def)
  moreover have "cl_fd demo_client \<and> cl_leftover demo_client = [] \<and> dp_out demo_peer = [] \<and> c_open (dp_conn demo_peer) \<and>
    c_buf (dp_conn demo_peer) = [] \<and> greeted (dp_conn demo_peer) \<and> cl_held demo_client = held (dp_conn demo_peer)"
    "\<forall>q\<in>set (pool (dp_engine demo_peer)). speakable (address q)" by code_simp+
  ultimately show ?thesis by (simp add: in_step_def)
qed

lemma client_refines_engine_witness:
  "case remote_op quiet_env (Op_acquire []) (demo_client, demo_peer) of (r, c', p') \<Rightarrow>
     in_step c' p' \<and> cl_held c' = [''http://a:1'']"
proof -
  obtain r c' p' where o: "remote_op quiet_env (Op_acquire []) (demo_client, demo_peer) = (r, c', p')"
    by (metis prod_cases3)
  have s: "\<forall>line. env_sends quiet_env line" by (simp add: quiet_env_def)
  have k: "op_ok quiet_env (dp_engine demo_peer) (Op_acquire [])" by (simp add: k_ipc_max_line_def)
  have "fst (snd (direct_op quiet_env (Op_acquire []) (cl_held demo_client, dp_engine demo_peer))) = [''http://a:1'']"
    by code_simp
  with client_refines_engine [OF quiet.daemon_axioms s demo_in_step k o] o show ?thesis by simp
qed

section \<open>Late replies\<close>

text \<open>The daemon behind a link on which some reads time out before the reply is there.\<close>

definition slow_read :: "string \<Rightarrow> daemon_peer \<times> bool list \<Rightarrow> ipc_read_result \<times> string \<times> string \<times> daemon_peer \<times> bool list" where
  "slow_read leftover w =
     (case w of (p, late) \<Rightarrow>
        if late \<noteq> [] \<and> hd late then (Again, [], leftover, p, tl late)
        else case daemon_read leftover p of (st, line, leftover', p') \<Rightarrow> (st, line, leftover', p', tl late))"

definition slow_link :: "daemon_env \<Rightarrow> (daemon_peer \<times> bool list) link" where
  "slow_link env =
     \<lparr>lk_connect = (\<lambda>path w. (True, apfst daemon_connect w)), lk_close = apfst (daemon_hangup env),
      lk_write = (\<lambda>cmd w. case daemon_write env cmd (fst w) of (ok, p) \<Rightarrow> (ok, p, snd w)),
      lk_read = (\<lambda>timeout. slow_read), lk_spawn = (\<lambda>args w. w)\<rparr>"

text \<open>One lease; and then a second ACQUIRE whose reply is late.\<close>

definition late_first :: "(string \<times> double) option \<times> client \<times> daemon_peer \<times> bool list" where
  "late_first = client_acquire (slow_link quiet_env) [] [] demo_client (demo_peer, [False, True])"

definition late_second :: "bool \<times> string \<times> client \<times> daemon_peer \<times> bool list" where
  "late_second = (case late_first of (r, c, w) \<Rightarrow> client_rpc (slow_link quiet_env) ''ACQUIRE'' c w)"

text \<open>A keepalive PING whose reply is late, then an ACQUIRE.\<close>

definition late_ping :: "client \<times> daemon_peer \<times> bool list" where
  "late_ping = keepalive_tick (slow_link quiet_env) demo_client (demo_peer, [True])"

definition after_late_ping :: "(string \<times> double) option \<times> client \<times> daemon_peer \<times> bool list" where
  "after_late_ping = (case late_ping of (c, w) \<Rightarrow> client_acquire (slow_link quiet_env) [] [] c w)"

text \<open>
  A reply that comes after its timeout is read as the answer to the next command: after a late
  keepalive, ACQUIRE fails although the daemon leased a proxy to this connection.
\<close>

lemma late_reply_answers_next_command:
  "fst after_late_ping = None \<and> cl_held (fst (snd after_late_ping)) = [] \<and>
   held (dp_conn (fst (snd (snd after_late_ping)))) = [''http://a:1'']"
  by (intro conjI) code_simp+

lemma reconnect_drops_leases: "client_reconnect lk c w = (up, c', w') \<Longrightarrow> cl_held c' = []"
  by (auto simp: client_reconnect_def client_connect_def client_close_def client_hello_def reset_fd_def Let_def
    split: if_splits prod.splits)

lemma rpc_keeps_leases:
  assumes "cl_held c \<noteq> []" "cl_fd c" "client_rpc lk cmd c w = (False, reply, c', w')"
  shows "cl_held c' = cl_held c \<and> cl_fd c'"
  using assms by (auto simp: client_rpc_def rpc_once_def split: if_splits prod.splits)

text \<open>
  The guard of \<open>rpc\<close> and how \<open>acquire\<close> goes round it. An exchange that fails while leases are held
  leaves the connection and the leases, as the comment of \<open>rpc\<close> wants it; but a turn of \<open>acquire\<close> whose
  exchange fails reconnects all the same, and the client has no lease any more, although other
  workers of the process are using them.
\<close>

lemma acquire_drops_leases:
  assumes "cl_held c \<noteq> []" "cl_fd c" "client_rpc lk cmd c w = (False, reply, c', w')"
    and "acquire_turn lk cmd c w = (result, c'', w'')"
  shows "cl_held c' = cl_held c \<and> cl_fd c' \<and> result = None \<and> cl_held c'' = []"
proof -
  have "result = None \<and> cl_held c'' = []"
    using assms(3,4) reconnect_drops_leases by (auto simp: acquire_turn_def split: prod.splits)
  with rpc_keeps_leases [OF assms(1-3)] show ?thesis by simp
qed

lemma acquire_drops_leases_witness:
  "case late_first of (r, c, w) \<Rightarrow> cl_held c = [''http://a:1''] \<and>
     cl_held (fst (snd (acquire_turn (slow_link quiet_env) ''ACQUIRE'' c w))) = []"
proof -
  obtain r c w where f: "late_first = (r, c, w)" by (metis prod_cases3)
  obtain ok reply c' w' where o: "client_rpc (slow_link quiet_env) ''ACQUIRE'' c w = (ok, reply, c', w')"
    by (metis prod_cases4)
  have k: "cl_held (fst (snd late_first)) = [''http://a:1'']" "cl_fd (fst (snd late_first))" "\<not> fst late_second"
    by code_simp+
  then have c: "cl_held c \<noteq> []" "cl_fd c" "\<not> ok" by (simp_all add: late_second_def f o)
  obtain result c'' w'' where t: "acquire_turn (slow_link quiet_env) ''ACQUIRE'' c w = (result, c'', w'')"
    by (metis prod_cases3)
  show ?thesis using acquire_drops_leases [OF c(1,2) _ t] o c(3) k(1) by (simp add: f t)
qed

end
