(* ===== verification/Scorer.thy ===== *)
theory Scorer
  imports Engine_Laws "HOL-Library.AList" "HOL-Library.List_Lexorder" "HOL-Library.Char_ord"
begin

text \<open>
  How proxies are tested (\<open>src/proxy_engine.cpp\<close>): \<open>test_proxies_multi\<close> scores candidates against the
  test URL, the transfers of \<open>verify_target\<close> check the pool against a target, and \<open>refresh\<close>,
  \<open>try_reuse_cache\<close> and the threads of \<open>start\<close> and \<open>stop\<close> decide what is scored and installed.

  libcurl is a script: each turn of a loop has the messages \<open>curl_multi_info_read\<close> gives, the number
  of running transfers \<open>curl_multi_perform\<close> reports, and the values of \<open>stop_flag_\<close> that the turn reads.
  A script that ends before its loop gives \<open>None\<close>. Job \<open>i\<close> is the transfer of the candidate \<open>i\<close>.
\<close>

section \<open>Transfers\<close>

record done_msg =
  dm_job :: nat
  dm_ok :: bool
  dm_bytes :: int
  dm_code :: int
  dm_secs :: rat

record turn =
  tn_stop :: bool
  tn_msgs :: "done_msg list"
  tn_still :: nat
  tn_stop_after :: bool

text \<open>
  \<open>te_multi\<close>, \<open>te_easy\<close>: whether libcurl gives the multi handle, and the easy handle for a candidate.
  \<open>te_stop_add\<close>: the flag as it is read before a candidate is added. \<open>te_still\<close>: the transfers running
  after the first \<open>curl_multi_perform\<close>.
\<close>

record transfer_env =
  te_multi :: bool
  te_easy :: "nat \<Rightarrow> bool"
  te_stop_add :: "nat \<Rightarrow> bool"
  te_still :: nat
  te_turns :: "turn list"

text \<open>What both loops keep: the index of the next candidate, the jobs in flight, and their number.\<close>

record transfers =
  tr_next :: nat
  tr_jobs :: "nat list"
  tr_inflight :: int

definition inflight_cap :: "engine_config \<Rightarrow> int" where
  "inflight_cap c = (if max_inflight c > 0 then max_inflight c else 96)"

text \<open>One attempt to add a candidate: whether to try another.\<close>

definition add_transfer ::
  "transfer_env \<Rightarrow> nat \<Rightarrow> int \<Rightarrow> 'a transfers_scheme \<Rightarrow> bool \<times> 'a transfers_scheme" where
  "add_transfer te total_n cap s =
     (if tr_next s \<ge> total_n \<or> tr_inflight s \<ge> cap \<or> te_stop_add te (tr_next s) then (False, s)
      else let i = tr_next s; s = s\<lparr>tr_next := i + 1\<rparr>
           in if \<not> te_easy te i then (True, s)
              else (True, s\<lparr>tr_jobs := tr_jobs s @ [i], tr_inflight := tr_inflight s + 1\<rparr>))"

text \<open>The loop that fills the free places.\<close>

function fill_transfers ::
  "transfer_env \<Rightarrow> nat \<Rightarrow> int \<Rightarrow> 'a transfers_scheme \<Rightarrow> 'a transfers_scheme" where
  "fill_transfers te total_n cap s =
     (case add_transfer te total_n cap s of
        (True, s') \<Rightarrow> fill_transfers te total_n cap s'
      | (False, s') \<Rightarrow> s')"
  by pat_completeness auto
termination
  by (relation "measure (\<lambda>(te, total_n, cap, s). total_n - tr_next s)")
    (auto simp: add_transfer_def Let_def split: if_splits)

declare fill_transfers.simps [simp del]

text \<open>
  The loop \<open>while (still > 0 && !stop_flag_)\<close>, with the body of one turn: it says whether to break.
\<close>

fun transfer_loop :: "(turn \<Rightarrow> 's \<Rightarrow> bool \<times> 's) \<Rightarrow> nat \<Rightarrow> turn list \<Rightarrow> 's \<Rightarrow> 's option" where
  "transfer_loop body still [] s = (if still = 0 then Some s else None)"
| "transfer_loop body still (t # ts) s =
     (if still = 0 \<or> tn_stop t then Some s
      else case body t s of
        (True, s') \<Rightarrow> Some s'
      | (False, s') \<Rightarrow> transfer_loop body (tn_still t) ts s')"

definition end_job :: "nat \<Rightarrow> 'a transfers_scheme \<Rightarrow> 'a transfers_scheme" where
  "end_job j s = s\<lparr>tr_jobs := remove1 j (tr_jobs s), tr_inflight := tr_inflight s - 1\<rparr>"

section \<open>Scoring\<close>

record scoring = transfers +
  sc_tested :: "proxy list"
  sc_curl_ok :: nat
  sc_completed :: nat
  sc_stop_adding :: bool
  sc_emits :: "(nat \<times> nat \<times> nat \<times> nat \<times> bool) list"

definition new_scoring :: scoring where
  "new_scoring =
     \<lparr>tr_next = 0, tr_jobs = [], tr_inflight = 0, sc_tested = [], sc_curl_ok = 0, sc_completed = 0,
      sc_stop_adding = False, sc_emits = []\<rparr>"

definition k_min_test_bytes :: int where
  "k_min_test_bytes = 1024"

text \<open>The double nearest to 0.01, to which a shorter time is raised.\<close>

definition min_secs :: rat where
  "min_secs = 5764607523034235 / 2 ^ 59"

definition clamp_secs :: "rat \<Rightarrow> rat" where
  "clamp_secs secs = (if secs < min_secs then min_secs else secs)"

text \<open>\<open>static_cast<int>\<close> of a time in milliseconds, which the transfer's timeout keeps in range.\<close>

definition int_of_double :: "double \<Rightarrow> int" where
  "int_of_double x = (case x of Fin q \<Rightarrow> (if 0 \<le> q then \<lfloor>q\<rfloor> else - \<lfloor>- q\<rfloor>) | _ \<Rightarrow> 0)"

text \<open>The row of a transfer that passes the tests on its result, size, status and speed.\<close>

definition scored_row :: "string \<Rightarrow> done_msg \<Rightarrow> proxy option" where
  "scored_row a m =
     (if dm_ok m \<and> dm_bytes m \<ge> k_min_test_bytes \<and> (dm_code m = 0 \<or> dm_code m = 200 \<or> dm_code m = 206)
      then let secs = clamp_secs (dm_secs m);
               p = (new_proxy a)\<lparr>speed_mbps := ddiv_pos (ddiv_pos (dbl_round (of_int (dm_bytes m))) (1024 * 1024)) secs,
                                 latency_ms := int_of_double (dmul (Fin secs) (Fin 1000)), alive := True\<rparr>
           in if dgt (speed_mbps p) (dbl_round (2 / 100)) then Some p else None
      else None)"

definition score_add :: "transfer_env \<Rightarrow> nat \<Rightarrow> int \<Rightarrow> scoring \<Rightarrow> bool \<times> scoring" where
  "score_add te total_n cap s =
     (if sc_stop_adding s then (False, s) else add_transfer te total_n cap s)"

definition score_emit :: "nat \<Rightarrow> bool \<Rightarrow> scoring \<Rightarrow> scoring" where
  "score_emit total_n final s =
     s\<lparr>sc_emits := sc_emits s @ [(sc_completed s, total_n, length (sc_tested s), sc_curl_ok s, final)]\<rparr>"

text \<open>One finished transfer.\<close>

definition score_msg ::
  "transfer_env \<Rightarrow> int \<Rightarrow> nat \<Rightarrow> nat \<Rightarrow> string list \<Rightarrow> done_msg \<Rightarrow> scoring \<Rightarrow> scoring" where
  "score_msg te cap want_live must_test_first cands m s =
     (let s = (if dm_ok m then s\<lparr>sc_curl_ok := sc_curl_ok s + 1\<rparr> else s);
          s = (case scored_row (cands ! dm_job m) m of
                 Some p \<Rightarrow> s\<lparr>sc_tested := sc_tested s @ [p]\<rparr>
               | None \<Rightarrow> s);
          s = (end_job (dm_job m) s)\<lparr>sc_completed := sc_completed s + 1\<rparr>;
          s = (if length (sc_tested s) \<ge> want_live \<and> tr_next s \<ge> must_test_first
               then s\<lparr>sc_stop_adding := True\<rparr> else s)
      in if sc_stop_adding s then s else snd (score_add te (length cands) cap s))"

text \<open>The end of a turn: whether enough rows are there or the engine stops, which aborts what is in flight.\<close>

definition score_turn_end :: "nat \<Rightarrow> turn \<Rightarrow> scoring \<Rightarrow> bool \<times> scoring" where
  "score_turn_end total_n t s =
     (if (sc_stop_adding s \<and> tr_inflight s > 0) \<or> tn_stop_after t
      then (True, s\<lparr>tr_jobs := [], tr_inflight := 0, sc_completed := total_n\<rparr>)
      else (False, score_emit total_n False s))"

definition score_turn ::
  "transfer_env \<Rightarrow> int \<Rightarrow> nat \<Rightarrow> nat \<Rightarrow> string list \<Rightarrow> turn \<Rightarrow> scoring \<Rightarrow> bool \<times> scoring" where
  "score_turn te cap want_live must_test_first cands t s =
     score_turn_end (length cands) t
       (fold (score_msg te cap want_live must_test_first cands) (tn_msgs t) s)"

definition scoring_start :: "transfer_env \<Rightarrow> engine_config \<Rightarrow> string list \<Rightarrow> scoring" where
  "scoring_start te c cands =
     score_emit (length cands) False (fill_transfers te (length cands) (inflight_cap c) new_scoring)"

definition test_proxies_multi ::
  "transfer_env \<Rightarrow> engine_config \<Rightarrow> string list \<Rightarrow> nat \<Rightarrow> scoring option" where
  "test_proxies_multi te c cands must_test_first =
     (if \<not> te_multi te then Some new_scoring
      else map_option (score_emit (length cands) True)
        (transfer_loop (score_turn te (inflight_cap c) (max_keep c) must_test_first cands) (te_still te)
           (te_turns te) (scoring_start te c cands)))"

section \<open>Checking against a target\<close>

text \<open>The transfers of \<open>verify_target\<close>; \<open>ok_speed\<close> is the hash map from address to speed.\<close>

record target_check = transfers +
  ck_ok_speed :: "(string \<times> double) list"

definition check_msg :: "transfer_env \<Rightarrow> int \<Rightarrow> string list \<Rightarrow> done_msg \<Rightarrow> target_check \<Rightarrow> target_check" where
  "check_msg te cap addrs m s =
     (let s = (if dm_ok m \<and> (dm_code m = 206 \<or> dm_code m = 200)
               then s\<lparr>ck_ok_speed := AList.update (addrs ! dm_job m)
                        (ddiv_pos (ddiv_pos (Fin 8192) (1024 * 1024)) (clamp_secs (dm_secs m))) (ck_ok_speed s)\<rparr>
               else s)
      in fill_transfers te (length addrs) cap (end_job (dm_job m) s))"

definition check_turn :: "transfer_env \<Rightarrow> int \<Rightarrow> string list \<Rightarrow> turn \<Rightarrow> target_check \<Rightarrow> bool \<times> target_check" where
  "check_turn te cap addrs t s = (False, fold (check_msg te cap addrs) (tn_msgs t) s)"

definition check_start :: "transfer_env \<Rightarrow> engine_config \<Rightarrow> string list \<Rightarrow> target_check" where
  "check_start te c addrs =
     fill_transfers te (length addrs) (inflight_cap c)
       \<lparr>tr_next = 0, tr_jobs = [], tr_inflight = 0, ck_ok_speed = []\<rparr>"

text \<open>Outer \<open>None\<close>: the script ends first. Inner \<open>None\<close>: no multi handle.\<close>

definition check_proxies ::
  "transfer_env \<Rightarrow> engine_config \<Rightarrow> string list \<Rightarrow> (string \<times> double) list option option" where
  "check_proxies te c addrs =
     (if \<not> te_multi te then Some None
      else map_option (\<lambda>s. Some (ck_ok_speed s))
        (transfer_loop (check_turn te (inflight_cap c) addrs) (te_still te) (te_turns te)
           (check_start te c addrs)))"

section \<open>Refreshing the pool\<close>

text \<open>\<open>fetch_all_lists\<close>: the sources, and the lists parsed from the bodies that were received.\<close>

definition list_sources :: "(string \<times> string) list" where
  "list_sources =
     [(''https://raw.githubusercontent.com/TheSpeedX/PROXY-List/master/http.txt'', ''http://''),
      (''https://raw.githubusercontent.com/monosans/proxy-list/main/proxies/http.txt'', ''http://''),
      (''https://raw.githubusercontent.com/ProxyScraper/ProxyScraper/main/http.txt'', ''http://''),
      (''https://raw.githubusercontent.com/clarketm/proxy-list/master/proxy-list-raw.txt'', ''http://''),
      (''https://raw.githubusercontent.com/ShiftyTR/Proxy-List/master/http.txt'', ''http://''),
      (''https://raw.githubusercontent.com/jetkai/proxy-list/main/online-proxies/txt/proxies-http.txt'', ''http://''),
      (''https://api.proxyscrape.com/v2/?request=displayproxies&protocol=http&timeout=8000&country=all&ssl=all&anonymity=all'', ''http://''),
      (''https://raw.githubusercontent.com/proxifly/free-proxy-list/main/proxies/protocols/http/data.txt'', ''http://''),
      (''https://raw.githubusercontent.com/TheSpeedX/PROXY-List/master/socks5.txt'', ''socks5h://''),
      (''https://raw.githubusercontent.com/monosans/proxy-list/main/proxies/socks5.txt'', ''socks5h://'')]"

definition fetch_all_lists :: "(string \<Rightarrow> string) \<Rightarrow> string list" where
  "fetch_all_lists body = concat (map (\<lambda>(url, scheme). parse_proxy_body (body url) scheme) list_sources)"

text \<open>
  \<open>refresh\<close> up to \<open>install_tested\<close>: the rows it installs, \<open>None\<close> when it returns before. \<open>shuffled\<close> is
  \<open>std::shuffle\<close>; \<open>srt\<close> is the sort of the rows, as in the pool.
\<close>

definition refresh_candidates :: "engine_config \<Rightarrow> (string \<Rightarrow> string) \<Rightarrow> (string list \<Rightarrow> string list) \<Rightarrow> string list" where
  "refresh_candidates c body shuffled =
     (let rest = (if fetch_public c then shuffled (remdups_adj (sort (fetch_all_lists body))) else [])
      in local_proxy_urls c @ rest)"

definition refresh_pass ::
  "(proxy list \<Rightarrow> proxy list) \<Rightarrow> engine_config \<Rightarrow> string list \<Rightarrow> transfer_env \<Rightarrow> bool \<Rightarrow> proxy list option option" where
  "refresh_pass srt c candidates te stopped =
     (if candidates = [] then Some None
      else map_option (\<lambda>s. if stopped then None else Some (srt (sc_tested s)))
        (test_proxies_multi te c candidates (length (local_proxy_urls c))))"

text \<open>\<open>try_reuse_cache\<close>: its result, and the rows it installs.\<close>

definition reuse_pass ::
  "(proxy list \<Rightarrow> proxy list) \<Rightarrow> engine_config \<Rightarrow> string option \<Rightarrow> bool \<Rightarrow> transfer_env \<Rightarrow> bool \<Rightarrow>
   (bool \<times> proxy list option) option" where
  "reuse_pass srt c cache stopped_before te stopped =
     (if \<not> use_cache c then Some (False, None)
      else let cached = load_cache cache
           in if cached = [] then Some (False, None)
              else if length cached < max_keep c then Some (False, None)
              else let locals = local_proxy_urls c
                   in if stopped_before then Some (True, None)
                      else map_option
                        (\<lambda>s. if stopped then (True, None)
                             else let tested = take (max_keep c) (srt (sc_tested s))
                                  in if length tested < 3 then (False, None) else (True, Some tested))
                        (test_proxies_multi te c (locals @ cached) (length locals)))"

text \<open>The steps of the pool that follow; both write the cache file after it.\<close>

definition apply_pass ::
  "(proxy list \<Rightarrow> proxy list) \<Rightarrow> (proxy list \<Rightarrow> proxy list) \<Rightarrow> proxy list option \<Rightarrow> engine \<Rightarrow> engine \<times> string option" where
  "apply_pass srt itr rows e =
     (case rows of
        None \<Rightarrow> (e, None)
      | Some tested \<Rightarrow> (let e = install_tested srt itr tested e in (e, save_cache e)))"

text \<open>
  The thread of \<open>start\<close>: the cache first, and a full pass when it was no use. \<open>reuse\<close> and \<open>fresh\<close> are
  what the two passes give; the flags are the readings of \<open>stop_flag_\<close> around them.
\<close>

definition warm_up ::
  "(proxy list \<Rightarrow> proxy list) \<Rightarrow> (proxy list \<Rightarrow> proxy list) \<Rightarrow> bool \<Rightarrow> bool \<times> proxy list option \<Rightarrow> bool \<Rightarrow>
   proxy list option \<Rightarrow> engine \<Rightarrow> engine" where
  "warm_up srt itr stop_before reuse stop_between fresh e =
     (if stop_before then e
      else let e = fst (apply_pass srt itr (snd reuse) e)
           in if fst reuse \<or> stop_between then e else fst (apply_pass srt itr fresh e))"

text \<open>
  One round of the updater thread: it sleeps 100 ms at a time until \<open>total_ms\<close> and reads the stop
  flags each time; the result says whether it refreshes. \<open>total_ms\<close> is \<open>refresh_sec * 1000\<close>, undefined
  on overflow (\<open>None\<close>).
\<close>

definition updater_total_ms :: "int \<Rightarrow> int option" where
  "updater_total_ms secs = (if secs * 1000 < 2 ^ 31 then Some (secs * 1000) else None)"

fun updater_round :: "int \<Rightarrow> int \<Rightarrow> bool list \<Rightarrow> bool option" where
  "updater_round total_ms slept [] = None"
| "updater_round total_ms slept (stopped # reads) =
     (if slept < total_ms \<and> \<not> stopped then updater_round total_ms (slept + 100) reads else Some (\<not> stopped))"

text \<open>\<open>stop\<close>: the cache is written once the threads are joined, when the engine was running.\<close>

definition stop_engine :: "bool \<Rightarrow> engine \<Rightarrow> string option" where
  "stop_engine was_running e = (if was_running then save_cache e else None)"

end
