(* ===== verification/Scorer_Laws.thy ===== *)
theory Scorer_Laws
  imports Scorer Pool_Props
begin

text \<open>
  The two transfer loops share a contract, the locale \<open>transfer_rounds\<close>: a message takes its job out of
  the ones in flight and the work that is left shrinks. Its laws say that a loop ends once enough
  transfers have ended, and that what holds of every step holds of the result. Both loops are
  interpretations; the properties of scoring, checking and refreshing follow.
\<close>

section \<open>What libcurl promises\<close>

text \<open>
  A turn's messages are for different jobs in flight, and the transfers that still run are the others.
\<close>

definition turn_ok :: "turn \<Rightarrow> 'a transfers_scheme \<Rightarrow> bool" where
  "turn_ok t s \<longleftrightarrow> mset (map dm_job (tn_msgs t)) \<subseteq># mset (tr_jobs s) \<and>
     tn_still t + length (tn_msgs t) = length (tr_jobs s)"

fun script_ok ::
  "(turn \<Rightarrow> 'a transfers_scheme \<Rightarrow> bool \<times> 'a transfers_scheme) \<Rightarrow> nat \<Rightarrow> turn list \<Rightarrow> 'a transfers_scheme \<Rightarrow> bool" where
  "script_ok body still [] s = (still \<le> length (tr_jobs s))"
| "script_ok body still (t # ts) s =
     (still \<le> length (tr_jobs s) \<and>
      (still = 0 \<or> tn_stop t \<or> turn_ok t s \<and>
         (case body t s of (brk, s') \<Rightarrow> brk \<or> script_ok body (tn_still t) ts s')))"

text \<open>The turns in which a transfer ends; the timeouts of every transfer bring them about.\<close>

definition ending_turns :: "turn list \<Rightarrow> nat" where
  "ending_turns ts = length (filter (\<lambda>t. tn_msgs t \<noteq> []) ts)"

section \<open>Transfers\<close>

definition todo :: "nat \<Rightarrow> 'a transfers_scheme \<Rightarrow> nat" where
  "todo n s = (n - tr_next s) + length (tr_jobs s)"

definition transfers_ok :: "nat \<Rightarrow> int \<Rightarrow> 'a transfers_scheme \<Rightarrow> bool" where
  "transfers_ok n cap s \<longleftrightarrow> tr_next s \<le> n \<and> tr_inflight s = int (length (tr_jobs s)) \<and>
     tr_inflight s \<le> cap \<and> mset (tr_jobs s) \<subseteq># mset [0..<tr_next s]"

definition advance :: "nat \<Rightarrow> 'a transfers_scheme \<Rightarrow> 'a transfers_scheme \<Rightarrow> bool" where
  "advance n s s' \<longleftrightarrow> todo n s' \<le> todo n s \<and> mset (tr_jobs s) \<subseteq># mset (tr_jobs s')"

lemma advance_refl [simp]: "advance n s s"
  by (simp add: advance_def)

lemma advance_trans: "advance n s s' \<Longrightarrow> advance n s' s'' \<Longrightarrow> advance n s s''"
  unfolding advance_def by (meson order_trans subset_mset.order_trans)

lemma add_transfer_cases [consumes 1, case_names same skip add]:
  assumes "add_transfer te n cap s = (b, s')"
  obtains "s' = s"
  | "tr_next s < n" "s' = s\<lparr>tr_next := Suc (tr_next s)\<rparr>"
  | "tr_next s < n" "tr_inflight s < cap"
    "s' = s\<lparr>tr_next := Suc (tr_next s), tr_jobs := tr_jobs s @ [tr_next s], tr_inflight := tr_inflight s + 1\<rparr>"
proof (cases "tr_next s \<ge> n \<or> tr_inflight s \<ge> cap \<or> te_stop_add te (tr_next s)")
  case True
  then show ?thesis using assms that(1) by (simp add: add_transfer_def)
next
  case False
  then show ?thesis
    using assms that(2,3) by (cases "te_easy te (tr_next s)") (auto simp: add_transfer_def Let_def)
qed

lemma upto_Suc_mset: "mset js \<subseteq># mset [0..<k] \<Longrightarrow> mset js \<subseteq># mset [0..<Suc k] \<and> mset (js @ [k]) \<subseteq># mset [0..<Suc k]"
  by (auto simp: subseteq_mset_def le_SucI simp del: mset_upt)

lemma diff_mset_mono: "A \<subseteq># B \<Longrightarrow> A - C \<subseteq># B - C"
  by (simp add: subseteq_mset_def diff_le_mono)

lemma add_transfer_ok: "add_transfer te n cap s = (b, s') \<Longrightarrow> transfers_ok n cap s \<Longrightarrow> transfers_ok n cap s'"
  by (erule add_transfer_cases) (use upto_Suc_mset [of "tr_jobs s" "tr_next s"] in
    \<open>auto simp: transfers_ok_def simp del: mset_upt upt_Suc mset_append\<close>)

lemma add_transfer_advance: "add_transfer te n cap s = (b, s') \<Longrightarrow> advance n s s'"
  by (erule add_transfer_cases) (auto simp: advance_def todo_def)

lemma fill_transfers_induct:
  assumes "P s" "\<And>s b s'. P s \<Longrightarrow> add_transfer te n cap s = (b, s') \<Longrightarrow> P s'"
  shows "P (fill_transfers te n cap s)"
  using assms
proof (induction te n cap s rule: fill_transfers.induct)
  case (1 te n cap s)
  obtain b s' where a: "add_transfer te n cap s = (b, s')" by (rule prod.exhaust)
  have p: "P s'" by (rule "1.prems"(2) [OF "1.prems"(1) a])
  show ?case
  proof (cases b)
    case True
    then have "P (fill_transfers te n cap s')"
      using "1.IH" [OF a [symmetric]] p "1.prems"(2) by blast
    then show ?thesis using a True by (simp add: fill_transfers.simps [of te n cap s])
  next
    case False
    then show ?thesis using a p by (simp add: fill_transfers.simps [of te n cap s])
  qed
qed

lemma fill_transfers_ok: "transfers_ok n cap s \<Longrightarrow> transfers_ok n cap (fill_transfers te n cap s)"
  by (rule fill_transfers_induct [where P = "transfers_ok n cap"]) (auto intro: add_transfer_ok)

lemma fill_transfers_advance: "advance n s (fill_transfers te n cap s)"
  by (rule fill_transfers_induct [where P = "advance n s"]) (auto intro: advance_trans add_transfer_advance)

lemma end_job_ok:
  assumes "transfers_ok n cap s" "j \<in> set (tr_jobs s)"
  shows "transfers_ok n cap (end_job j s)"
proof -
  have "mset (remove1 j (tr_jobs s)) \<subseteq># mset (tr_jobs s)" by simp
  then have "mset (remove1 j (tr_jobs s)) \<subseteq># mset [0..<tr_next s]"
    using assms(1) subset_mset.order_trans unfolding transfers_ok_def by blast
  moreover have "Suc (length (remove1 j (tr_jobs s))) = length (tr_jobs s)"
    using assms(2) length_pos_if_in_set [of j "tr_jobs s"] by (simp add: length_remove1)
  then have "int (length (remove1 j (tr_jobs s))) = int (length (tr_jobs s)) - 1" by linarith
  ultimately show ?thesis
    using assms by (simp add: transfers_ok_def end_job_def del: mset_upt mset_remove1)
qed

lemma end_job_todo: "j \<in> set (tr_jobs s) \<Longrightarrow> Suc (todo n (end_job j s)) = todo n s"
  using length_pos_if_in_set [of j "tr_jobs s"] by (simp add: todo_def end_job_def length_remove1)

text \<open>One step of a message: its job is done, the others stay, and the work shrinks.\<close>

definition job_ended :: "nat \<Rightarrow> nat \<Rightarrow> 'a transfers_scheme \<Rightarrow> 'a transfers_scheme \<Rightarrow> bool" where
  "job_ended n j s s' \<longleftrightarrow> Suc (todo n s') \<le> todo n s \<and> mset (tr_jobs s) - {#j#} \<subseteq># mset (tr_jobs s')"

lemma job_endedI:
  assumes "j \<in> set (tr_jobs s)" "tr_next s0 = tr_next s" "tr_jobs s0 = tr_jobs s" "advance n (end_job j s0) s'"
  shows "job_ended n j s s'"
proof -
  have "todo n (end_job j s0) = todo n (end_job j s)" "tr_jobs (end_job j s0) = remove1 j (tr_jobs s)"
    using assms(2,3) by (simp_all add: todo_def end_job_def)
  then show ?thesis
    using assms(4) end_job_todo [OF assms(1), of n] by (simp add: job_ended_def advance_def)
qed

section \<open>The loops\<close>

locale transfer_rounds =
  fixes step :: "done_msg \<Rightarrow> 'a transfers_scheme \<Rightarrow> 'a transfers_scheme"
    and post :: "turn \<Rightarrow> 'a transfers_scheme \<Rightarrow> bool \<times> 'a transfers_scheme"
    and total_n :: nat
    and inv :: "'a transfers_scheme \<Rightarrow> bool"
  assumes step_inv: "inv s \<Longrightarrow> dm_job m \<in> set (tr_jobs s) \<Longrightarrow> inv (step m s)"
    and step_ended: "dm_job m \<in> set (tr_jobs s) \<Longrightarrow> job_ended total_n (dm_job m) s (step m s)"
    and post_inv: "inv s \<Longrightarrow> inv (snd (post t s))"
    and post_goes_on: "post t s = (False, s') \<Longrightarrow> tr_next s' = tr_next s \<and> tr_jobs s' = tr_jobs s"
begin

definition round_of :: "turn \<Rightarrow> 'a transfers_scheme \<Rightarrow> bool \<times> 'a transfers_scheme" where
  "round_of t s = post t (fold step (tn_msgs t) s)"

lemma fold_step:
  assumes "inv s" "mset (map dm_job ms) \<subseteq># mset (tr_jobs s)"
  shows "inv (fold step ms s) \<and> todo total_n (fold step ms s) + length ms \<le> todo total_n s \<and>
    mset (tr_jobs s) - mset (map dm_job ms) \<subseteq># mset (tr_jobs (fold step ms s))"
  using assms
proof (induction ms arbitrary: s)
  case Nil
  then show ?case by simp
next
  case (Cons m ms)
  have m: "dm_job m \<in> set (tr_jobs s)"
    using Cons.prems(2) by (metis list.set_intros(1) list.simps(9) mset_subset_eqD set_mset_mset)
  have e: "Suc (todo total_n (step m s)) \<le> todo total_n s"
    "mset (tr_jobs s) - {#dm_job m#} \<subseteq># mset (tr_jobs (step m s))"
    using step_ended [OF m] by (simp_all add: job_ended_def)
  have r: "mset (map dm_job ms) \<subseteq># mset (tr_jobs s) - {#dm_job m#}"
    using Cons.prems(2) by (simp add: insert_subset_eq_iff)
  then have "mset (map dm_job ms) \<subseteq># mset (tr_jobs (step m s))"
    using e(2) subset_mset.order_trans by blast
  from Cons.IH [OF step_inv [OF Cons.prems(1) m] this]
  have i: "inv (fold step ms (step m s))" "todo total_n (fold step ms (step m s)) + length ms \<le> todo total_n (step m s)"
    "mset (tr_jobs (step m s)) - mset (map dm_job ms) \<subseteq># mset (tr_jobs (fold step ms (step m s)))"
    by simp_all
  have "(mset (tr_jobs s) - {#dm_job m#}) - mset (map dm_job ms) \<subseteq># mset (tr_jobs (step m s)) - mset (map dm_job ms)"
    using e(2) by (rule diff_mset_mono)
  with i e(1) show ?case
    using subset_mset.order_trans [of "mset (tr_jobs s) - {#dm_job m#} - mset (map dm_job ms)"] by simp
qed

lemma round_facts:
  assumes "inv s" "turn_ok t s" "round_of t s = (brk, s')"
  shows "inv s'" "\<not> brk \<Longrightarrow> todo total_n s' + length (tn_msgs t) \<le> todo total_n s"
    "\<not> brk \<Longrightarrow> tn_still t \<le> length (tr_jobs s')"
proof -
  let ?f = "fold step (tn_msgs t) s"
  have m: "mset (map dm_job (tn_msgs t)) \<subseteq># mset (tr_jobs s)" "tn_still t + length (tn_msgs t) = length (tr_jobs s)"
    using assms(2) by (simp_all add: turn_ok_def)
  note f = fold_step [OF assms(1) m(1)]
  show "inv s'" using post_inv [of ?f t] f assms(3) by (simp add: round_of_def)
  assume "\<not> brk"
  then have e: "tr_next s' = tr_next ?f" "tr_jobs s' = tr_jobs ?f"
    using post_goes_on [of t ?f s'] assms(3) by (simp_all add: round_of_def)
  show "todo total_n s' + length (tn_msgs t) \<le> todo total_n s" using f e by (simp add: todo_def)
  have "size (mset (tr_jobs s) - mset (map dm_job (tn_msgs t))) \<le> size (mset (tr_jobs s'))"
    using f e(2) size_mset_mono by metis
  then show "tn_still t \<le> length (tr_jobs s')" using m by (simp add: size_Diff_submset)
qed

lemma loop_inv:
  "script_ok round_of n ts s \<Longrightarrow> inv s \<Longrightarrow> transfer_loop round_of n ts s = Some s' \<Longrightarrow> inv s'"
proof (induction ts arbitrary: n s)
  case Nil
  then show ?case by (cases n) auto
next
  case (Cons t ts)
  show ?case
  proof (cases "n = 0 \<or> tn_stop t")
    case True
    then show ?thesis using Cons.prems(2,3) by (cases n) auto
  next
    case False
    obtain k where n: "n = Suc k" using False by (cases n) auto
    obtain brk s1 where r: "round_of t s = (brk, s1)" by (rule prod.exhaust)
    have "turn_ok t s" using Cons.prems(1) False n by simp
    from round_facts(1) [OF Cons.prems(2) this r] have i: "inv s1" .
    show ?thesis
    proof (cases brk)
      case True
      then show ?thesis using Cons.prems(3) False n r i by simp
    next
      case goes: False
      show ?thesis
        by (rule Cons.IH [OF _ i]) (use Cons.prems(1,3) False n r goes in simp_all)
    qed
  qed
qed

lemma loop_ends:
  "script_ok round_of n ts s \<Longrightarrow> inv s \<Longrightarrow> n \<le> length (tr_jobs s) \<Longrightarrow> todo total_n s \<le> ending_turns ts \<Longrightarrow>
   transfer_loop round_of n ts s \<noteq> None"
proof (induction ts arbitrary: n s)
  case Nil
  then show ?case by (simp add: todo_def ending_turns_def)
next
  case (Cons t ts)
  show ?case
  proof (cases "n = 0 \<or> tn_stop t")
    case True
    then show ?thesis by (cases n) auto
  next
    case False
    obtain k where n: "n = Suc k" using False by (cases n) auto
    obtain brk s1 where r: "round_of t s = (brk, s1)" by (rule prod.exhaust)
    have ok: "turn_ok t s" using Cons.prems(1) False n by simp
    note f = round_facts [OF Cons.prems(2) ok r]
    show ?thesis
    proof (cases brk)
      case True
      then show ?thesis using False n r by simp
    next
      case goes: False
      have "ending_turns (t # ts) \<le> length (tn_msgs t) + ending_turns ts"
        by (cases "tn_msgs t") (auto simp: ending_turns_def)
      then have "todo total_n s1 \<le> ending_turns ts" using Cons.prems(4) f(2) goes by simp
      moreover have "script_ok round_of (tn_still t) ts s1" using Cons.prems(1) False n r goes by simp
      ultimately have "transfer_loop round_of (tn_still t) ts s1 \<noteq> None"
        using Cons.IH [OF _ f(1)] f(3) goes by simp
      then show ?thesis using False n r goes by simp
    qed
  qed
qed

end

section \<open>Scoring\<close>

definition score_inv :: "int \<Rightarrow> nat \<Rightarrow> string list \<Rightarrow> scoring \<Rightarrow> bool" where
  "score_inv cap must_test_first cands s \<longleftrightarrow>
     transfers_ok (length cands) cap s \<and> (\<forall>p\<in>set (sc_tested s). fresh_row p) \<and>
     mset (map address (sc_tested s)) + mset (map ((!) cands) (tr_jobs s)) \<subseteq># mset (take (tr_next s) cands) \<and>
     (sc_stop_adding s \<longrightarrow> must_test_first \<le> tr_next s)"

lemma inflight_cap_pos [simp]: "0 < inflight_cap c"
  by (simp add: inflight_cap_def)

lemma clamp_secs_pos [simp]: "0 < clamp_secs x"
  by (auto simp: clamp_secs_def min_secs_def)

lemma scored_row_fresh:
  assumes "scored_row a m = Some p"
  shows "fresh_row p \<and> address p = a"
proof -
  have "speed_ok (ddiv_pos (ddiv_pos (dbl_round (of_int (dm_bytes m))) (1024 * 1024)) (clamp_secs (dm_secs m)))"
    if "k_min_test_bytes \<le> dm_bytes m"
    using that by (intro ddiv_speed_ok dbl_round_speed_ok) (simp_all add: k_min_test_bytes_def)
  then show ?thesis
    using assms by (auto simp: scored_row_def Let_def fresh_row_def row_ok_def new_proxy_def split: if_splits)
qed

lemma take_Suc_mset: "A \<subseteq># mset (take k cands) \<Longrightarrow> k < length cands \<Longrightarrow>
   A \<subseteq># mset (take (Suc k) cands) \<and> add_mset (cands ! k) A \<subseteq># mset (take (Suc k) cands)"
  by (auto simp: take_Suc_conv_app_nth subseteq_mset_def le_SucI)

lemma score_add_inv:
  assumes "score_inv cap must cands s" "score_add te (length cands) cap s = (b, s')"
  shows "score_inv cap must cands s'"
proof (cases "sc_stop_adding s")
  case True
  then show ?thesis using assms by (simp add: score_add_def)
next
  case False
  then have a: "add_transfer te (length cands) cap s = (b, s')" using assms(2) by (simp add: score_add_def)
  have ok: "transfers_ok (length cands) cap s'"
    using add_transfer_ok [OF a] assms(1) by (simp add: score_inv_def)
  show ?thesis
    using a
  proof (cases rule: add_transfer_cases)
    case same
    then show ?thesis using assms(1) by simp
  next
    case skip
    then show ?thesis using assms(1) ok take_Suc_mset by (auto simp: score_inv_def)
  next
    case add
    then show ?thesis using assms(1) ok take_Suc_mset by (auto simp: score_inv_def)
  qed
qed

lemma score_add_advance: "score_add te n cap s = (b, s') \<Longrightarrow> advance n s s'"
  by (auto simp: score_add_def split: if_splits intro: add_transfer_advance)

text \<open>The part of \<open>score_msg\<close> before it adds a candidate.\<close>

definition score_done :: "nat \<Rightarrow> nat \<Rightarrow> string list \<Rightarrow> done_msg \<Rightarrow> scoring \<Rightarrow> scoring" where
  "score_done want_live must cands m s =
     (let s = (if dm_ok m then s\<lparr>sc_curl_ok := sc_curl_ok s + 1\<rparr> else s);
          s = (case scored_row (cands ! dm_job m) m of
                 Some p \<Rightarrow> s\<lparr>sc_tested := sc_tested s @ [p]\<rparr>
               | None \<Rightarrow> s);
          s = (end_job (dm_job m) s)\<lparr>sc_completed := sc_completed s + 1\<rparr>
      in if length (sc_tested s) \<ge> want_live \<and> tr_next s \<ge> must then s\<lparr>sc_stop_adding := True\<rparr> else s)"

lemma score_msg_eq:
  "score_msg te cap want must cands m s =
     (let s = score_done want must cands m s
      in if sc_stop_adding s then s else snd (score_add te (length cands) cap s))"
  by (simp add: score_msg_def score_done_def Let_def)

lemma score_done_fields:
  "tr_next (score_done want must cands m s) = tr_next s"
  "tr_jobs (score_done want must cands m s) = remove1 (dm_job m) (tr_jobs s)"
  "tr_inflight (score_done want must cands m s) = tr_inflight s - 1"
  "sc_tested (score_done want must cands m s) =
     sc_tested s @ (case scored_row (cands ! dm_job m) m of Some p \<Rightarrow> [p] | None \<Rightarrow> [])"
  "sc_stop_adding (score_done want must cands m s) \<Longrightarrow> sc_stop_adding s \<or> must \<le> tr_next s"
  by (auto simp: score_done_def Let_def end_job_def split: option.splits if_splits)

lemma score_done_inv:
  assumes "score_inv cap must cands s" "dm_job m \<in> set (tr_jobs s)"
  shows "score_inv cap must cands (score_done want must cands m s)"
proof -
  let ?s = "score_done want must cands m s" and ?j = "dm_job m"
  have "transfers_ok (length cands) cap (end_job ?j s)"
    using assms by (intro end_job_ok) (simp_all add: score_inv_def)
  then have ok: "transfers_ok (length cands) cap ?s"
    by (simp add: transfers_ok_def end_job_def score_done_fields)
  have "mset (map ((!) cands) (tr_jobs s)) = add_mset (cands ! ?j) (mset (map ((!) cands) (remove1 ?j (tr_jobs s))))"
    using assms(2) by (metis image_mset_add_mset mset_map mset_remove1 insert_DiffM set_mset_mset)
  then have "mset (map address (sc_tested ?s)) + mset (map ((!) cands) (tr_jobs ?s)) \<subseteq>#
      mset (map address (sc_tested s)) + mset (map ((!) cands) (tr_jobs s))"
    using scored_row_fresh [of "cands ! ?j" m] by (auto simp: score_done_fields split: option.splits)
  moreover have "\<forall>p\<in>set (sc_tested ?s). fresh_row p"
    using assms(1) scored_row_fresh [of "cands ! ?j" m]
    by (auto simp: score_inv_def score_done_fields split: option.splits)
  ultimately show ?thesis
    using assms(1) ok score_done_fields(5) [of want must cands m s] subset_mset.order_trans
    unfolding score_inv_def score_done_fields(1) by blast
qed

lemma score_msg_inv:
  assumes "score_inv cap must cands s" "dm_job m \<in> set (tr_jobs s)"
  shows "score_inv cap must cands (score_msg te cap want must cands m s)"
  using score_done_inv [OF assms] score_add_inv [OF score_done_inv [OF assms]]
  by (auto simp: score_msg_eq Let_def) (metis prod.collapse)

lemma score_msg_ended:
  assumes "dm_job m \<in> set (tr_jobs s)"
  shows "job_ended (length cands) (dm_job m) s (score_msg te cap want must cands m s)"
proof -
  let ?s = "score_done want must cands m s" and ?s' = "score_msg te cap want must cands m s"
  have "advance (length cands) ?s ?s'"
    by (auto simp: score_msg_eq Let_def) (metis prod.collapse score_add_advance)
  moreover have "advance (length cands) (end_job (dm_job m) s) ?s"
    by (simp add: advance_def todo_def end_job_def score_done_fields)
  ultimately show ?thesis using assms by (intro job_endedI [of _ s s]) (auto intro: advance_trans)
qed

interpretation score_rounds:
  transfer_rounds "score_msg te cap want must cands" "score_turn_end (length cands)" "length cands"
    "score_inv cap must cands"
  for te cap want must cands
proof
  fix s s' :: scoring and m t
  show "score_inv cap must cands s \<Longrightarrow> dm_job m \<in> set (tr_jobs s) \<Longrightarrow>
      score_inv cap must cands (score_msg te cap want must cands m s)"
    by (rule score_msg_inv)
  show "dm_job m \<in> set (tr_jobs s) \<Longrightarrow> job_ended (length cands) (dm_job m) s (score_msg te cap want must cands m s)"
    by (rule score_msg_ended)
  show "score_turn_end (length cands) t s = (False, s') \<Longrightarrow> tr_next s' = tr_next s \<and> tr_jobs s' = tr_jobs s"
    by (auto simp: score_turn_end_def score_emit_def split: if_splits)
  assume i: "score_inv cap must cands s"
  have "mset (map address (sc_tested s)) \<subseteq># mset (take (tr_next s) cands)"
    using i unfolding score_inv_def by (meson mset_subset_eq_add_left subset_mset.order_trans)
  moreover have "0 \<le> cap" using i by (auto simp: score_inv_def transfers_ok_def)
  ultimately show "score_inv cap must cands (snd (score_turn_end (length cands) t s))"
    using i by (auto simp: score_turn_end_def score_emit_def score_inv_def transfers_ok_def)
qed

lemma score_round_of: "score_rounds.round_of te cap want must cands = score_turn te cap want must cands"
  by (intro ext) (simp add: score_rounds.round_of_def score_turn_def)

lemma score_start_ok:
  "score_inv (inflight_cap c) must cands (scoring_start te c cands)"
  "todo (length cands) (scoring_start te c cands) \<le> length cands"
proof -
  have p: "0 \<le> inflight_cap c" using inflight_cap_pos [of c] by linarith
  let ?f = "fill_transfers te (length cands) (inflight_cap c) new_scoring"
  have "score_inv (inflight_cap c) must cands ?f \<and> \<not> sc_stop_adding ?f"
  proof (rule fill_transfers_induct)
    show "score_inv (inflight_cap c) must cands new_scoring \<and> \<not> sc_stop_adding new_scoring"
      using p by (simp add: score_inv_def transfers_ok_def new_scoring_def)
  next
    fix s s' :: scoring and b
    assume i: "score_inv (inflight_cap c) must cands s \<and> \<not> sc_stop_adding s"
      and a: "add_transfer te (length cands) (inflight_cap c) s = (b, s')"
    then have "score_add te (length cands) (inflight_cap c) s = (b, s')" by (simp add: score_add_def)
    with i have "score_inv (inflight_cap c) must cands s'" using score_add_inv by blast
    moreover have "sc_stop_adding s' = sc_stop_adding s" using a by (cases rule: add_transfer_cases) auto
    ultimately show "score_inv (inflight_cap c) must cands s' \<and> \<not> sc_stop_adding s'" using i by simp
  qed
  then show "score_inv (inflight_cap c) must cands (scoring_start te c cands)"
    by (simp add: scoring_start_def score_emit_def score_inv_def transfers_ok_def)
  have "todo (length cands) ?f \<le> todo (length cands) new_scoring"
    using fill_transfers_advance [of "length cands" new_scoring te] by (simp add: advance_def)
  then show "todo (length cands) (scoring_start te c cands) \<le> length cands"
    by (simp add: scoring_start_def score_emit_def todo_def new_scoring_def)
qed

definition scoring_script :: "transfer_env \<Rightarrow> engine_config \<Rightarrow> string list \<Rightarrow> nat \<Rightarrow> bool" where
  "scoring_script te c cands must \<longleftrightarrow>
     te_still te \<le> length (tr_jobs (scoring_start te c cands)) \<and>
     script_ok (score_turn te (inflight_cap c) (max_keep c) must cands) (te_still te) (te_turns te)
       (scoring_start te c cands)"

lemma score_result:
  assumes "scoring_script te c cands must" "test_proxies_multi te c cands must = Some s"
  shows "score_inv (inflight_cap c) must cands s"
proof (cases "te_multi te")
  case True
  then obtain s' where l: "transfer_loop (score_turn te (inflight_cap c) (max_keep c) must cands) (te_still te)
      (te_turns te) (scoring_start te c cands) = Some s'" "s = score_emit (length cands) True s'"
    using assms(2) by (auto simp: test_proxies_multi_def)
  have "script_ok (score_turn te (inflight_cap c) (max_keep c) must cands) (te_still te) (te_turns te)
      (scoring_start te c cands)"
    using assms(1) by (simp add: scoring_script_def)
  from score_rounds.loop_inv [unfolded score_round_of, OF this score_start_ok(1) l(1)]
  have "score_inv (inflight_cap c) must cands s'" .
  then show ?thesis using l(2) by (simp add: score_emit_def score_inv_def transfers_ok_def)
next
  case False
  then show ?thesis
    using assms(2) less_imp_le [OF inflight_cap_pos [of c]]
    by (auto simp: test_proxies_multi_def score_inv_def transfers_ok_def new_scoring_def)
qed

section \<open>Checking\<close>

definition check_inv :: "int \<Rightarrow> string list \<Rightarrow> target_check \<Rightarrow> bool" where
  "check_inv cap addrs s \<longleftrightarrow>
     transfers_ok (length addrs) cap s \<and> distinct (map fst (ck_ok_speed s)) \<and>
     fst ` set (ck_ok_speed s) \<subseteq> set addrs \<and> (\<forall>(a, v)\<in>set (ck_ok_speed s). speed_ok v)"

text \<open>\<open>check_msg\<close> before it fills the free places.\<close>

definition check_done :: "string list \<Rightarrow> done_msg \<Rightarrow> target_check \<Rightarrow> target_check" where
  "check_done addrs m s =
     end_job (dm_job m)
       (if dm_ok m \<and> (dm_code m = 206 \<or> dm_code m = 200)
        then s\<lparr>ck_ok_speed := AList.update (addrs ! dm_job m)
                 (ddiv_pos (ddiv_pos (Fin 8192) (1024 * 1024)) (clamp_secs (dm_secs m))) (ck_ok_speed s)\<rparr>
        else s)"

lemma check_msg_eq: "check_msg te cap addrs m s = fill_transfers te (length addrs) cap (check_done addrs m s)"
  by (simp add: check_msg_def check_done_def)

lemma transfers_ok_job:
  assumes "transfers_ok n cap s" "j \<in> set (tr_jobs s)"
  shows "j < n"
proof -
  have "j \<in># mset [0..<tr_next s]"
    using assms unfolding transfers_ok_def by (metis mset_subset_eqD set_mset_mset)
  then show ?thesis using assms(1) by (simp add: transfers_ok_def)
qed

lemma update_set: "set (AList.update k v ps) \<subseteq> insert (k, v) (set ps)"
  by (induction ps) auto

lemma check_done_inv:
  assumes "check_inv cap addrs s" "dm_job m \<in> set (tr_jobs s)"
  shows "check_inv cap addrs (check_done addrs m s)"
proof -
  let ?s = "check_done addrs m s" and ?j = "dm_job m"
  let ?v = "ddiv_pos (ddiv_pos (Fin 8192) (1024 * 1024)) (clamp_secs (dm_secs m))"
  have j: "addrs ! ?j \<in> set addrs"
    using assms transfers_ok_job [of "length addrs" cap s ?j] by (simp add: check_inv_def)
  have v: "speed_ok ?v" by (intro ddiv_speed_ok) (simp_all add: pow2_def)
  have "transfers_ok (length addrs) cap (end_job ?j s)"
    using assms by (intro end_job_ok) (simp_all add: check_inv_def)
  then have ok: "transfers_ok (length addrs) cap ?s"
    by (simp add: transfers_ok_def end_job_def check_done_def)
  have e: "ck_ok_speed ?s = (if dm_ok m \<and> (dm_code m = 206 \<or> dm_code m = 200)
      then AList.update (addrs ! ?j) ?v (ck_ok_speed s) else ck_ok_speed s)"
    by (auto simp: check_done_def end_job_def)
  have sub: "set (ck_ok_speed ?s) \<subseteq> insert (addrs ! ?j, ?v) (set (ck_ok_speed s))"
    using update_set [of "addrs ! ?j" ?v "ck_ok_speed s"] unfolding e by auto
  have "distinct (map fst (ck_ok_speed ?s))"
    using assms(1) unfolding e by (simp add: check_inv_def distinct_update)
  moreover have "fst ` set (ck_ok_speed ?s) \<subseteq> set addrs"
    using assms(1) sub j unfolding check_inv_def by fastforce
  moreover have "\<forall>(a, v)\<in>set (ck_ok_speed ?s). speed_ok v"
    using assms(1) sub v unfolding check_inv_def by blast
  ultimately show ?thesis using ok by (simp add: check_inv_def)
qed

lemma check_fill_inv:
  assumes "check_inv cap addrs s"
  shows "check_inv cap addrs (fill_transfers te (length addrs) cap s)"
proof (rule fill_transfers_induct [where P = "check_inv cap addrs", OF assms])
  fix s s' :: target_check and b
  assume i: "check_inv cap addrs s" and a: "add_transfer te (length addrs) cap s = (b, s')"
  moreover have "ck_ok_speed s' = ck_ok_speed s" using a by (cases rule: add_transfer_cases) auto
  ultimately show "check_inv cap addrs s'" using add_transfer_ok [OF a] by (simp add: check_inv_def)
qed

interpretation check_rounds:
  transfer_rounds "check_msg te cap addrs" "\<lambda>t s. (False, s)" "length addrs" "check_inv cap addrs"
  for te cap addrs
proof
  fix s s' :: target_check and m t
  show "check_inv cap addrs s \<Longrightarrow> dm_job m \<in> set (tr_jobs s) \<Longrightarrow> check_inv cap addrs (check_msg te cap addrs m s)"
    unfolding check_msg_eq by (intro check_fill_inv check_done_inv)
  assume "dm_job m \<in> set (tr_jobs s)"
  moreover have "advance (length addrs) (end_job (dm_job m) s) (check_done addrs m s)"
    by (simp add: advance_def todo_def end_job_def check_done_def)
  ultimately show "job_ended (length addrs) (dm_job m) s (check_msg te cap addrs m s)"
    unfolding check_msg_eq by (intro job_endedI [of _ s s]) (auto intro: advance_trans fill_transfers_advance)
qed auto

lemma check_round_of: "check_rounds.round_of te cap addrs = check_turn te cap addrs"
  by (intro ext) (simp add: check_rounds.round_of_def check_turn_def)

lemma check_start_ok:
  "check_inv (inflight_cap c) addrs (check_start te c addrs)"
  "todo (length addrs) (check_start te c addrs) \<le> length addrs"
proof -
  have p: "0 \<le> inflight_cap c" using inflight_cap_pos [of c] by linarith
  show "check_inv (inflight_cap c) addrs (check_start te c addrs)"
    unfolding check_start_def using p by (intro check_fill_inv) (simp add: check_inv_def transfers_ok_def)
  show "todo (length addrs) (check_start te c addrs) \<le> length addrs"
    using fill_transfers_advance [of "length addrs" "\<lparr>tr_next = 0, tr_jobs = [], tr_inflight = 0, ck_ok_speed = []\<rparr>" te]
    by (simp add: check_start_def advance_def todo_def)
qed

definition check_script :: "transfer_env \<Rightarrow> engine_config \<Rightarrow> string list \<Rightarrow> bool" where
  "check_script te c addrs \<longleftrightarrow>
     te_still te \<le> length (tr_jobs (check_start te c addrs)) \<and>
     script_ok (check_turn te (inflight_cap c) addrs) (te_still te) (te_turns te) (check_start te c addrs)"

end
