(* ===== verification/Scorer_Props.thy ===== *)
theory Scorer_Props
  imports Scorer_Laws
begin

text \<open>
  The properties of scoring, checking and refreshing: what is scored, that the loops end, that passes
  leave the leases alone, and how the loops can end too early.
\<close>

section \<open>A small run\<close>

definition demo_msg :: "nat \<Rightarrow> done_msg" where
  "demo_msg j = \<lparr>dm_job = j, dm_ok = True, dm_bytes = 1048576, dm_code = 200, dm_secs = 1\<rparr>"

definition demo_turn :: "done_msg list \<Rightarrow> nat \<Rightarrow> turn" where
  "demo_turn ms n = \<lparr>tn_stop = False, tn_msgs = ms, tn_still = n, tn_stop_after = False\<rparr>"

definition demo_transfers :: transfer_env where
  "demo_transfers =
     \<lparr>te_multi = True, te_easy = (\<lambda>i. True), te_stop_add = (\<lambda>i. False), te_still = 2,
      te_turns = [demo_turn [demo_msg 0] 1, demo_turn [demo_msg 1] 0]\<rparr>"

definition demo_single :: transfer_env where
  "demo_single =
     \<lparr>te_multi = True, te_easy = (\<lambda>i. True), te_stop_add = (\<lambda>i. False), te_still = 1,
      te_turns = [demo_turn [demo_msg 0] 0]\<rparr>"

definition demo_cands :: "string list" where
  "demo_cands = [''http://a:1'', ''http://b:2'']"

lemma demo_msg_fields [simp]:
  "dm_job (demo_msg j) = j" "dm_ok (demo_msg j)" "dm_code (demo_msg j) = 200" "dm_secs (demo_msg j) = 1"
  by (simp_all add: demo_msg_def)

lemma demo_scored_row:
  "scored_row a (demo_msg j) = Some ((new_proxy a)\<lparr>speed_mbps := Fin 1, latency_ms := 1000\<rparr>)"
proof -
  have "dbl_round 1048576 = Fin 1048576" "ddiv_pos (Fin 1048576) 1048576 = Fin 1" "ddiv_pos (Fin 1) 1 = Fin 1"
    "dgt (Fin 1) (dbl_round (2 / 100))" "int_of_double (dmul (Fin 1) (Fin 1000)) = 1000" "clamp_secs 1 = 1"
    by code_simp+
  then show ?thesis by (simp add: scored_row_def demo_msg_def Let_def k_min_test_bytes_def new_proxy_def)
qed

lemma demo_starts:
  "scoring_start demo_transfers demo_config demo_cands =
     \<lparr>tr_next = 2, tr_jobs = [0, 1], tr_inflight = 2, sc_tested = [], sc_curl_ok = 0, sc_completed = 0,
      sc_stop_adding = False, sc_emits = [(0, 2, 0, 0, False)]\<rparr>"
  "scoring_start demo_single (demo_config\<lparr>max_inflight := 1\<rparr>) demo_cands =
     \<lparr>tr_next = 1, tr_jobs = [0], tr_inflight = 1, sc_tested = [], sc_curl_ok = 0, sc_completed = 0,
      sc_stop_adding = False, sc_emits = [(0, 2, 0, 0, False)]\<rparr>"
  "check_start demo_transfers demo_config demo_cands =
     \<lparr>tr_next = 2, tr_jobs = [0, 1], tr_inflight = 2, ck_ok_speed = []\<rparr>"
  by code_simp+

lemma fill_transfers_none_left: "n \<le> tr_next s \<Longrightarrow> fill_transfers te n cap s = s"
  by (simp add: fill_transfers.simps [of te n] add_transfer_def)

lemmas demo_defs = turn_ok_def score_turn_def score_msg_def score_turn_end_def score_emit_def score_add_def
  add_transfer_def end_job_def inflight_cap_def demo_transfers_def demo_single_def demo_turn_def demo_cands_def
  demo_config_def demo_scored_row new_proxy_def Let_def check_turn_def check_msg_def fill_transfers_none_left

lemma demo_scoring: "scoring_script demo_transfers demo_config demo_cands 0"
  unfolding scoring_script_def demo_starts by (simp add: demo_defs)

lemma demo_check: "check_script demo_transfers demo_config demo_cands"
  unfolding check_script_def demo_starts by (simp add: demo_defs)

lemma demo_single_scoring: "scoring_script demo_single (demo_config\<lparr>max_inflight := 1\<rparr>) demo_cands 0"
  unfolding scoring_script_def demo_starts by (simp add: demo_defs)

lemma demo_results:
  "map_option (\<lambda>s. map address (sc_tested s)) (test_proxies_multi demo_transfers demo_config demo_cands 0) =
     Some demo_cands"
  "map_option (\<lambda>s. map address (sc_tested s))
     (test_proxies_multi demo_single (demo_config\<lparr>max_inflight := 1\<rparr>) demo_cands 0) = Some [''http://a:1'']"
  "map_option (map_option (map fst)) (check_proxies demo_transfers demo_config demo_cands) =
     Some (Some demo_cands)"
  unfolding test_proxies_multi_def check_proxies_def demo_starts by (simp_all add: demo_defs)

section \<open>Scoring and checking\<close>

text \<open>
  C16: What scoring delivers. Every row is fresh (alive, free, no failures, a proper speed), each
  candidate gives at most one row, no more transfers than the limit are in flight, and adding stops
  only when every local proxy has been started.
\<close>

theorem scoring_delivers:
  assumes "scoring_script te c cands must" "test_proxies_multi te c cands must = Some s"
  shows "(\<forall>p\<in>set (sc_tested s). fresh_row p) \<and> mset (map address (sc_tested s)) \<subseteq># mset cands \<and>
    tr_inflight s = int (length (tr_jobs s)) \<and> tr_inflight s \<le> inflight_cap c \<and>
    (sc_stop_adding s \<longrightarrow> must \<le> tr_next s)"
proof -
  have i: "score_inv (inflight_cap c) must cands s" by (rule score_result [OF assms])
  have "mset (map address (sc_tested s)) \<subseteq># mset (take (tr_next s) cands)"
    using i unfolding score_inv_def by (meson mset_subset_eq_add_left subset_mset.order_trans)
  moreover have "mset (take (tr_next s) cands) \<subseteq># mset cands"
    by (metis append_take_drop_id mset_append mset_subset_eq_add_left)
  ultimately show ?thesis
    using i subset_mset.order_trans by (fastforce simp: score_inv_def transfers_ok_def)
qed

lemma scoring_delivers_witness:
  "\<exists>s. test_proxies_multi demo_transfers demo_config demo_cands 0 = Some s \<and>
     map address (sc_tested s) = demo_cands \<and> (\<forall>p\<in>set (sc_tested s). fresh_row p)"
proof -
  obtain s where s: "test_proxies_multi demo_transfers demo_config demo_cands 0 = Some s" "map address (sc_tested s) = demo_cands"
    using demo_results(1) by blast
  from scoring_delivers [OF demo_scoring s(1)] s show ?thesis by blast
qed

text \<open>
  C15: The loops end. When transfers end often enough, in as many turns as there are candidates, which
  the timeouts of the transfers bring about, \<open>test_proxies_multi\<close> and the check of \<open>verify_target\<close> return.
\<close>

theorem transfers_end:
  assumes "scoring_script te c cands must" "length cands \<le> ending_turns (te_turns te)"
    and "check_script te' c addrs" "length addrs \<le> ending_turns (te_turns te')"
  shows "(\<exists>s. test_proxies_multi te c cands must = Some s) \<and> (\<exists>r. check_proxies te' c addrs = Some r)"
proof
  have a: "script_ok (score_turn te (inflight_cap c) (max_keep c) must cands) (te_still te) (te_turns te)
      (scoring_start te c cands)" "te_still te \<le> length (tr_jobs (scoring_start te c cands))"
    using assms(1) by (simp_all add: scoring_script_def)
  have "todo (length cands) (scoring_start te c cands) \<le> ending_turns (te_turns te)"
    using score_start_ok(2) assms(2) order_trans by blast
  from score_rounds.loop_ends [unfolded score_round_of, OF a(1) score_start_ok(1) a(2) this]
  show "\<exists>s. test_proxies_multi te c cands must = Some s" by (auto simp: test_proxies_multi_def)
  have b: "script_ok (check_turn te' (inflight_cap c) addrs) (te_still te') (te_turns te') (check_start te' c addrs)"
    "te_still te' \<le> length (tr_jobs (check_start te' c addrs))"
    using assms(3) by (simp_all add: check_script_def)
  have "todo (length addrs) (check_start te' c addrs) \<le> ending_turns (te_turns te')"
    using check_start_ok(2) assms(4) order_trans by blast
  from check_rounds.loop_ends [unfolded check_round_of, OF b(1) check_start_ok(1) b(2) this]
  show "\<exists>r. check_proxies te' c addrs = Some r" by (auto simp: check_proxies_def)
qed

lemma transfers_end_witness:
  "(\<exists>s. test_proxies_multi demo_transfers demo_config demo_cands 0 = Some s) \<and>
   (\<exists>r. check_proxies demo_transfers demo_config demo_cands = Some r)"
proof -
  have "length demo_cands \<le> ending_turns (te_turns demo_transfers)" by code_simp
  then show ?thesis using transfers_end [OF demo_scoring _ demo_check] by blast
qed

text \<open>
  What the check delivers is what \<open>verify_target\<close> relies on: one proper speed per address, among
  the addresses it was asked for.
\<close>

lemma check_delivers:
  assumes "check_script te c addrs" "check_proxies te c addrs = Some (Some ok_speed)"
  shows "distinct (map fst ok_speed) \<and> fst ` set ok_speed \<subseteq> set addrs \<and> (\<forall>(a, v)\<in>set ok_speed. speed_ok v)"
proof -
  obtain s where l: "transfer_loop (check_turn te (inflight_cap c) addrs) (te_still te) (te_turns te)
      (check_start te c addrs) = Some s" "ok_speed = ck_ok_speed s"
    using assms(2) by (auto simp: check_proxies_def split: if_splits)
  have "script_ok (check_turn te (inflight_cap c) addrs) (te_still te) (te_turns te) (check_start te c addrs)"
    using assms(1) by (simp add: check_script_def)
  from check_rounds.loop_inv [unfolded check_round_of, OF this check_start_ok(1) l(1)]
  show ?thesis using l(2) by (simp add: check_inv_def)
qed

lemma check_delivers_witness:
  "\<exists>ok. check_proxies demo_transfers demo_config demo_cands = Some (Some ok) \<and> map fst ok = demo_cands \<and>
     (\<forall>(a, v)\<in>set ok. speed_ok v)"
proof -
  obtain ok where ok: "check_proxies demo_transfers demo_config demo_cands = Some (Some ok)"
    "map fst ok = demo_cands" using demo_results(3) by blast
  from check_delivers [OF demo_check ok(1)] ok show ?thesis by blast
qed

text \<open>A loop with one place, in which the only transfer ends.\<close>

lemma one_place_loop:
  assumes "transfer_loop (score_turn te 1 want must cands) n ts s = Some s'"
    and "script_ok (score_turn te 1 want must cands) n ts s" "score_inv 1 must cands s" "n \<le> length (tr_jobs s)"
  shows "length (sc_tested s') \<le> length (sc_tested s) + 1"
  using assms
proof (induction ts arbitrary: n s)
  case Nil
  then show ?case by (cases n) auto
next
  case (Cons t ts)
  show ?case
  proof (cases "n = 0 \<or> tn_stop t")
    case True
    then show ?thesis using Cons.prems(1) by (cases n) auto
  next
    case False
    obtain k where n: "n = Suc k" using False by (cases n) auto
    obtain brk s1 where r: "score_turn te 1 want must cands t s = (brk, s1)" by (rule prod.exhaust)
    have ok: "turn_ok t s" using Cons.prems(2) False n by simp
    have "length (tr_jobs s) \<le> 1"
      using Cons.prems(3) by (simp add: score_inv_def transfers_ok_def)
    then consider (quiet) "tn_msgs t = []" "tn_still t = length (tr_jobs s)" | (ends) m where "tn_msgs t = [m]" "tn_still t = 0"
      using ok by (cases "tn_msgs t"; cases "tl (tn_msgs t)") (auto simp: turn_ok_def)
    then show ?thesis
    proof cases
      case quiet
      have i: "score_inv 1 must cands s1"
        by (rule score_rounds.round_facts(1) [unfolded score_round_of, OF Cons.prems(3) ok r])
      have e: "sc_tested s1 = sc_tested s" "\<not> brk \<Longrightarrow> tr_jobs s1 = tr_jobs s"
        using r quiet(1) by (auto simp: score_turn_def score_turn_end_def score_emit_def split: if_splits)
      show ?thesis
      proof (cases brk)
        case True
        then show ?thesis using Cons.prems(1) False n r e(1) by simp
      next
        case goes: False
        then show ?thesis
          using Cons.IH [of "tn_still t" s1] Cons.prems(1,2) False n r i e quiet(2) by simp
      qed
    next
      case (ends m)
      have "s' = s1" using Cons.prems(1) False n r ends(2) by (cases brk; cases ts) auto
      moreover have "length (sc_tested s1) \<le> length (sc_tested s) + 1"
      proof -
        have "sc_tested s1 = sc_tested (score_msg te 1 want must cands m s)"
          using r ends(1) by (auto simp: score_turn_def score_turn_end_def score_emit_def split: if_splits)
        moreover have "sc_tested (snd (score_add te (length cands) 1 x)) = sc_tested x" for x
          by (simp add: score_add_def add_transfer_def Let_def)
        ultimately show ?thesis
          by (simp add: score_msg_eq Let_def score_done_fields split: option.splits)
      qed
      ultimately show ?thesis by simp
    qed
  qed
qed

text \<open>
  The loop can end with candidates untested. It goes on only while the count \<open>still\<close> of the last
  \<open>curl_multi_perform\<close> is positive, and that count does not include the transfers that were added while
  its messages were read. So with one transfer at a time, scoring gives at most one row, whatever the
  number of candidates.
\<close>

lemma one_at_a_time_scores_one:
  assumes "max_inflight c = 1" "scoring_script te c cands must" "test_proxies_multi te c cands must = Some s"
  shows "length (sc_tested s) \<le> 1"
proof (cases "te_multi te")
  case False
  then show ?thesis using assms(3) by (auto simp: test_proxies_multi_def new_scoring_def)
next
  case True
  have cap: "inflight_cap c = 1" using assms(1) by (simp add: inflight_cap_def)
  obtain s' where l: "transfer_loop (score_turn te 1 (max_keep c) must cands) (te_still te) (te_turns te)
      (scoring_start te c cands) = Some s'" "s = score_emit (length cands) True s'"
    using assms(3) True cap by (auto simp: test_proxies_multi_def)
  have "sc_tested (scoring_start te c cands) = sc_tested new_scoring"
    unfolding scoring_start_def score_emit_def
    by (simp, rule fill_transfers_induct [where P = "\<lambda>s. sc_tested s = sc_tested new_scoring"])
      (auto elim: add_transfer_cases)
  moreover have "length (sc_tested s') \<le> length (sc_tested (scoring_start te c cands)) + 1"
    using assms(2) score_start_ok(1) [of c must cands te] cap
    by (intro one_place_loop [OF l(1)]) (simp_all add: scoring_script_def)
  ultimately show ?thesis using l(2) by (simp add: score_emit_def new_scoring_def)
qed

lemma one_at_a_time_scores_one_witness:
  "\<exists>s. test_proxies_multi demo_single (demo_config\<lparr>max_inflight := 1\<rparr>) demo_cands 0 = Some s \<and>
     map address (sc_tested s) = [''http://a:1''] \<and> length (sc_tested s) \<le> 1"
proof -
  from demo_results(2) obtain s where
    s: "test_proxies_multi demo_single (demo_config\<lparr>max_inflight := 1\<rparr>) demo_cands 0 = Some s"
      "map address (sc_tested s) = [''http://a:1'']"
    unfolding map_option_eq_Some by (elim exE conjE)
  have "max_inflight (demo_config\<lparr>max_inflight := 1\<rparr>) = 1" by simp
  from one_at_a_time_scores_one [OF this demo_single_scoring s(1)] s show ?thesis by (intro exI conjI)
qed

section \<open>Refreshing\<close>

lemma distinct_submset:
  assumes "mset xs \<subseteq># mset ys" "distinct ys"
  shows "distinct xs"
  unfolding distinct_count_atmost_1
proof
  fix a
  have "count (mset xs) a \<le> count (mset ys) a" using assms(1) by (rule mset_subset_eq_count)
  also have "\<dots> \<le> 1" using assms(2) by (simp add: distinct_count_atmost_1)
  finally have le: "count (mset xs) a \<le> 1" .
  show "count (mset xs) a = (if a \<in> set xs then 1 else 0)"
  proof (cases "a \<in> set xs")
    case True
    then have "0 < count (mset xs) a" by (simp only: count_greater_zero_iff set_mset_mset)
    with le have "count (mset xs) a = 1" by linarith
    then show ?thesis using True by simp
  next
    case False
    then have "count (mset xs) a = 0" by (simp only: count_eq_zero_iff set_mset_mset not_False_eq_True)
    then show ?thesis using False by simp
  qed
qed

lemma scored_rows_distinct:
  assumes "scoring_script te c cands must" "test_proxies_multi te c cands must = Some s" "distinct cands"
  shows "\<forall>p\<in>set (sc_tested s). fresh_row p" "distinct (map address (sc_tested s))"
proof -
  have i: "score_inv (inflight_cap c) must cands s" by (rule score_result [OF assms(1,2)])
  then show "\<forall>p\<in>set (sc_tested s). fresh_row p" by (simp add: score_inv_def)
  have "mset (map address (sc_tested s)) \<subseteq># mset (take (tr_next s) cands)"
    using i unfolding score_inv_def by (meson mset_subset_eq_add_left subset_mset.order_trans)
  then show "distinct (map address (sc_tested s))"
    by (rule distinct_submset) (simp add: assms(3))
qed

text \<open>Rows that a pass may install, sorted and cut as the passes do.\<close>

definition installable :: "proxy list \<Rightarrow> bool" where
  "installable ps \<longleftrightarrow> (\<forall>p\<in>set ps. fresh_row p) \<and> distinct (map address ps)"

lemma installable_sorted:
  assumes "speed_sorter srt" "installable ps"
  shows "installable (srt ps)" "installable (take k (srt ps))"
proof -
  have n: "no_nan ps" using assms(2) by (intro row_ok_no_nan) (simp add: installable_def fresh_row_def)
  have "mset (srt ps) = mset ps" by (rule speed_sorter.srt_mset [OF assms(1) n])
  then have "set (srt ps) = set ps" "mset (map address (srt ps)) = mset (map address ps)"
    by (metis set_mset_mset) (metis \<open>mset (srt ps) = mset ps\<close> mset_map)
  moreover from this(2) have "distinct (map address (srt ps))"
    using assms(2) by (metis installable_def mset_eq_imp_distinct_iff)
  ultimately show "installable (srt ps)" "installable (take k (srt ps))"
    using assms(2) by (auto simp: installable_def distinct_take simp flip: take_map dest: in_set_takeD)
qed

lemma apply_pass_keeps:
  assumes "engine_env srt itr" "pool_inv e" "\<forall>ps. rows = Some ps \<longrightarrow> installable ps"
  shows "pool_inv (fst (apply_pass srt itr rows e)) \<and> leased (fst (apply_pass srt itr rows e)) = leased e"
proof (cases rows)
  case None
  then show ?thesis using assms(2) by (simp add: apply_pass_def)
next
  case (Some ps)
  then have "\<forall>p\<in>set ps. fresh_row p" "\<forall>p\<in>set ps. row_ok p" "distinct (map address ps)"
    using assms(3) by (simp_all add: installable_def fresh_row_def)
  then show ?thesis
    using Some assms(2) engine_env.install_pool_ok [OF assms(1)] engine_env.install_unique [OF assms(1)]
      engine_env.install_leased [OF assms(1)]
    by (simp add: apply_pass_def Let_def pool_inv_def)
qed

lemma refresh_installable:
  assumes "speed_sorter srt" "distinct cands" "scoring_script te c cands (length (local_proxy_urls c))"
    "refresh_pass srt c cands te stopped = Some rows"
  shows "\<forall>ps. rows = Some ps \<longrightarrow> installable ps"
  using assms(4) installable_sorted(1) [OF assms(1)] scored_rows_distinct [OF assms(3) _ assms(2)]
  by (auto simp: refresh_pass_def installable_def split: if_splits)

lemma reuse_installable:
  assumes "speed_sorter srt" "distinct (local_proxy_urls c @ load_cache cache)"
    "scoring_script te c (local_proxy_urls c @ load_cache cache) (length (local_proxy_urls c))"
    "reuse_pass srt c cache st te stopped = Some (ok, rows)"
  shows "\<forall>ps. rows = Some ps \<longrightarrow> installable ps"
  using assms(4) installable_sorted(2) [OF assms(1)] scored_rows_distinct [OF assms(3) _ assms(2)]
  by (auto simp: reuse_pass_def Let_def installable_def split: if_splits)



end
