(* ===== verification/Session.thy ===== *)
theory Session
  imports Download Client
begin

text \<open>
  A whole download through proxies: the workers of \<open>run_download\<close> (\<open>src/proxchunk.cpp\<close>) share one
  \<open>ProxyClient\<close>, and the client talks to the daemon. This theory puts the worker steps of \<open>Download\<close>
  together with the calls on the client that \<open>open_pipe\<close> and \<open>drop_pipe\<close> make, and with the steps of
  the keepalive thread and of everyone else who uses the daemon.

  The client's calls hold its mutex, so one call is one step; a worker that gives a proxy back does
  so in the step that ends its job.
\<close>

section \<open>Pipes\<close>

text \<open>
  \<open>last_mbps\<close>, \<open>before\<close> until then, after a transfer of \<open>want\<close> bytes that took \<open>secs\<close>. The literal is the double nearest to 0.01.
\<close>

definition transfer_mbps :: "bool \<Rightarrow> int \<Rightarrow> rat \<Rightarrow> double \<Rightarrow> double" where
  "transfer_mbps ok want secs before =
     (if ok \<and> dgt (Fin secs) (dbl_round (1 / 100))
      then ddiv_pos (ddiv_pos (dbl_round (of_int want)) (1024 * 1024)) secs
      else before)"

text \<open>What \<open>drop_pipe\<close> does with the client; \<open>drop_pipe\<close> of \<open>Download\<close> is the rest of it.\<close>

definition return_pipe :: "'w link \<Rightarrow> pipe \<Rightarrow> bool \<Rightarrow> double \<Rightarrow> client \<times> 'w \<Rightarrow> client \<times> 'w" where
  "return_pipe lk p ok mbps cw =
     (case p of
        Direct \<Rightarrow> cw
      | Via url \<Rightarrow> (case client_release lk url ok mbps (fst cw) (snd cw) of (r, c, w) \<Rightarrow> (c, w)))"

text \<open>
  The part of \<open>open_pipe\<close> that asks the client for a proxy: what \<open>open_proxy\<close> of \<open>Download\<close> is given, and
  the client afterwards. A proxy for which no handle can be made goes back at once.
\<close>

definition lease_pipe :: "'w link \<Rightarrow> bool \<Rightarrow> client \<times> 'w \<Rightarrow> string option \<times> client \<times> 'w" where
  "lease_pipe lk easy cw =
     (case client_acquire lk [] [] (fst cw) (snd cw) of
        (None, c, w) \<Rightarrow> (None, c, w)
      | (Some (url, mbps), c, w) \<Rightarrow>
          (Some url, if easy then (c, w) else return_pipe lk (Via url) False (Fin 0) (c, w)))"

section \<open>The steps\<close>

text \<open>The workers with their \<open>last_mbps\<close>, by position, and the client with the other side of its socket.\<close>

record ('a, 'w) session =
  ss_dl :: "'a download"
  ss_mbps :: "nat \<Rightarrow> double"
  ss_client :: client
  ss_peer :: 'w

definition start_session :: "run_options \<Rightarrow> chunk list \<Rightarrow> client \<Rightarrow> 'w \<Rightarrow> ('a, 'w) session" where
  "start_session opt chunks c w =
     \<lparr>ss_dl = start_download opt chunks, ss_mbps = (\<lambda>i. Fin 0), ss_client = c, ss_peer = w\<rparr>"

definition with_client :: "client \<times> 'w \<Rightarrow> ('a, 'w) session \<Rightarrow> ('a, 'w) session" where
  "with_client cw s = s\<lparr>ss_client := fst cw, ss_peer := snd cw\<rparr>"

definition with_worker :: "worker list \<Rightarrow> worker \<Rightarrow> worker list \<Rightarrow> 'a download \<Rightarrow> ('a, 'w) session \<Rightarrow> ('a, 'w) session" where
  "with_worker pre w post d s = s\<lparr>ss_dl := d\<lparr>dl_workers := pre @ w # post\<rparr>\<rparr>"

abbreviation client_side :: "('a, 'w) session \<Rightarrow> client \<times> 'w" where
  "client_side s \<equiv> (ss_client s, ss_peer s)"

text \<open>
  \<open>others\<close> is what happens on the other side of the socket between two calls of this client; \<open>secs\<close> is
  what the steady clock measures, a 64-bit count of nanoseconds.
\<close>

inductive pooled_step ::
  "run_options \<Rightarrow> 'w link \<Rightarrow> ('w \<Rightarrow> 'w \<Rightarrow> bool) \<Rightarrow> ('a fetch \<Rightarrow> bool) \<Rightarrow> ('a, 'w) session \<Rightarrow> ('a, 'w) session \<Rightarrow> bool"
  for opt lk others net where
  s_exit:
    "d = ss_dl s \<Longrightarrow> dl_workers d = pre @ W_idle # post \<Longrightarrow> dl_jobs d = [] \<Longrightarrow> dl_inflight d = 0 \<Longrightarrow>
     pooled_step opt lk others net s (with_worker pre W_done post d s)"
| s_peek:
    "d = ss_dl s \<Longrightarrow> dl_workers d = pre @ W_idle # post \<Longrightarrow> dl_jobs d \<noteq> [] \<Longrightarrow>
     pooled_step opt lk others net s (with_worker pre W_peeked post d s)"
| s_direct:
    "d = ss_dl s \<Longrightarrow> dl_workers d = pre @ W_peeked # post \<Longrightarrow> wants_direct opt d \<Longrightarrow>
     open_direct opt easy d = (w, d') \<Longrightarrow>
     pooled_step opt lk others net s (with_worker pre w post d' s)"
| s_proxy:
    "d = ss_dl s \<Longrightarrow> dl_workers d = pre @ W_peeked # post \<Longrightarrow> \<not> wants_direct opt d \<Longrightarrow>
     lease_pipe lk easy (client_side s) = (got, cw) \<Longrightarrow> open_proxy True easy got d = (w, d') \<Longrightarrow>
     pooled_step opt lk others net s (with_client cw (with_worker pre w post d' s))"
| s_take:
    "d = ss_dl s \<Longrightarrow> dl_workers d = pre @ W_pipe p # post \<Longrightarrow> take_job p d = (w, d') \<Longrightarrow>
     cw = (if dl_jobs d = [] then return_pipe lk p True (ss_mbps s (length pre)) (client_side s) else client_side s) \<Longrightarrow>
     pooled_step opt lk others net s (with_client cw (with_worker pre w post d' s))"
| s_transfer:
    "d = ss_dl s \<Longrightarrow> dl_workers d = pre @ W_job p j # post \<Longrightarrow> net fetch \<Longrightarrow>
     finish_job opens fetch p j d = (w, d') \<Longrightarrow> 0 \<le> secs \<Longrightarrow> secs < 2 ^ 34 \<Longrightarrow>
     ok = fst (download_chunk opens fetch (job_ch j) (dl_parts d (ch_id (job_ch j)))) \<Longrightarrow>
     mbps = transfer_mbps ok (ch_want (job_ch j)) secs (ss_mbps s (length pre)) \<Longrightarrow>
     cw = return_pipe lk p ok mbps (client_side s) \<Longrightarrow>
     pooled_step opt lk others net s
       (with_client cw (with_worker pre w post d' s)\<lparr>ss_mbps := (ss_mbps s)(length pre := mbps)\<rparr>)"
| s_leave:
    "d = ss_dl s \<Longrightarrow> dl_workers d = pre @ W_leaving # post \<Longrightarrow>
     pooled_step opt lk others net s (with_worker pre W_idle post (d\<lparr>dl_inflight := dl_inflight d - 1\<rparr>) s)"
| s_keepalive:
    "cw = keepalive_tick lk (ss_client s) (ss_peer s) \<Longrightarrow>
     pooled_step opt lk others net s (with_client cw s)"
| s_others:
    "others (ss_peer s) w' \<Longrightarrow> pooled_step opt lk others net s (s\<lparr>ss_peer := w'\<rparr>)"

inductive pooled_reach ::
  "run_options \<Rightarrow> 'w link \<Rightarrow> ('w \<Rightarrow> 'w \<Rightarrow> bool) \<Rightarrow> ('a fetch \<Rightarrow> bool) \<Rightarrow> chunk list \<Rightarrow> client \<Rightarrow> 'w \<Rightarrow>
   ('a, 'w) session \<Rightarrow> bool"
  for opt lk others net chunks c0 w0 where
  pooled_start: "pooled_reach opt lk others net chunks c0 w0 (start_session opt chunks c0 w0)"
| pooled_next:
    "pooled_reach opt lk others net chunks c0 w0 s \<Longrightarrow> pooled_step opt lk others net s s' \<Longrightarrow>
     pooled_reach opt lk others net chunks c0 w0 s'"

section \<open>The workers do what they do alone\<close>

text \<open>
  A step of the session is a step of the workers of \<open>Download\<close>, or leaves them alone: what \<open>Download_Laws\<close>
  shows of reachable downloads holds here too.
\<close>

lemma with_simps [simp]:
  "ss_dl (with_client cw s) = ss_dl s" "ss_mbps (with_client cw s) = ss_mbps s"
  "ss_client (with_client cw s) = fst cw" "ss_peer (with_client cw s) = snd cw"
  "ss_dl (with_worker pre w post d s) = d\<lparr>dl_workers := pre @ w # post\<rparr>"
  "ss_mbps (with_worker pre w post d s) = ss_mbps s" "ss_client (with_worker pre w post d s) = ss_client s"
  "ss_peer (with_worker pre w post d s) = ss_peer s"
  by (simp_all add: with_client_def with_worker_def)

lemma pooled_step_worker:
  "pooled_step opt lk others net s s' \<Longrightarrow>
   ss_dl s' = ss_dl s \<or> worker_step opt True net (ss_dl s) (ss_dl s')"
proof (induction rule: pooled_step.induct)
  case (s_leave d s pre post)
  have "worker_step opt True net d (d\<lparr>dl_workers := pre @ W_idle # post, dl_inflight := dl_inflight d - 1\<rparr>)"
    by (rule w_leave [OF s_leave(2)])
  moreover have "d\<lparr>dl_inflight := i, dl_workers := ws\<rparr> = d\<lparr>dl_workers := ws, dl_inflight := i\<rparr>" for i ws by (cases d) simp
  ultimately show ?case unfolding with_simps s_leave(1) [symmetric] by metis
qed (auto intro: worker_step.intros)

lemma session_download:
  "pooled_reach opt lk others net chunks c0 w0 s \<Longrightarrow> dl_reach opt True net chunks (ss_dl s)"
proof (induction rule: pooled_reach.induct)
  case pooled_start
  then show ?case by (simp add: start_session_def dl_start)
next
  case (pooled_next s s')
  then show ?case using pooled_step_worker [OF pooled_next(2)] by (auto intro: dl_step)
qed

section \<open>One turn of a worker\<close>

text \<open>
  What the \<open>i\<close>-th worker does next when handles and part files open, transfers bring \<open>fetch\<close> and take
  \<open>secs\<close>; a worker with nothing to do sleeps.
\<close>

definition run_worker ::
  "run_options \<Rightarrow> 'w link \<Rightarrow> 'a fetch \<Rightarrow> rat \<Rightarrow> nat \<Rightarrow> ('a, 'w) session \<Rightarrow> ('a, 'w) session" where
  "run_worker opt lk fetch secs i s =
     (let d = ss_dl s; pre = take i (dl_workers d); post = drop (Suc i) (dl_workers d)
      in if i \<ge> length (dl_workers d) then s
         else case dl_workers d ! i of
           W_idle \<Rightarrow>
             (if dl_jobs d \<noteq> [] then with_worker pre W_peeked post d s
              else if dl_inflight d = 0 then with_worker pre W_done post d s else s)
         | W_peeked \<Rightarrow>
             (if wants_direct opt d
              then (case open_direct opt True d of (w, d') \<Rightarrow> with_worker pre w post d' s)
              else (case lease_pipe lk True (client_side s) of (got, cw) \<Rightarrow>
                      (case open_proxy True True got d of (w, d') \<Rightarrow> with_client cw (with_worker pre w post d' s))))
         | W_pipe p \<Rightarrow>
             (case take_job p d of (w, d') \<Rightarrow>
                with_client
                  (if dl_jobs d = [] then return_pipe lk p True (ss_mbps s i) (client_side s) else client_side s)
                  (with_worker pre w post d' s))
         | W_job p j \<Rightarrow>
             (case finish_job True fetch p j d of (w, d') \<Rightarrow>
                let ok = fst (download_chunk True fetch (job_ch j) (dl_parts d (ch_id (job_ch j))));
                    mbps = transfer_mbps ok (ch_want (job_ch j)) secs (ss_mbps s i)
                in with_client (return_pipe lk p ok mbps (client_side s))
                     (with_worker pre w post d' s)\<lparr>ss_mbps := (ss_mbps s)(i := mbps)\<rparr>)
         | W_leaving \<Rightarrow> with_worker pre W_idle post (d\<lparr>dl_inflight := dl_inflight d - 1\<rparr>) s
         | W_done \<Rightarrow> s)"

lemma run_worker_step:
  assumes "net fetch" "0 \<le> secs" "secs < 2 ^ 34"
  shows "run_worker opt lk fetch secs i s = s \<or> pooled_step opt lk others net s (run_worker opt lk fetch secs i s)"
proof (cases "i < length (dl_workers (ss_dl s))")
  case True
  let ?d = "ss_dl s"
  define pre where "pre = take i (dl_workers ?d)"
  define post where "post = drop (Suc i) (dl_workers ?d)"
  have len: "length pre = i" using True by (simp add: pre_def)
  have ws: "dl_workers ?d = pre @ dl_workers ?d ! i # post" using True by (simp add: pre_def post_def id_take_nth_drop)
  note run = run_worker_def [of opt lk fetch secs i s, unfolded Let_def, folded pre_def post_def]
  show ?thesis
  proof (cases "dl_workers ?d ! i")
    case W_idle
    with True ws show ?thesis by (auto simp: run intro: s_exit s_peek)
  next
    case W_peeked
    with True ws show ?thesis by (auto simp: run intro: s_direct s_proxy split: prod.split)
  next
    case (W_pipe p)
    obtain w d' where t: "take_job p ?d = (w, d')" by fastforce
    have "pooled_step opt lk others net s (with_client
        (if dl_jobs ?d = [] then return_pipe lk p True (ss_mbps s (length pre)) (client_side s) else client_side s)
        (with_worker pre w post d' s))"
      by (rule s_take [OF refl _ t refl]) (use ws W_pipe in simp)
    with True W_pipe t show ?thesis by (auto simp: run len)
  next
    case (W_job p j)
    obtain w d' where t: "finish_job True fetch p j ?d = (w, d')" by fastforce
    from ws W_job have "dl_workers ?d = pre @ W_job p j # post" by simp
    from s_transfer [where net = net, OF refl this assms(1) t assms(2,3) refl refl refl, of opt lk others] True W_job t
    show ?thesis by (simp add: run len)
  next
    case W_leaving
    with True ws show ?thesis by (auto simp: run intro: s_leave)
  next
    case W_done
    with True show ?thesis by (simp add: run)
  qed
qed (simp add: run_worker_def)

lemma run_worker_reach:
  assumes "pooled_reach opt lk others net chunks c0 w0 s" "net fetch" "0 \<le> secs" "secs < 2 ^ 34"
  shows "pooled_reach opt lk others net chunks c0 w0 (run_worker opt lk fetch secs i s)"
  using run_worker_step [where net = net, OF assms(2-4), of opt lk i s others] assms(1) by (auto intro: pooled_next)

lemma run_workers_reach:
  assumes "pooled_reach opt lk others net chunks c0 w0 s" "net fetch" "0 \<le> secs" "secs < 2 ^ 34"
  shows "pooled_reach opt lk others net chunks c0 w0 (fold (run_worker opt lk fetch secs) is s)"
  using assms(1) by (induction "is" arbitrary: s) (simp_all add: run_worker_reach [where net = net, OF _ assms(2-4)])

end
