(* ===== verification/Client_Start.thy ===== *)
theory Client_Start
  imports Client_Refines Probe
begin

text \<open>
  How a process comes to talk to the daemon: the part of the downloader's \<open>main\<close> that finds or starts it,
  the target check at the head of \<open>run_download\<close> (\<open>src/proxchunk.cpp\<close>), and \<open>proxchunkd --status\<close>
  (\<open>cmd_status\<close> of \<open>src/proxchunkd.cpp\<close>). With a daemon on the other side of the link, a start that
  succeeds leaves client and daemon in step.
\<close>

section \<open>The operations\<close>

text \<open>A connection that \<open>HELLO\<close> opens.\<close>

definition connect_hello :: "'w link \<Rightarrow> string \<Rightarrow> client \<Rightarrow> 'w \<Rightarrow> bool \<times> client \<times> 'w" where
  "connect_hello lk path c w =
     (case client_connect lk path c w of (ok, c, w) \<Rightarrow> if ok then client_hello lk c w else (False, c, w))"

text \<open>
  \<open>main\<close>: a first client looks whether the daemon answers, and is destroyed; then the client of the
  download connects, or starts the daemon. \<open>turns\<close> is the deadline of \<open>connect_or_start\<close>.
\<close>

definition connect_stage :: "'w link \<Rightarrow> string \<Rightarrow> string list \<Rightarrow> nat \<Rightarrow> 'w \<Rightarrow> bool \<times> client \<times> 'w" where
  "connect_stage lk sock extra turns w =
     (case connect_hello lk sock new_client w of (up, probe, w) \<Rightarrow>
      case (if up then client_ping lk probe w else (False, probe, w)) of (already, probe, w) \<Rightarrow>
      case client_destroy lk probe w of (probe, w) \<Rightarrow>
        if already then connect_hello lk sock new_client w
        else connect_or_start lk sock extra turns new_client w)"

text \<open>
  The start of a download through proxies: \<open>main\<close> from the connection on, and \<open>run_download\<close> up to the
  plan. The target is checked when the probe found a file that can be fetched in ranges.
\<close>

definition proxied_start ::
  "'w link \<Rightarrow> string \<Rightarrow> string list \<Rightarrow> nat \<Rightarrow> string + file_info \<Rightarrow> string \<Rightarrow> 'w \<Rightarrow>
   (string + file_info) \<times> client \<times> 'w" where
  "proxied_start lk sock extra turns probe url w =
     (case connect_stage lk sock extra turns w of (up, c, w) \<Rightarrow>
        if \<not> up then (Inl (''proxchunkd is not running and could not be started''), c, w)
        else case probe of
          Inr info \<Rightarrow>
            (if accepts_ranges info
             then (case client_set_target lk url c w of (n, c, w) \<Rightarrow>
                     (prepare_download probe (Some (\<lambda>u. n)) url, c, w))
             else (prepare_download probe None url, c, w))
        | Inl err \<Rightarrow> (prepare_download probe None url, c, w))"

text \<open>\<open>cmd_status\<close>: the exit code and what it prints.\<close>

definition status_line :: "proxy_stats \<Rightarrow> string" where
  "status_line s =
     ''live='' @ show_nat (st_live s) @ '' busy='' @ show_nat (st_busy s) @ '' top_mbps='' @ fixed4 (st_top s) @ [nl]"

definition cmd_status :: "'w link \<Rightarrow> string \<Rightarrow> 'w \<Rightarrow> int \<times> string \<times> 'w" where
  "cmd_status lk sock w =
     (case connect_hello lk sock new_client w of (up, c, w) \<Rightarrow>
        if \<not> up then (1, ''not running'' @ [nl], snd (client_destroy lk c w))
        else case client_stats lk c w of (stats, c, w) \<Rightarrow>
          (case stats of
             None \<Rightarrow> (1, ''not running'' @ [nl], snd (client_destroy lk c w))
           | Some s \<Rightarrow> (0, status_line s, snd (client_destroy lk c w))))"

section \<open>Connecting to the daemon\<close>

definition daemon_up :: "daemon_peer \<Rightarrow> bool" where
  "daemon_up p \<longleftrightarrow> pool_inv (dp_engine p) \<and> speakable_pool (dp_engine p)"

lemma hello_reply: "framable ''HELLO 1''" "ipc_split ''HELLO 1'' = [''HELLO'', ''1'']"
  "framable (''OK 1 proxchunkd '' @ ''1.1'')" "starts_with (''OK 1 proxchunkd '' @ ''1.1'') ''OK 1''"
  by code_simp+

lemma connect_hello_daemon:
  assumes "daemon_up p" "\<not> cl_fd c" "cl_held c = []" "length path < sun_path_size"
  shows "\<exists>c' p'. connect_hello (daemon_link env) path c p = (True, c', p') \<and> in_step c' p' \<and> cl_held c' = [] \<and>
    dp_engine p' = dp_engine p"
proof -
  define c1 where "c1 = c\<lparr>cl_leftover := [], cl_path := path, cl_fd := True\<rparr>"
  define p1 where "p1 = p\<lparr>dp_conn := new_conn, dp_out := []\<rparr>"
  have con: "client_connect (daemon_link env) path c p = (True, c1, p1)"
    using assms(2,4) by (simp add: client_connect_def client_close_def reset_fd_def daemon_link_def daemon_connect_def
        c1_def p1_def not_le)
  let ?k = "say (''OK 1 proxchunkd '' @ ''1.1'') (new_conn\<lparr>greeted := True\<rparr>)"
  have h: "handle_line env False ''HELLO 1'' (dp_conn p1) (dp_engine p1) = (Cmd_ok, ?k, dp_engine p)"
    by (simp add: handle_line_def hello_reply(2) handle_hello_def p1_def new_conn_def Let_def)
  have ready: "daemon_ready env ''HELLO 1'' p1"
    using h hello_reply by (simp add: daemon_ready_def daemon_answer_def p1_def new_conn_def)
  have ans: "daemon_answer env ''HELLO 1'' p1 = (''OK 1 proxchunkd '' @ ''1.1'', p1\<lparr>dp_conn := ?k, dp_engine := dp_engine p\<rparr>)"
    by (simp add: daemon_answer_def h)
  from daemon_exchange [OF ready, of 5000] ans obtain p2 where
    "lk_write (daemon_link env) ''HELLO 1'' p1 = (True, p2)"
    "lk_read (daemon_link env) 5000 [] p2 = (Line, ''OK 1 proxchunkd '' @ ''1.1'', [], p1\<lparr>dp_conn := ?k, dp_engine := dp_engine p\<rparr>)"
    by auto
  then have hel: "client_hello (daemon_link env) c1 p1 = (True, c1, p1\<lparr>dp_conn := ?k, dp_engine := dp_engine p\<rparr>)"
    using hello_reply(4) by (simp add: client_hello_def c1_def)
  have "in_step c1 (p1\<lparr>dp_conn := ?k, dp_engine := dp_engine p\<rparr>)"
    using assms(1,3) by (simp add: in_step_def c1_def p1_def new_conn_def daemon_up_def speakable_pool_iff)
  then show ?thesis using con hel assms(3) by (simp add: connect_hello_def c1_def)
qed

lemma destroy_idle:
  assumes "in_step c p" "cl_held c = []"
  shows "\<exists>c' p'. client_destroy (daemon_link env) c p = (c', p') \<and> dp_engine p' = dp_engine p"
proof -
  have "held (dp_conn p) = []" "c_open (dp_conn p)" "cl_fd c" using assms by (simp_all add: in_step_def)
  then show ?thesis
    using assms(2) by (simp add: client_destroy_def reset_fd_def daemon_link_def daemon_hangup_def serve_conn_def drop_conn_def)
qed

lemma connect_stage_daemon:
  assumes "daemon_up p" "length sock < sun_path_size"
  shows "\<exists>c p'. connect_stage (daemon_link env) sock extra turns p = (True, c, p') \<and> in_step c p' \<and> cl_held c = [] \<and>
    dp_engine p' = dp_engine p"
proof -
  have n: "\<not> cl_fd new_client" "cl_held new_client = []" by (simp_all add: new_client_def)
  obtain c1 p1 where a: "connect_hello (daemon_link env) sock new_client p = (True, c1, p1)" "in_step c1 p1"
    "cl_held c1 = []" "dp_engine p1 = dp_engine p"
    using connect_hello_daemon [OF assms(1) n assms(2)] by blast
  obtain r c2 p2 where b: "client_ping (daemon_link env) c1 p1 = (r, c2, p2)" by (metis prod_cases3)
  then have "remote_op env Op_ping (c1, p1) = (Got_ok r, c2, p2)" by simp
  from remote_ping [OF a(2) this] have c: "in_step c2 p2" "cl_held c2 = []" "dp_engine p2 = dp_engine p" "r"
    using a(3,4) by auto
  obtain c3 p3 where d: "client_destroy (daemon_link env) c2 p2 = (c3, p3)" "dp_engine p3 = dp_engine p"
    using destroy_idle [OF c(1,2)] c(3) by metis
  then have "daemon_up p3" using assms(1) by (simp add: daemon_up_def)
  from connect_hello_daemon [OF this n assms(2)] d(2) show ?thesis
    by (simp add: connect_stage_def a(1) b c(4) d(1))
qed

text \<open>A start that succeeds leaves client and daemon in step, with no lease.\<close>

lemma proxied_start_daemon:
  assumes "daemon env" "daemon_up p" "length sock < sun_path_size" "op_ok env (dp_engine p) (Op_target url)"
    and "proxied_start (daemon_link env) sock extra turns probe url p = (Inr info, c, p')"
  shows "in_step c p' \<and> cl_held c = [] \<and> probe = Inr info \<and> accepts_ranges info"
proof -
  obtain c1 p1 where a: "connect_stage (daemon_link env) sock extra turns p = (True, c1, p1)" "in_step c1 p1"
    "cl_held c1 = []" "dp_engine p1 = dp_engine p"
    using connect_stage_daemon [OF assms(2,3)] by blast
  from assms(5) a(1) obtain i where i: "probe = Inr i" "accepts_ranges i"
    by (auto simp: proxied_start_def prepare_download_def split: sum.splits if_splits)
  obtain n c2 p2 where b: "client_set_target (daemon_link env) url c1 p1 = (n, c2, p2)" by (metis prod_cases3)
  then have t: "remote_op env (Op_target url) (c1, p1) = (Got_count n, c2, p2)" by simp
  have "op_ok env (dp_engine p1) (Op_target url)" using assms(4) a(4) by simp
  from remote_target [OF assms(1) a(2) this t] a(3) have "in_step c2 p2" "cl_held c2 = []"
    by (auto split: prod.splits)
  with assms(5) i show ?thesis
    by (auto simp: proxied_start_def a(1) b prepare_download_def split: if_splits)
qed

text \<open>\<open>--status\<close> prints the counts of the pool.\<close>

lemma cmd_status_daemon:
  assumes "daemon_up p" "length sock < sun_path_size" "length (pool (dp_engine p)) < 2 ^ 64"
  shows "\<exists>top p'. cmd_status (daemon_link env) sock p =
      (0, status_line \<lparr>st_live = live_count (dp_engine p), st_busy = busy_count (dp_engine p), st_top = top\<rparr>, p') \<and>
    dp_engine p' = dp_engine p"
proof -
  have n: "\<not> cl_fd new_client" "cl_held new_client = []" by (simp_all add: new_client_def)
  obtain c1 p1 where a: "connect_hello (daemon_link env) sock new_client p = (True, c1, p1)" "in_step c1 p1"
    "cl_held c1 = []" "dp_engine p1 = dp_engine p"
    using connect_hello_daemon [OF assms(1) n assms(2)] by blast
  obtain r c2 p2 where b: "client_stats (daemon_link env) c1 p1 = (r, c2, p2)" by (metis prod_cases3)
  have k: "op_ok env (dp_engine p1) Op_stats" using assms(3) a(4) by simp
  obtain res where res: "remote_op env Op_stats (c1, p1) = (res, c2, p2)" using b by (cases r) simp_all
  from remote_stats [OF a(2) k this] a(3,4) have c: "in_step c2 p2" "cl_held c2 = []" "dp_engine p2 = dp_engine p"
    "res = Got_stats (live_count (dp_engine p)) (busy_count (dp_engine p))" by auto
  with res b obtain s where s: "r = Some s" "st_live s = live_count (dp_engine p)" "st_busy s = busy_count (dp_engine p)"
    by (cases r) auto
  obtain c3 p3 where d: "client_destroy (daemon_link env) c2 p2 = (c3, p3)" "dp_engine p3 = dp_engine p"
    using destroy_idle [OF c(1,2)] c(3) by metis
  have "\<lparr>st_live = live_count (dp_engine p), st_busy = busy_count (dp_engine p), st_top = st_top s\<rparr> = s"
    using s(2,3) by (cases s) simp
  then show ?thesis
    using d(2) by (intro exI [of _ "st_top s"] exI [of _ p3]) (simp add: cmd_status_def a(1) b s(1) d(1))
qed

section \<open>The keepalive thread\<close>

text \<open>
  \<open>start_keepalive\<close>: the thread sleeps in slices of 100 ms and takes a turn every 5000 ms if it gets the
  mutex at once. The list says of each slice whether a stop was requested by its end, and whether the mutex is free then.
\<close>

definition k_keepalive_ms :: int where
  "k_keepalive_ms = 5000"

fun keepalive_thread :: "'w link \<Rightarrow> (bool \<times> bool) list \<Rightarrow> int \<Rightarrow> client \<Rightarrow> 'w \<Rightarrow> client \<times> 'w" where
  "keepalive_thread lk [] slept c w = (c, w)"
| "keepalive_thread lk ((stop, free_mutex) # slices) slept c w =
     (if stop then (c, w)
      else if slept + 100 < k_keepalive_ms then keepalive_thread lk slices (slept + 100) c w
      else case (if free_mutex then keepalive_tick lk c w else (c, w)) of (c, w) \<Rightarrow> keepalive_thread lk slices 0 c w)"

text \<open>A stop ends the thread within the slice, and nothing happens after it; without one there is a turn every 50 slices.\<close>

lemma keepalive_stops: "keepalive_thread lk (slices @ (True, m) # later) slept c w = keepalive_thread lk slices slept c w"
proof (induction slices arbitrary: slept c w)
  case (Cons sl slices)
  then show ?case by (cases sl) (simp split: prod.split)
qed simp

lemma keepalive_waits:
  "slept + 100 * int n < k_keepalive_ms \<Longrightarrow>
   keepalive_thread lk (replicate n (False, m) @ slices) slept c w = keepalive_thread lk slices (slept + 100 * int n) c w"
proof (induction n arbitrary: slept)
  case (Suc n)
  from Suc.prems have "slept + 100 + 100 * int n < k_keepalive_ms" by simp
  from Suc.IH [OF this] Suc.prems show ?case by (simp add: algebra_simps)
qed simp

lemma keepalive_period:
  "keepalive_thread lk (replicate 49 (False, m) @ (False, True) # slices) 0 c w =
   (case keepalive_tick lk c w of (c, w) \<Rightarrow> keepalive_thread lk slices 0 c w)"
  using keepalive_waits [of 0 49 lk m "(False, True) # slices" c w] by (simp add: k_keepalive_ms_def)

text \<open>\<open>spawn_daemon\<close> behind the choice of the program: \<open>fork\<close>, the status \<open>waitpid\<close> gives, if it gives one.\<close>

definition spawned :: "int \<Rightarrow> int option option \<Rightarrow> bool" where
  "spawned pid wait =
     (if pid < 0 then False
      else case wait of None \<Rightarrow> False | Some exited \<Rightarrow> exited = Some 0)"

end
