(* ===== verification/Session_Props.thy ===== *)
theory Session_Props
  imports Session Client_Start Download_Props Client_Props
begin

text \<open>
  The leases of a download through proxies: in every interleaving of the workers, the keepalive
  thread and the other users of the daemon, the proxies the workers transfer through are the ones the
  client holds and the daemon has leased to it, and none is left when the workers are done.
\<close>

section \<open>The other users of the daemon\<close>

text \<open>
  Between two calls of this client, other connections acquire and release, a scoring pass installs
  its rows, and another client has a target checked. Nobody releases a proxy of this connection.
\<close>

inductive other_use :: "daemon_env \<Rightarrow> daemon_peer \<Rightarrow> daemon_peer \<Rightarrow> bool" for env p where
  o_acquire: "acquire skip (dp_engine p) = (r, e') \<Longrightarrow> other_use env p (p\<lparr>dp_engine := e'\<rparr>)"
| o_release:
    "u \<notin> set (held (dp_conn p)) \<Longrightarrow>
     other_use env p (p\<lparr>dp_engine := release (env_sort env) u ok v (dp_engine p)\<rparr>)"
| o_scoring:
    "passes_ok [rows] \<Longrightarrow> \<forall>t\<in>set rows. speakable (address t) \<Longrightarrow>
     other_use env p (p\<lparr>dp_engine := install_tested (env_sort env) (env_iter env) rows (dp_engine p)\<rparr>)"
| o_target:
    "verify_target (env_sort env) (env_iter env) (env_probe env) (env_passes env url) url (dp_engine p) = (n, e') \<Longrightarrow>
     \<forall>rows\<in>set (env_passes env url). \<forall>t\<in>set rows. speakable (address t) \<Longrightarrow>
     other_use env p (p\<lparr>dp_engine := e'\<rparr>)"

text \<open>Client and daemon are in step, and the client holds the proxies \<open>L\<close>, each once, all leased.\<close>

definition leases_ok :: "string multiset \<Rightarrow> client \<times> daemon_peer \<Rightarrow> bool" where
  "leases_ok L cw \<longleftrightarrow> in_step (fst cw) (snd cw) \<and> mset (cl_held (fst cw)) = L \<and> distinct (cl_held (fst cw)) \<and>
     set (cl_held (fst cw)) \<subseteq> leased (dp_engine (snd cw))"

lemma in_step_engine:
  "in_step c p \<Longrightarrow> pool_inv e' \<Longrightarrow> speakable_pool e' \<Longrightarrow> in_step c (p\<lparr>dp_engine := e'\<rparr>)"
  by (simp add: in_step_def speakable_pool_iff)

lemma other_use_keeps:
  assumes "daemon env" "leases_ok L (c, p)" "other_use env p p'"
  shows "leases_ok L (c, p')"
proof -
  note dm = daemon.env_engine [OF assms(1)]
  note sorter = engine_env.axioms(1) [OF dm]
  have st: "in_step c p" "cl_held c = held (dp_conn p)" "pool_ok (dp_engine p)" "unique_rows (dp_engine p)"
    "speakable_pool (dp_engine p)" "set (cl_held c) \<subseteq> leased (dp_engine p)"
    using assms(2) by (auto simp: leases_ok_def in_step_def pool_inv_def speakable_pool_iff)
  have keep: "leases_ok L (c, p\<lparr>dp_engine := e'\<rparr>)"
    if "pool_ok e'" "unique_rows e'" "speakable_pool e'" "set (cl_held c) \<subseteq> leased e'" for e'
    using assms(2) that st(1) by (simp add: leases_ok_def in_step_engine pool_inv_def)
  show ?thesis
    using assms(3)
  proof cases
    case (o_acquire skip r e')
    have "speakable_pool e'" using st(5) acquire_addresses(1) [OF o_acquire(2)] by (simp add: speakable_pool_def)
    moreover have "leased (dp_engine p) \<subseteq> leased e'"
      using acquire_leased [of skip "dp_engine p"] acquire_None_same [of skip "dp_engine p"] o_acquire(2)
      by (cases r) auto
    ultimately show ?thesis
      unfolding o_acquire(1) using acquire_pool_ok acquire_unique o_acquire(2) st by (intro keep) blast+
  next
    case (o_release u ok v)
    have "speakable_pool (release (env_sort env) u ok v (dp_engine p))"
      using st(5) speed_sorter.release_addresses [OF sorter st(3)] unfolding speakable_pool_def by blast
    then show ?thesis
      unfolding o_release(1)
      using speed_sorter.release_pool_ok [OF sorter st(3)] speed_sorter.release_unique [OF sorter st(3,4)]
        speed_sorter.release_leased [OF sorter st(3,4)] st(2,6) o_release(2) by (intro keep) auto
  next
    case (o_scoring rows)
    then have rows: "\<forall>t\<in>set rows. row_ok t" "\<forall>t\<in>set rows. fresh_row t" "distinct (map address rows)"
      by (auto simp: passes_ok_def fresh_row_def)
    show ?thesis
      unfolding o_scoring(1)
      using engine_env.install_pool_ok [OF dm st(3) rows(1)] engine_env.install_unique [OF dm st(3) rows(1,3)]
        engine_env.install_leased [OF dm st(3) rows(2)] st(6)
        speakable_pool_subset [OF st(5) engine_env.install_addresses [OF dm st(3) rows(1)]] o_scoring(3)
      by (intro keep) auto
  next
    case (o_target url n e')
    note v = engine_env.verify_target_keeps [OF dm daemon.env_probes [OF assms(1)] daemon.env_passes [OF assms(1)]
      st(3,4) o_target(2)]
    have "speakable_pool e'"
      using speakable_pool_subset [OF st(5) engine_env.verify_addresses [OF dm daemon.env_probes [OF assms(1)]
        daemon.env_passes [OF assms(1)] st(3) o_target(2)]] o_target(3) by auto
    with v st(6) show ?thesis unfolding o_target(1) by (intro keep) auto
  qed
qed

section \<open>The calls of the workers\<close>

lemma return_pipe_ok:
  assumes "daemon env" "leases_ok (add_mset u L) cw" "wire_speed v"
  shows "leases_ok L (return_pipe (daemon_link env) (Via u) ok v cw)"
proof -
  obtain c p where cw: "cw = (c, p)" by fastforce
  note sorter = engine_env.axioms(1) [OF daemon.env_engine [OF assms(1)]]
  have st: "in_step c p" "mset (cl_held c) = add_mset u L" "distinct (cl_held c)" "set (cl_held c) \<subseteq> leased (dp_engine p)"
    using assms(2) by (simp_all add: leases_ok_def cw)
  have inv: "pool_ok (dp_engine p)" "unique_rows (dp_engine p)" "\<forall>q\<in>set (pool (dp_engine p)). speakable (address q)"
    using st(1) by (simp_all add: in_step_def pool_inv_def)
  have u: "u \<in> set (cl_held c)" using st(2) by (metis set_mset_mset union_single_eq_member)
  then have "u \<in> leased (dp_engine p)" using st(4) by blast
  then have "speakable u" using inv(3) busy_addrs_subset [of "pool (dp_engine p)"] by (auto simp: leased_def)
  from measured_release_ok [OF this assms(3)] have ok: "op_ok env (dp_engine p) (Op_release u ok v)" .
  obtain r c' p' where r: "client_release (daemon_link env) u ok v c p = (r, c', p')" by (metis prod_cases3)
  then have "remote_op env (Op_release u ok v) (c, p) = (Got_ok r, c', p')" by simp
  from remote_release [OF assms(1) st(1) ok this]
  have "in_step c' p'" "cl_held c' = remove1 u (cl_held c)"
    "dp_engine p' = release (env_sort env) u ok (the (stod (stream_double v))) (dp_engine p)" by auto
  moreover from this have "leased (dp_engine p') = leased (dp_engine p) - {u}"
    using speed_sorter.release_leased [OF sorter inv(1,2)] by simp
  ultimately show ?thesis
    using st u by (auto simp: return_pipe_def cw r leases_ok_def)
qed

lemma lease_pipe_ok:
  assumes "daemon env" "\<forall>line. env_sends env line" "leases_ok L cw" "lease_pipe (daemon_link env) easy cw = (got, cw')"
  shows "leases_ok (case got of Some u \<Rightarrow> if easy then add_mset u L else L | None \<Rightarrow> L) cw'"
proof -
  obtain c p where cw: "cw = (c, p)" by fastforce
  have st: "in_step c p" "mset (cl_held c) = L" "distinct (cl_held c)" "set (cl_held c) \<subseteq> leased (dp_engine p)"
    using assms(3) by (simp_all add: leases_ok_def cw)
  have u: "unique_rows (dp_engine p)" using st(1) by (simp add: in_step_def pool_inv_def)
  obtain r c1 p1 where r: "client_acquire (daemon_link env) [] [] c p = (r, c1, p1)" by (metis prod_cases3)
  then have o: "remote_op env (Op_acquire []) (c, p) = (Got_lease r, c1, p1)" by simp
  have k: "op_ok env (dp_engine p) (Op_acquire [])" by (simp add: k_ipc_max_line_def)
  note d = remote_acquire [OF st(1) k assms(2) o]
  show ?thesis
  proof (cases r)
    case None
    then have "cl_held c1 = cl_held c" "dp_engine p1 = dp_engine p"
      using d acquire_None_same [of "[]" "dp_engine p"] by (auto split: prod.splits option.splits)
    with None assms(4) d st show ?thesis by (auto simp: lease_pipe_def cw r leases_ok_def)
  next
    case (Some ux)
    obtain url v where ux: "ux = (url, v)" by fastforce
    from d Some ux obtain q where q: "acquire [] (dp_engine p) = (Some q, dp_engine p1)" "url = address q"
      "cl_held c1 = cl_held c @ [url]" by (auto split: prod.splits option.splits)
    have "leases_ok (add_mset url L) (c1, p1)"
      using d st acquire_leased [OF q(1)] acquire_fresh [OF u q(1)] q(2,3) by (auto simp: leases_ok_def)
    with return_pipe_ok [OF assms(1) this, of "Fin 0" False] assms(4) show ?thesis
      by (auto simp: lease_pipe_def cw r Some ux wire_speed_def split: if_splits)
  qed
qed

lemma keepalive_ok:
  assumes "leases_ok L cw"
  shows "leases_ok L (keepalive_tick (daemon_link env) (fst cw) (snd cw))"
proof -
  obtain c p where cw: "cw = (c, p)" by fastforce
  have st: "in_step c p" using assms by (simp add: leases_ok_def cw)
  note conn = in_step_conn [OF st]
  let ?k = "say ''OK pong'' (dp_conn p)"
  have f: "framable ''PING''" "ipc_split ''PING'' = [''PING'']" "framable ''OK pong''" by code_simp+
  have h: "handle_line env False ''PING'' (dp_conn p) (dp_engine p) = (Cmd_ok, ?k, dp_engine p)"
    using f(2) conn(5) by (simp add: handle_line_def)
  have ans: "daemon_ready env ''PING'' p"
    "daemon_answer env ''PING'' p = (''OK pong'', p\<lparr>dp_conn := ?k, dp_engine := dp_engine p\<rparr>)"
    using in_step_answer [OF st f(1) _ h _ f(3)] f(2) by simp_all
  from daemon_rpc.keepalive_answer [OF conn(1,2) ans(1)] ans(2) assms show ?thesis
    by (auto simp: cw leases_ok_def in_step_def)
qed

section \<open>The invariant\<close>

fun w_proxy :: "worker \<Rightarrow> string list" where
  "w_proxy (W_pipe (Via u)) = [u]"
| "w_proxy (W_job (Via u) j) = [u]"
| "w_proxy w = []"

definition worker_proxies :: "worker list \<Rightarrow> string list" where
  "worker_proxies ws = concat (map w_proxy ws)"

lemma worker_proxies_simps [simp]:
  "worker_proxies [] = []" "worker_proxies (w # ws) = w_proxy w @ worker_proxies ws"
  "worker_proxies (ws @ vs) = worker_proxies ws @ worker_proxies vs"
  by (simp_all add: worker_proxies_def)

lemma w_proxy_pipe: "w_proxy (W_pipe p) = (case p of Direct \<Rightarrow> [] | Via u \<Rightarrow> [u])"
  "w_proxy (W_job p j) = (case p of Direct \<Rightarrow> [] | Via u \<Rightarrow> [u])"
  by (cases p; simp)+

text \<open>A measured speed is one the wire carries.\<close>

lemma dbl_round_half:
  assumes "1 / 2 ^ 100 \<le> x" "x \<le> 2 ^ 100"
  shows "\<exists>y. dbl_round x = Fin y \<and> x / 2 \<le> y \<and> y \<le> 2 * x"
proof -
  have "pow2 (-1022) \<le> pow2 (-100)" "pow2 101 < pow2 1024" by (intro pow2_mono) (simp_all add: pow2_def)
  then have "pow2 (-1022) \<le> x" "2 * x < pow2 1024" using assms by (simp_all add: pow2_def)
  from dbl_round_close [OF this] obtain y where y: "dbl_round x = Fin y" "\<bar>y - x\<bar> \<le> x / 2 ^ 53" by blast
  have "0 < x" using assms(1) less_le_trans [of 0 "1 / 2 ^ 100" x] by simp
  then have "x / 2 ^ 53 \<le> x / 2" by (simp add: field_simps)
  with y(2) \<open>0 < x\<close> have "x / 2 \<le> y" "y \<le> 2 * x" by linarith+
  with y(1) show ?thesis by blast
qed

lemma transfer_mbps_wire:
  assumes "wire_speed v" "1 \<le> want" "want < 2 ^ 63" "secs < 2 ^ 34"
  shows "wire_speed (transfer_mbps ok want secs v)"
proof (cases "ok \<and> dgt (Fin secs) (dbl_round (1 / 100))")
  case True
  obtain l where l: "dbl_round (1 / 100) = Fin l" "1 / 200 \<le> l" using dbl_round_half [of "1 / 100"] by auto
  then have secs: "1 / 200 < secs" using True by simp
  have w: "(1::rat) \<le> of_int want" "(of_int want :: rat) \<le> 2 ^ 63"
    using assms(2,3) of_int_le_iff [of want "2 ^ 63", where 'a = rat] by simp_all
  obtain a where a: "dbl_round (of_int want) = Fin a" "of_int want / 2 \<le> a" "a \<le> 2 * of_int want"
    using dbl_round_half [of "of_int want"] w by auto
  have "(2::rat) * 2 ^ 63 = 2 ^ 64" by simp
  then have a': "1 / 2 \<le> a" "a \<le> 2 ^ 64" using a w by linarith+
  have "1 / 2 ^ 100 \<le> a / (1024 * 1024)" "a / (1024 * 1024) \<le> 2 ^ 100" using a' by simp_all
  from dbl_round_half [OF this] obtain b where b: "dbl_round (a / (1024 * 1024)) = Fin b"
    "a / (1024 * 1024) / 2 \<le> b" "b \<le> 2 * (a / (1024 * 1024))" by auto
  have b': "1 / 2 ^ 22 \<le> b" "b \<le> 2 ^ 45" using b a' by simp_all
  have pos: "0 < secs" using secs by simp
  have "1 / 2 ^ 56 \<le> b / secs"
  proof -
    have "(1 / 2 ^ 22) / 2 ^ 34 \<le> b / secs" using b' assms(4) pos by (intro frac_le) simp_all
    then show ?thesis by simp
  qed
  moreover have "b / secs \<le> 2 ^ 53"
  proof -
    have "b / secs \<le> 2 ^ 45 / (1 / 200)" using b' secs by (intro frac_le) simp_all
    then show ?thesis by simp
  qed
  moreover define r where "r = b / secs"
  ultimately have q: "1 / 2 ^ 56 \<le> r" "r \<le> 2 ^ 53" by simp_all
  have "(1::rat) / 2 ^ 100 \<le> 1 / 2 ^ 56" "(2::rat) ^ 53 \<le> 2 ^ 100" by simp_all
  with q have "1 / 2 ^ 100 \<le> r" "r \<le> 2 ^ 100" by linarith+
  from dbl_round_half [OF this] obtain y where y: "dbl_round (b / secs) = Fin y" "r / 2 \<le> y" "y \<le> 2 * r"
    by (auto simp: r_def)
  have "pow2 (-1000) \<le> pow2 (-57)" "pow2 54 \<le> pow2 1000" by (intro pow2_mono; simp)+
  moreover have "pow2 (-57) = 1 / 2 ^ 56 / 2" "pow2 54 = 2 * 2 ^ 53" by (simp_all add: pow2_def)
  moreover have "1 / 2 ^ 56 / 2 \<le> r / 2" "2 * r \<le> 2 * 2 ^ 53" using q by simp_all
  ultimately have "pow2 (-1000) \<le> y" "y \<le> pow2 1000"
    using order_trans [OF _ y(2), of "pow2 (-1000)"] order_trans [OF y(3), of "pow2 1000"] order_trans by metis+
  then show ?thesis using True a(1) b(1) y(1) by (simp add: transfer_mbps_def ddiv_pos_def wire_speed_def)
qed (use assms(1) in \<open>auto simp: transfer_mbps_def\<close>)

definition pooled_inv :: "('a, daemon_peer) session \<Rightarrow> bool" where
  "pooled_inv s \<longleftrightarrow> leases_ok (mset (worker_proxies (dl_workers (ss_dl s)))) (client_side s) \<and>
     (\<forall>i. wire_speed (ss_mbps s i))"

lemma return_held_ok:
  assumes "daemon env" "leases_ok (mset (worker_proxies (pre @ w # post))) cw" "wire_speed v"
    and "w_proxy w = (case p of Direct \<Rightarrow> [] | Via u \<Rightarrow> [u])" "w_proxy w' = []"
  shows "leases_ok (mset (worker_proxies (pre @ w' # post))) (return_pipe (daemon_link env) p ok v cw)"
proof (cases p)
  case Direct
  then show ?thesis using assms(2,4,5) by (simp add: return_pipe_def)
next
  case (Via u)
  then show ?thesis using return_pipe_ok [OF assms(1) _ assms(3)] assms(2,4,5) by simp
qed

lemma pooled_step_inv:
  assumes "daemon env" "\<forall>line. env_sends env line" "pooled_step opt (daemon_link env) (other_use env) net s s'"
    and "pooled_inv s" "\<forall>c\<in>set (working_chunks (dl_workers (ss_dl s))). 1 \<le> ch_want c \<and> ch_want c < 2 ^ 63"
  shows "pooled_inv s'"
  using assms(3-5)
proof (induction rule: pooled_step.induct)
  case (s_proxy d s pre post easy got cw w d')
  have "leases_ok (mset (worker_proxies (pre @ W_peeked # post))) (client_side s)"
    using s_proxy by (simp add: pooled_inv_def)
  from lease_pipe_ok [OF assms(1,2) this s_proxy(4)] s_proxy show ?case
    by (auto simp: pooled_inv_def open_proxy_def split: option.splits if_splits)
next
  case (s_take d s pre p post w d' cw)
  have l: "leases_ok (mset (worker_proxies (pre @ W_pipe p # post))) (client_side s)" "wire_speed (ss_mbps s (length pre))"
    using s_take by (simp_all add: pooled_inv_def)
  show ?case
  proof (cases "dl_jobs d = []")
    case True
    then have "w = W_idle" using s_take(3) by (auto simp: take_job_def)
    with return_held_ok [OF assms(1) l w_proxy_pipe(1), of W_idle True] s_take(4,5) True show ?thesis
      by (simp add: pooled_inv_def)
  next
    case False
    then obtain j' where "w = W_job p j'" using s_take(3) by (elim take_job_cases) auto
    with l s_take(4,5) False show ?thesis by (simp add: pooled_inv_def w_proxy_pipe)
  qed
next
  case (s_transfer d s pre p j post fetch opens w d' secs ok mbps cw)
  have w: "w = W_leaving" using s_transfer(4) by (elim finish_job_cases)
  have l: "leases_ok (mset (worker_proxies (pre @ W_job p j # post))) (client_side s)" "\<forall>i. wire_speed (ss_mbps s i)"
    using s_transfer by (simp_all add: pooled_inv_def)
  have "1 \<le> ch_want (job_ch j) \<and> ch_want (job_ch j) < 2 ^ 63" using s_transfer(1,2,11) by simp
  then have m: "wire_speed mbps" unfolding s_transfer(8) using l(2) s_transfer(6) by (intro transfer_mbps_wire) auto
  from return_held_ok [OF assms(1) l(1) m w_proxy_pipe(2), of W_leaving ok] l(2) m w s_transfer(9) show ?case
    by (simp add: pooled_inv_def)
next
  case (s_keepalive cw s)
  then show ?case using keepalive_ok [of _ "client_side s"] by (simp add: pooled_inv_def)
next
  case (s_others s w')
  then show ?case using other_use_keeps [OF assms(1)] by (auto simp: pooled_inv_def)
qed (auto simp: pooled_inv_def elim!: open_direct_cases)

lemma pooled_reach_inv:
  assumes "daemon env" "\<forall>line. env_sends env line" "in_step c0 p0" "cl_held c0 = []"
    and "\<forall>c\<in>set chunks. 1 \<le> ch_want c \<and> ch_want c < 2 ^ 63"
    and "pooled_reach opt (daemon_link env) (other_use env) net chunks c0 p0 s"
  shows "pooled_inv s"
  using assms(6)
proof (induction rule: pooled_reach.induct)
  case pooled_start
  have "worker_proxies (replicate n W_idle) = []" for n by (induction n) auto
  then show ?case
    using assms(3,4) by (simp add: pooled_inv_def start_session_def start_download_def leases_ok_def wire_speed_def)
next
  case (pooled_next s s')
  have "set (working_chunks (dl_workers (ss_dl s))) \<subseteq> set chunks"
    using conserved_sets [OF reach_conserved [OF session_download [OF pooled_next(1)]]] by blast
  with pooled_step_inv [OF assms(1,2) pooled_next(2,3)] assms(5) show ?case by blast
qed

section \<open>Properties\<close>



text \<open>
  A whole run against a daemon whose target check reaches one proxy: one worker transfers over the direct
  connection and one through the proxy.
\<close>

definition reach_env :: daemon_env where
  "reach_env = quiet_env\<lparr>env_probe := (\<lambda>url addrs. Some (if ''http://a:1'' \<in> set addrs then [(''http://a:1'', Fin 0)] else []))\<rparr>"

lemma reach_env_daemon: "daemon reach_env" "\<forall>line. env_sends reach_env line"
proof -
  have "probes_ok (env_probe reach_env)" by (simp add: reach_env_def probes_ok_def pow2_def)
  then show "daemon reach_env"
    using quiet.env_engine quiet.env_passes by (intro daemon.intro) (simp_all add: reach_env_def)
qed (simp add: reach_env_def quiet_env_def)

definition pooled_start :: "(string + file_info) \<times> client \<times> daemon_peer" where
  "pooled_start =
     proxied_start (daemon_link reach_env) ''/run/s'' [] 1 (Inr \<lparr>fi_size = 5, accepts_ranges = True\<rparr>) ''http://h/f''
       \<lparr>dp_conn = new_conn\<lparr>c_open := False\<rparr>, dp_engine = idle_pool, dp_out = []\<rparr>"

definition met_client :: client where
  "met_client = \<lparr>cl_fd = True, cl_leftover = [], cl_path = ''/run/s'', cl_extra = [], cl_held = []\<rparr>"

definition met_peer :: daemon_peer where
  "met_peer =
     \<lparr>dp_conn = \<lparr>c_open = True, c_buf = [], held = [], greeted = True, c_sent = [''OK 1 proxchunkd 1.1'', ''OK 1'']\<rparr>,
      dp_engine = \<lparr>cfg = demo_config,
        pool = [(new_proxy ''http://a:1'')\<lparr>latency_ms := 10\<rparr>,
          (new_proxy ''http://b:2'')\<lparr>latency_ms := 10, target_ok := False\<rparr>],
        target_url = ''http://h/f'', target_filter = True\<rparr>,
      dp_out = []\<rparr>"

lemma pooled_started: "pooled_start = (Inr \<lparr>fi_size = 5, accepts_ranges = True\<rparr>, met_client, met_peer)"
  by code_simp

definition pooled_run :: "nat list \<Rightarrow> (int, daemon_peer) session" where
  "pooled_run is =
     fold (run_worker demo_options (daemon_link reach_env) whole_fetch 0) is
       (start_session demo_options demo_chunks met_client met_peer)"

lemma pooled_run_reach:
  "pooled_reach demo_options (daemon_link reach_env) (other_use reach_env) (honest demo_content) demo_chunks
     met_client met_peer (pooled_run is)"
  unfolding pooled_run_def
  by (rule run_workers_reach [where net = "honest demo_content", OF _ demo_honest(1)])
    (simp_all add: pooled_reach.pooled_start)

lemma pooled_run_plan:
  "plan_accepts demo_options (fi_size \<lparr>fi_size = 5, accepts_ranges = True\<rparr>)"
  "download_plan demo_options (fi_size \<lparr>fi_size = 5, accepts_ranges = True\<rparr>) = Some demo_chunks"
  "daemon_up \<lparr>dp_conn = new_conn\<lparr>c_open := False\<rparr>, dp_engine = idle_pool, dp_out = []\<rparr>"
  "length ''/run/s'' < sun_path_size" "op_ok reach_env e (Op_target ''http://h/f'')"
proof -
  have "speakable_pool idle_pool" unfolding speakable_pool_def by code_simp
  then show "daemon_up \<lparr>dp_conn = new_conn\<lparr>c_open := False\<rparr>, dp_engine = idle_pool, dp_out = []\<rparr>"
    using idle_pool_ok by (simp add: daemon_up_def)
  have "speakable ''http://h/f''" by code_simp
  then show "op_ok reach_env e (Op_target ''http://h/f'')" by (simp add: reach_env_def quiet_env_def)
qed code_simp+


definition run_succeeded :: "(int, daemon_peer) session \<Rightarrow> bool" where
  "run_succeeded s \<longleftrightarrow> (\<forall>w\<in>set (dl_workers (ss_dl s)). w = W_done) \<and> dl_failed (ss_dl s) = []"


end
