(* ===== verification/Speed_Props.thy ===== *)
theory Speed_Props
  imports Session_Props
begin

text \<open>
  What the pool learns of a transfer: the speed a worker computes in floating point, prints into a
  \<open>RELEASE\<close> and the daemon reads back, against the bytes and seconds of the transfer.
\<close>

text \<open>The error of a measured speed: three roundings, then the six digits of the stream.\<close>

definition near :: "rat \<Rightarrow> rat \<Rightarrow> rat \<Rightarrow> bool" where
  "near e x y \<longleftrightarrow> \<bar>y - x\<bar> \<le> e * x"

lemma near_trans:
  assumes "near e x y" "near f y z" "0 \<le> x" "0 \<le> e" "e \<le> 1" "0 \<le> f"
  shows "near (e + 2 * f) x z"
proof -
  have y: "\<bar>y - x\<bar> \<le> e * x" "\<bar>z - y\<bar> \<le> f * y" using assms(1,2) by (simp_all add: near_def)
  have "e * x \<le> x" using assms(3,5) by (simp add: mult_left_le_one_le assms(4))
  with y(1) have "y \<le> 2 * x" by linarith
  then have "f * y \<le> f * (2 * x)" using assms(6) by (rule mult_left_mono)
  with y have "\<bar>z - x\<bar> \<le> e * x + f * (2 * x)" by linarith
  then show ?thesis by (simp add: near_def distrib_right mult.assoc mult.left_commute)
qed

lemma near_divide: "near e x y \<Longrightarrow> 0 < k \<Longrightarrow> near e (x / k) (y / k)"
  by (simp add: near_def divide_right_mono abs_divide flip: diff_divide_distrib)

lemma near_mono: "near e x y \<Longrightarrow> e \<le> f \<Longrightarrow> 0 \<le> x \<Longrightarrow> near f x y"
  using mult_right_mono [of e f x] by (simp add: near_def)

lemma dbl_round_near:
  assumes "1 / 2 ^ 100 \<le> x" "x \<le> 2 ^ 100"
  shows "\<exists>y. dbl_round x = Fin y \<and> near (1 / 2 ^ 53) x y \<and> x / 2 \<le> y \<and> y \<le> 2 * x"
proof -
  have "pow2 (-1022) \<le> pow2 (-100)" "pow2 101 < pow2 1024" by (intro pow2_mono) (simp_all add: pow2_def)
  then have "pow2 (-1022) \<le> x" "2 * x < pow2 1024" using assms by (simp_all add: pow2_def)
  from dbl_round_close [OF this] show ?thesis using dbl_round_half [OF assms] by (auto simp: near_def)
qed

lemma transfer_mbps_near:
  assumes "1 \<le> want" "want < 2 ^ 63" "1 / 50 < secs" "secs < 2 ^ 34"
  shows "\<exists>q. transfer_mbps True want secs v = Fin q \<and> near (1 / 1000000) (of_int want / (1024 * 1024) / secs) q"
proof -
  obtain l where l: "dbl_round (1 / 100) = Fin l" "l \<le> 2 * (1 / 100)" using dbl_round_half [of "1 / 100"] by auto
  then have gt: "dgt (Fin secs) (dbl_round (1 / 100))" using assms(3) by simp
  have w: "(1::rat) \<le> of_int want" "(of_int want :: rat) \<le> 2 ^ 63"
    using assms(1,2) of_int_le_iff [of want "2 ^ 63", where 'a = rat] by simp_all
  obtain a where a: "dbl_round (of_int want) = Fin a" "near (1 / 2 ^ 53) (of_int want) a"
    "of_int want / 2 \<le> a" "a \<le> 2 * of_int want"
    using dbl_round_near [of "of_int want"] w by auto
  have "(2::rat) * 2 ^ 63 = 2 ^ 64" by simp
  then have a': "1 / 2 \<le> a" "a \<le> 2 ^ 64" using a w by linarith+
  have "1 / 2 ^ 100 \<le> a / (1024 * 1024)" "a / (1024 * 1024) \<le> 2 ^ 100" using a' by simp_all
  from dbl_round_near [OF this] obtain b where b: "dbl_round (a / (1024 * 1024)) = Fin b"
    "near (1 / 2 ^ 53) (a / (1024 * 1024)) b" "a / (1024 * 1024) / 2 \<le> b" "b \<le> 2 * (a / (1024 * 1024))" by auto
  have b': "1 / 2 ^ 22 \<le> b" "b \<le> 2 ^ 45" using b a' by simp_all
  have pos: "0 < secs" using assms(3) by (rule less_trans [rotated]) simp
  have "(1 / 2 ^ 22) / 2 ^ 34 \<le> b / secs" using b' assms(4) pos by (intro frac_le) simp_all
  then have lo: "1 / 2 ^ 100 \<le> b / secs" by (rule order_trans [rotated]) simp
  have "b / secs \<le> 2 ^ 45 / (1 / 50)" using b' assms(3) by (intro frac_le) simp_all
  then have "b / secs \<le> 2 ^ 100" by (rule order_trans) simp
  from dbl_round_near [OF lo this] obtain q where q: "dbl_round (b / secs) = Fin q" "near (1 / 2 ^ 53) (b / secs) q" by auto
  let ?m = "of_int want / (1024 * 1024) :: rat"
  have m: "0 \<le> ?m" "0 \<le> ?m / secs" using w pos by simp_all
  have "near (1 / 2 ^ 53) ?m (a / (1024 * 1024))" by (rule near_divide [OF a(2)]) simp
  from near_trans [OF this b(2) m(1)] have "near (3 / 2 ^ 53) ?m b" by simp
  from near_trans [OF near_divide [OF this pos] q(2) m(2)] have "near (5 / 2 ^ 53) (?m / secs) q" by simp
  then have "near (1 / 1000000) (?m / secs) q" by (rule near_mono [OF _ _ m(2)]) simp
  then show ?thesis using gt a(1) b(1) q(1) by (simp add: transfer_mbps_def ddiv_pos_def)
qed

lemma transfer_mbps_measured:
  assumes "1 \<le> want" "want < 2 ^ 63" "1 / 50 < secs" "secs < 2 ^ 34"
  shows "wire_speed (transfer_mbps True want secs v)"
proof -
  have "dgt (Fin secs) (dbl_round (1 / 100))" using dbl_round_half [of "1 / 100"] assms(3) by auto
  then have "transfer_mbps True want secs v = transfer_mbps True want secs (Fin 0)" by (simp add: transfer_mbps_def)
  then show ?thesis using transfer_mbps_wire [of "Fin 0" want secs True] assms by (simp add: wire_speed_def)
qed

lemma transfer_mbps_read:
  assumes "1 \<le> want" "want < 2 ^ 63" "1 / 50 < secs" "secs < 2 ^ 34"
  shows "\<exists>y. stod (stream_double (transfer_mbps True want secs v)) = Some (Fin y) \<and>
    near (1 / 40000) (of_int want / (1024 * 1024) / secs) y"
proof -
  obtain q where q: "transfer_mbps True want secs v = Fin q" "near (1 / 1000000) (of_int want / (1024 * 1024) / secs) q"
    using transfer_mbps_near [OF assms] by blast
  have "wire_speed (Fin q)" using transfer_mbps_measured [OF assms, of v] q(1) by simp
  from wire_speed_read [OF this] obtain y where y: "stod (stream_double (Fin q)) = Some (Fin y)" "near (1 / 100000) q y"
    by (auto simp: near_def)
  have pos: "0 \<le> (of_int want / (1024 * 1024) / secs :: rat)" using assms by simp
  from near_trans [OF q(2) y(2) pos] have "near (1 / 40000) (of_int want / (1024 * 1024) / secs) y"
    using near_mono [OF _ _ pos] by fastforce
  then show ?thesis using y(1) q(1) by auto
qed

text \<open>
  C14:
  The speed that reaches the pool. When a worker has fetched a chunk of \<open>want\<close> bytes in \<open>secs\<close> seconds and
  returns the proxy, the client's release over the socket has the effect of a release in the pool with
  a speed that differs from the true megabytes per second by at most one part in 40000: three roundings
  to doubles, the six digits of the stream, and the daemon's reading of them, for every length and every
  time up to 2 ^ 34 seconds.
\<close>

theorem released_speed_accurate:
  assumes "daemon env" "in_step c p" "speakable u" "1 \<le> want" "want < 2 ^ 63" "1 / 50 < secs" "secs < 2 ^ 34"
    and "remote_op env (Op_release u True (transfer_mbps True want secs v)) (c, p) = (r, c', p')"
  shows "\<exists>y. near (1 / 40000) (of_int want / (1024 * 1024) / secs) y \<and> r = Got_ok True \<and>
    cl_held c' = remove1 u (cl_held c) \<and> dp_engine p' = release (env_sort env) u True (Fin y) (dp_engine p)"
proof -
  obtain y where y: "stod (stream_double (transfer_mbps True want secs v)) = Some (Fin y)"
    "near (1 / 40000) (of_int want / (1024 * 1024) / secs) y"
    using transfer_mbps_read [OF assms(4-7)] by blast
  have "op_ok env (dp_engine p) (Op_release u True (transfer_mbps True want secs v))"
    by (rule measured_release_ok [OF assms(3) transfer_mbps_measured [OF assms(4-7)]])
  from remote_release [OF assms(1,2) this assms(8)] y(1)
  have "r = Got_ok True \<and> cl_held c' = remove1 u (cl_held c) \<and> dp_engine p' = release (env_sort env) u True (Fin y) (dp_engine p)"
    by simp
  with y(2) show ?thesis by blast
qed

lemma released_speed_accurate_witness:
  "\<exists>y. near (1 / 40000) 1 y \<and>
     dp_engine (snd (snd (remote_op quiet_env (Op_release ''http://a:1'' True (transfer_mbps True 1048576 1 (Fin 0))) (demo_client, demo_peer)))) =
       release (env_sort quiet_env) ''http://a:1'' True (Fin y) (dp_engine demo_peer)"
proof -
  obtain r c' p' where o: "remote_op quiet_env (Op_release ''http://a:1'' True (transfer_mbps True 1048576 1 (Fin 0))) (demo_client, demo_peer) = (r, c', p')"
    by (metis prod_cases3)
  have "speakable ''http://a:1''" by code_simp
  from released_speed_accurate [OF quiet.daemon_axioms demo_in_step this _ _ _ _ o]
  have "\<exists>y. near (1 / 40000) 1 y \<and> dp_engine p' = release (env_sort quiet_env) ''http://a:1'' True (Fin y) (dp_engine demo_peer)"
    by auto
  then show ?thesis unfolding o by simp
qed

end
