(* ===== verification/Descriptors.thy ===== *)
theory Descriptors
  imports Prelude
begin

text \<open>
  File descriptors: \<open>class unique_fd\<close> (\<open>include/proxchunk/unique_fd.hpp\<close>), which owns one, over the table
  of open descriptors of the process, and \<open>redirect_stdio\<close> of the daemon (\<open>src/proxchunkd.cpp\<close>), which
  works on the table directly.

  Objects are named by their addresses, so that a move from an object to itself is a case of its own.
\<close>

section \<open>The table of the process\<close>

text \<open>
  What each open descriptor refers to; \<open>open\<close> takes the lowest free number below the limit of the
  process, and fails when there is none or when the file cannot be opened.
\<close>

datatype open_file = File string | Pipe_read | Pipe_write

type_synonym fd_table = "int \<rightharpoonup> open_file"

definition k_open :: "nat \<Rightarrow> bool \<Rightarrow> open_file \<Rightarrow> fd_table \<Rightarrow> int \<times> fd_table" where
  "k_open rlim can file t =
     (case List.find (\<lambda>n. t (int n) = None) [0..<rlim] of
        Some n \<Rightarrow> if can then (int n, t(int n \<mapsto> file)) else (-1, t)
      | None \<Rightarrow> (-1, t))"

definition k_dup2 :: "int \<Rightarrow> int \<Rightarrow> fd_table \<Rightarrow> fd_table" where
  "k_dup2 old new t = (if t old = None then t else t(new := t old))"

text \<open>\<open>redirect_stdio\<close>: the null device becomes the input, the log the output and the error output.\<close>

definition redirect_stdio :: "nat \<Rightarrow> (string \<Rightarrow> bool) \<Rightarrow> string \<Rightarrow> fd_table \<Rightarrow> fd_table" where
  "redirect_stdio rlim can log_path t =
     (let (nullfd, t) = k_open rlim (can ''/dev/null'') (File ''/dev/null'') t;
          t = (if nullfd \<ge> 0
               then (let t = k_dup2 nullfd 0 t in if nullfd > 2 then t(nullfd := None) else t)
               else t);
          (logfd, t) = k_open rlim (can log_path) (File log_path) t
      in if logfd \<ge> 0
         then (let t = k_dup2 logfd 2 (k_dup2 logfd 1 t) in if logfd > 2 then t(logfd := None) else t)
         else t)"

lemma k_openE:
  assumes "k_open rlim can file t = (fd, t')"
  obtains (failed) "fd = -1" "t' = t" "\<not> can \<or> (\<forall>n<rlim. t (int n) \<noteq> None)"
  | (opened) "0 \<le> fd" "can" "t fd = None" "t' = t(fd \<mapsto> file)"
proof (cases "List.find (\<lambda>n. t (int n) = None) [0..<rlim]")
  case None
  then have "\<forall>n<rlim. t (int n) \<noteq> None" by (auto simp: find_None_iff)
  then show ?thesis using assms None by (intro failed) (auto simp: k_open_def)
next
  case (Some n)
  then have n: "t (int n) = None" by (auto simp: find_Some_iff)
  show ?thesis
  proof (cases can)
    case True
    then have "fd = int n" "t' = t(int n \<mapsto> file)" using assms Some by (auto simp: k_open_def)
    with True n show ?thesis by (intro opened) simp_all
  next
    case False
    then have "fd = -1" "t' = t" using assms Some by (simp_all add: k_open_def)
    with False show ?thesis by (intro failed) simp_all
  qed
qed

lemma redirect_null:
  assumes "k_open rlim can file t = (fd, t1)" "0 \<le> fd"
  defines "u \<equiv> let t = k_dup2 fd 0 t1 in if fd > 2 then t(fd := None) else t"
  shows "u 0 = Some file" "n \<notin> {0, 1, 2} \<Longrightarrow> u n = t n" "t n \<noteq> None \<Longrightarrow> n \<in> {1, 2} \<Longrightarrow> u n = t n"
    "\<forall>n. t n = None \<longrightarrow> 2 < n \<longrightarrow> u n = None"
proof -
  from assms(1,2) have t: "t fd = None" "t1 = t(fd \<mapsto> file)" by (auto elim: k_openE)
  then show "u 0 = Some file" "n \<notin> {0, 1, 2} \<Longrightarrow> u n = t n" "t n \<noteq> None \<Longrightarrow> n \<in> {1, 2} \<Longrightarrow> u n = t n"
    "\<forall>n. t n = None \<longrightarrow> 2 < n \<longrightarrow> u n = None"
    using assms(2) by (auto simp: u_def k_dup2_def Let_def)
qed

lemma redirect_log:
  assumes "k_open rlim can file t = (fd, t1)" "0 \<le> fd"
  defines "u \<equiv> let t = k_dup2 fd 2 (k_dup2 fd 1 t1) in if fd > 2 then t(fd := None) else t"
  shows "t 0 \<noteq> None \<Longrightarrow> u 0 = t 0" "u 1 = Some file" "u 2 = Some file" "n \<notin> {0, 1, 2} \<Longrightarrow> u n = t n"
proof -
  from assms(1,2) have t: "t fd = None" "t1 = t(fd \<mapsto> file)" by (auto elim: k_openE)
  then have "t 0 \<noteq> None \<Longrightarrow> fd \<noteq> 0" by auto
  with t assms(2) show "t 0 \<noteq> None \<Longrightarrow> u 0 = t 0" "u 1 = Some file" "u 2 = Some file" "n \<notin> {0, 1, 2} \<Longrightarrow> u n = t n"
    by (auto simp: u_def k_dup2_def Let_def)
qed

text \<open>The table between the two openings.\<close>

definition with_null :: "nat \<Rightarrow> (string \<Rightarrow> bool) \<Rightarrow> fd_table \<Rightarrow> fd_table" where
  "with_null rlim can t =
     (let (nullfd, t) = k_open rlim (can ''/dev/null'') (File ''/dev/null'') t
      in if nullfd \<ge> 0 then (let t = k_dup2 nullfd 0 t in if nullfd > 2 then t(nullfd := None) else t) else t)"

lemma redirect_split:
  "redirect_stdio rlim can log_path t =
     (let (logfd, t) = k_open rlim (can log_path) (File log_path) (with_null rlim can t)
      in if logfd \<ge> 0
         then (let t = k_dup2 logfd 2 (k_dup2 logfd 1 t) in if logfd > 2 then t(logfd := None) else t)
         else t)"
  by (simp add: redirect_stdio_def with_null_def Let_def split: prod.split)

lemma with_null_others: "n \<notin> {0, 1, 2} \<Longrightarrow> with_null rlim can t n = t n"
proof -
  assume n: "n \<notin> {0, 1, 2}"
  obtain fd t1 where o: "k_open rlim (can ''/dev/null'') (File ''/dev/null'') t = (fd, t1)" by fastforce
  then show ?thesis
  proof (cases rule: k_openE)
    case failed
    with o show ?thesis by (simp add: with_null_def)
  next
    case opened
    with o show ?thesis using redirect_null(2) [OF o opened(1) n] by (simp add: with_null_def)
  qed
qed

lemma redirect_others: "n \<notin> {0, 1, 2} \<Longrightarrow> redirect_stdio rlim can log_path t n = t n"
proof -
  assume n: "n \<notin> {0, 1, 2}"
  let ?t = "with_null rlim can t"
  obtain fd t1 where o: "k_open rlim (can log_path) (File log_path) ?t = (fd, t1)" by fastforce
  then show ?thesis
  proof (cases rule: k_openE)
    case failed
    with o n show ?thesis by (simp add: redirect_split with_null_others)
  next
    case opened
    with o show ?thesis
      using redirect_log(4) [OF o opened(1) n] with_null_others [OF n] by (simp add: redirect_split)
  qed
qed

lemma free_opens:
  assumes "k < rlim" "t (int k) = None" "can"
  obtains fd t1 where "k_open rlim can file t = (fd, t1)" "0 \<le> fd"
proof -
  obtain fd t1 where o: "k_open rlim can file t = (fd, t1)" by fastforce
  moreover from o have "0 \<le> fd" using assms by (cases rule: k_openE) auto
  ultimately show ?thesis by (rule that)
qed

lemma redirect_standard:
  assumes can: "can ''/dev/null''" "can log_path" and k: "k < rlim" "2 < k" "t (int k) = None"
  shows "redirect_stdio rlim can log_path t 0 = Some (File ''/dev/null'')"
    "redirect_stdio rlim can log_path t 1 = Some (File log_path)" "redirect_stdio rlim can log_path t 2 = Some (File log_path)"
proof -
  let ?t = "with_null rlim can t"
  obtain fd t1 where o: "k_open rlim (can ''/dev/null'') (File ''/dev/null'') t = (fd, t1)" "0 \<le> fd"
    using free_opens [where t = t and can = "can ''/dev/null''", OF k(1,3) can(1)] by blast
  have null: "?t 0 = Some (File ''/dev/null'')" using redirect_null(1) [OF o] o by (simp add: with_null_def)
  have "?t (int k) = None" using with_null_others [of "int k"] k by simp
  then obtain lfd t2 where l: "k_open rlim (can log_path) (File log_path) ?t = (lfd, t2)" "0 \<le> lfd"
    using free_opens [where t = ?t and can = "can log_path", OF k(1) _ can(2)] by blast
  show "redirect_stdio rlim can log_path t 0 = Some (File ''/dev/null'')"
    "redirect_stdio rlim can log_path t 1 = Some (File log_path)" "redirect_stdio rlim can log_path t 2 = Some (File log_path)"
    using redirect_log(1,2,3) [OF l] l null by (simp_all add: redirect_split)
qed

section \<open>The owner of a descriptor\<close>

text \<open>
  The objects that are alive with their member \<open>fd_\<close>, the table, the descriptors that are in the hands
  of other code, and the calls of \<open>close\<close> on a descriptor that was not open.
\<close>

record fd_world =
  fw_owner :: "nat \<rightharpoonup> int"
  fw_open :: "int set"
  fw_raw :: "int set"
  fw_bad :: "int list"

definition k_close :: "int \<Rightarrow> fd_world \<Rightarrow> fd_world" where
  "k_close fd w =
     (if fd \<in> fw_open w then w\<lparr>fw_open := fw_open w - {fd}, fw_raw := fw_raw w - {fd}\<rparr>
      else w\<lparr>fw_bad := fw_bad w @ [fd]\<rparr>)"

definition set_fd :: "nat \<Rightarrow> int \<Rightarrow> fd_world \<Rightarrow> fd_world" where
  "set_fd i fd w = w\<lparr>fw_owner := (fw_owner w)(i \<mapsto> fd), fw_raw := fw_raw w - {fd}\<rparr>"

text \<open>\<open>get\<close> and \<open>operator bool\<close>.\<close>

definition fd_get :: "nat \<Rightarrow> fd_world \<Rightarrow> int" where
  "fd_get i w = (case fw_owner w i of Some fd \<Rightarrow> fd | None \<Rightarrow> -1)"

definition fd_bool :: "nat \<Rightarrow> fd_world \<Rightarrow> bool" where
  "fd_bool i w \<longleftrightarrow> fd_get i w \<ge> 0"

text \<open>
  The constructors, \<open>reset\<close>, \<open>release\<close>, the destructor, and the move operations. An object from which one
  moves holds -1 afterwards.
\<close>

definition fd_construct :: "nat \<Rightarrow> int \<Rightarrow> fd_world \<Rightarrow> fd_world" where
  "fd_construct i fd w = set_fd i fd w"

definition fd_reset :: "nat \<Rightarrow> int \<Rightarrow> fd_world \<Rightarrow> fd_world" where
  "fd_reset i fd w = set_fd i fd (if fd_get i w \<ge> 0 then k_close (fd_get i w) w else w)"

definition fd_release :: "nat \<Rightarrow> fd_world \<Rightarrow> int \<times> fd_world" where
  "fd_release i w =
     (let fd = fd_get i w
      in (fd, (set_fd i (-1) w)\<lparr>fw_raw := (if fd \<ge> 0 then insert fd (fw_raw w) else fw_raw w)\<rparr>))"

definition fd_destroy :: "nat \<Rightarrow> fd_world \<Rightarrow> fd_world" where
  "fd_destroy i w = (let w = fd_reset i (-1) w in w\<lparr>fw_owner := (fw_owner w)(i := None)\<rparr>)"

definition fd_move :: "nat \<Rightarrow> nat \<Rightarrow> fd_world \<Rightarrow> fd_world" where
  "fd_move i j w = set_fd j (-1) (set_fd i (fd_get j w) w)"

definition fd_assign :: "nat \<Rightarrow> nat \<Rightarrow> fd_world \<Rightarrow> fd_world" where
  "fd_assign i j w = (if i \<noteq> j then (let w = fd_reset i (-1) w in set_fd j (-1) (set_fd i (fd_get j w) w)) else w)"

text \<open>
  What a program may do: other code opens a descriptor, closes one of its own, and hands one to an
  owner, once; objects are used between construction and destruction.
\<close>

inductive fd_step :: "fd_world \<Rightarrow> fd_world \<Rightarrow> bool" where
  fd_opened: "0 \<le> fd \<Longrightarrow> fd \<notin> fw_open w \<Longrightarrow> fd_step w (w\<lparr>fw_open := insert fd (fw_open w), fw_raw := insert fd (fw_raw w)\<rparr>)"
| fd_closed: "fd \<in> fw_raw w \<Longrightarrow> fd_step w (k_close fd w)"
| fd_constructed: "fw_owner w i = None \<Longrightarrow> fd = -1 \<or> fd \<in> fw_raw w \<Longrightarrow> fd_step w (fd_construct i fd w)"
| fd_resets: "fw_owner w i \<noteq> None \<Longrightarrow> fd = -1 \<or> fd \<in> fw_raw w \<Longrightarrow> fd_step w (fd_reset i fd w)"
| fd_releases: "fw_owner w i \<noteq> None \<Longrightarrow> fd_step w (snd (fd_release i w))"
| fd_destroyed: "fw_owner w i \<noteq> None \<Longrightarrow> fd_step w (fd_destroy i w)"
| fd_moved: "fw_owner w i = None \<Longrightarrow> fw_owner w j \<noteq> None \<Longrightarrow> fd_step w (fd_move i j w)"
| fd_assigned: "fw_owner w i \<noteq> None \<Longrightarrow> fw_owner w j \<noteq> None \<Longrightarrow> fd_step w (fd_assign i j w)"

inductive fd_reach :: "fd_world \<Rightarrow> bool" where
  fd_start: "fd_reach \<lparr>fw_owner = Map.empty, fw_open = {}, fw_raw = {}, fw_bad = []\<rparr>"
| fd_next: "fd_reach w \<Longrightarrow> fd_step w w' \<Longrightarrow> fd_reach w'"

section \<open>Who owns what\<close>

lemmas fd_defs = k_close_def set_fd_def fd_get_def fd_construct_def fd_reset_def fd_release_def fd_destroy_def
  fd_move_def fd_assign_def Let_def

text \<open>
  The owners hold different descriptors, all of them open; what is open and not owned is in the hands of
  other code. Every operation is a composition of five changes of the three tables.
\<close>

definition owns :: "(nat \<rightharpoonup> int) \<Rightarrow> int set \<Rightarrow> int set \<Rightarrow> bool" where
  "owns own opn raw \<longleftrightarrow>
     (\<forall>i fd. own i = Some fd \<longrightarrow> fd = -1 \<or> 0 \<le> fd \<and> fd \<in> opn \<and> fd \<notin> raw) \<and>
     (\<forall>i j fd. own i = Some fd \<longrightarrow> own j = Some fd \<longrightarrow> 0 \<le> fd \<longrightarrow> i = j) \<and>
     (\<forall>fd\<in>opn. 0 \<le> fd \<and> (fd \<in> raw \<or> (\<exists>i. own i = Some fd))) \<and> raw \<subseteq> opn"

definition fd_inv :: "fd_world \<Rightarrow> bool" where
  "fd_inv w \<longleftrightarrow> fw_bad w = [] \<and> owns (fw_owner w) (fw_open w) (fw_raw w)"

lemma ownsD:
  assumes "owns own opn raw"
  shows "own i = Some fd \<Longrightarrow> fd = -1 \<or> 0 \<le> fd" "own i = Some fd \<Longrightarrow> 0 \<le> fd \<Longrightarrow> fd \<in> opn"
    "own i = Some fd \<Longrightarrow> 0 \<le> fd \<Longrightarrow> fd \<notin> raw"
    "own i = Some fd \<Longrightarrow> own j = Some fd \<Longrightarrow> 0 \<le> fd \<Longrightarrow> i = j"
    "fd \<in> opn \<Longrightarrow> 0 \<le> fd" "fd \<in> opn \<Longrightarrow> fd \<notin> raw \<Longrightarrow> \<exists>i. own i = Some fd" "fd \<in> raw \<Longrightarrow> fd \<in> opn" "-1 \<notin> raw"
proof -
  note o = assms [unfolded owns_def]
  note 1 = conjunct1 [OF o] and 2 = conjunct1 [OF conjunct2 [OF o]]
    and 3 = conjunct1 [OF conjunct2 [OF conjunct2 [OF o]]] and 4 = conjunct2 [OF conjunct2 [OF conjunct2 [OF o]]]
  show "own i = Some fd \<Longrightarrow> fd = -1 \<or> 0 \<le> fd" "own i = Some fd \<Longrightarrow> 0 \<le> fd \<Longrightarrow> fd \<in> opn"
    "own i = Some fd \<Longrightarrow> 0 \<le> fd \<Longrightarrow> fd \<notin> raw" using 1 by fastforce+
  show "own i = Some fd \<Longrightarrow> own j = Some fd \<Longrightarrow> 0 \<le> fd \<Longrightarrow> i = j" using 2 by blast
  show "fd \<in> opn \<Longrightarrow> 0 \<le> fd" "fd \<in> opn \<Longrightarrow> fd \<notin> raw \<Longrightarrow> \<exists>i. own i = Some fd" using 3 by blast+
  show "fd \<in> raw \<Longrightarrow> fd \<in> opn" "-1 \<notin> raw" using 3 4 by fastforce+
qed

lemma ownsI:
  assumes "\<And>i fd. own i = Some fd \<Longrightarrow> fd = -1 \<or> 0 \<le> fd \<and> fd \<in> opn \<and> fd \<notin> raw"
    and "\<And>i j fd. own i = Some fd \<Longrightarrow> own j = Some fd \<Longrightarrow> 0 \<le> fd \<Longrightarrow> i = j"
    and "\<And>fd. fd \<in> opn \<Longrightarrow> 0 \<le> fd" "\<And>fd. fd \<in> opn \<Longrightarrow> fd \<notin> raw \<Longrightarrow> \<exists>i. own i = Some fd" "raw \<subseteq> opn"
  shows "owns own opn raw"
  unfolding owns_def using assms by blast

lemma owns_open:
  assumes o: "owns own opn raw" and fd: "0 \<le> fd" "fd \<notin> opn"
  shows "owns own (insert fd opn) (insert fd raw)"
proof (rule ownsI)
  note d = ownsD [OF o]
  fix k g assume k: "own k = Some g"
  then have "0 \<le> g \<Longrightarrow> g \<noteq> fd" using d(2) fd(2) by blast
  then show "g = -1 \<or> 0 \<le> g \<and> g \<in> insert fd opn \<and> g \<notin> insert fd raw" using d(1,2,3) [OF k] by auto
next
  show "insert fd raw \<subseteq> insert fd opn" using ownsD(7) [OF o] by blast
qed (use ownsD(4,5,6) [OF o] fd(1) in auto)

lemma owns_close:
  assumes o: "owns own opn raw" and fd: "fd \<in> raw"
  shows "owns own (opn - {fd}) (raw - {fd})"
proof (rule ownsI)
  note d = ownsD [OF o]
  fix k g assume k: "own k = Some g"
  then have "0 \<le> g \<Longrightarrow> g \<noteq> fd" using d(3) fd by blast
  then show "g = -1 \<or> 0 \<le> g \<and> g \<in> opn - {fd} \<and> g \<notin> raw - {fd}" using d(1,2,3) [OF k] by auto
next
  show "raw - {fd} \<subseteq> opn - {fd}" using ownsD(7) [OF o] by blast
qed (use ownsD(4,5,6) [OF o] in auto)

lemma still_owned: "own k = Some g \<Longrightarrow> k \<noteq> i \<Longrightarrow> \<exists>k. (own(i := x)) k = Some g"
  by (intro exI [of _ k]) simp

lemma owns_drop:
  assumes o: "owns own opn raw" and i: "own i = Some (-1)"
  shows "owns (own(i := None)) opn raw"
proof (rule ownsI)
  fix g assume g: "g \<in> opn" "g \<notin> raw"
  then obtain k where k: "own k = Some g" using ownsD(6) [OF o] by blast
  then have "k \<noteq> i" using i ownsD(5) [OF o g(1)] by auto
  with k show "\<exists>k. (own(i := None)) k = Some g" by (rule still_owned)
next
  fix k g assume "(own(i := None)) k = Some g"
  then have k: "own k = Some g" by (simp split: if_splits)
  show "g = -1 \<or> 0 \<le> g \<and> g \<in> opn \<and> g \<notin> raw" using ownsD(1,2,3) [OF o k] by blast
next
  fix k l g assume "(own(i := None)) k = Some g" "(own(i := None)) l = Some g" "0 \<le> g"
  then show "k = l" using ownsD(4) [OF o] by (simp split: if_splits)
next
  fix g assume "g \<in> opn" then show "0 \<le> g" by (rule ownsD(5) [OF o])
next
  show "raw \<subseteq> opn" using ownsD(7) [OF o] by blast
qed

lemma owns_take:
  assumes o: "owns own opn raw" and fd: "fd = -1 \<or> fd \<in> raw" and i: "own i = None \<or> own i = Some (-1)"
  shows "owns (own(i \<mapsto> fd)) opn (raw - {fd})"
proof (rule ownsI)
  note d = ownsD [OF o]
  have no: "0 \<le> fd \<Longrightarrow> own k \<noteq> Some fd" for k using fd d(3) by auto
  { fix k g assume k: "(own(i \<mapsto> fd)) k = Some g"
    show "g = -1 \<or> 0 \<le> g \<and> g \<in> opn \<and> g \<notin> raw - {fd}"
    proof (cases "k = i")
      case True
      then show ?thesis using k fd d(5,7) by auto
    next
      case False
      then have "own k = Some g" using k by simp
      then show ?thesis using d(1,2,3) by blast
    qed }
  { fix k l g assume "(own(i \<mapsto> fd)) k = Some g" "(own(i \<mapsto> fd)) l = Some g" "0 \<le> g"
    then show "k = l" using no d(4) by (auto split: if_splits) }
  { fix g assume g: "g \<in> opn" "g \<notin> raw - {fd}"
    show "\<exists>k. (own(i \<mapsto> fd)) k = Some g"
    proof (cases "g = fd")
      case False
      then obtain k where k: "own k = Some g" using g d(6) by blast
      moreover have "k \<noteq> i" using k i d(5) [OF g(1)] by auto
      ultimately show ?thesis by (rule still_owned)
    qed (intro exI [of _ i], simp) }
  { fix g assume "g \<in> opn" then show "0 \<le> g" by (rule d(5)) }
  show "raw - {fd} \<subseteq> opn" using d(7) by blast
qed

lemma owns_give:
  assumes o: "owns own opn raw" and i: "own i = Some f"
  shows "owns (own(i \<mapsto> -1)) opn (if 0 \<le> f then insert f raw else raw)" (is "owns _ _ ?raw")
proof (rule ownsI)
  note d = ownsD [OF o]
  { fix k g assume k: "(own(i \<mapsto> -1)) k = Some g"
    show "g = -1 \<or> 0 \<le> g \<and> g \<in> opn \<and> g \<notin> ?raw"
    proof (cases "k = i")
      case False
      then have k: "own k = Some g" using k by simp
      then have "0 \<le> g \<Longrightarrow> g \<noteq> f" using d(4) i False by blast
      then show ?thesis using d(1,2,3) [OF k] by auto
    qed (use k in simp) }
  { fix k l g assume "(own(i \<mapsto> -1)) k = Some g" "(own(i \<mapsto> -1)) l = Some g" "0 \<le> g"
    then show "k = l" using d(4) by (auto split: if_splits) }
  { fix g assume g: "g \<in> opn" "g \<notin> ?raw"
    then obtain k where k: "own k = Some g" using d(6) by (cases "0 \<le> f") auto
    moreover have "k \<noteq> i" using k i g d(5) [OF g(1)] by auto
    ultimately show "\<exists>k. (own(i \<mapsto> -1)) k = Some g" by (rule still_owned) }
  { fix g assume "g \<in> opn" then show "0 \<le> g" by (rule d(5)) }
  show "?raw \<subseteq> opn" using d(2,7) i by auto
qed

lemma reset_inv:
  assumes inv: "fd_inv w" and i: "fw_owner w i = Some f" and fd: "fd = -1 \<or> fd \<in> fw_raw w"
  shows "fd_inv (fd_reset i fd w)"
proof -
  have o: "owns (fw_owner w) (fw_open w) (fw_raw w)" using inv by (simp add: fd_inv_def)
  note give = owns_give [OF o i]
  show ?thesis
  proof (cases "0 \<le> f")
    case True
    then have f: "f \<in> fw_open w" "f \<notin> fw_raw w" using ownsD(2,3) [OF o i] by blast+
    from give True have "owns ((fw_owner w)(i \<mapsto> -1)) (fw_open w - {f}) (insert f (fw_raw w) - {f})"
      using owns_close [where raw = "insert f (fw_raw w)" and fd = f] by simp
    moreover have "insert f (fw_raw w) - {f} = fw_raw w" using f by blast
    ultimately have "owns ((fw_owner w)(i \<mapsto> -1)) (fw_open w - {f}) (fw_raw w)" by simp
    from owns_take [OF this fd, of i] show ?thesis
      using inv i True f by (simp add: fd_inv_def fd_defs)
  next
    case False
    with give have "owns ((fw_owner w)(i \<mapsto> -1)) (fw_open w) (fw_raw w)" by simp
    from owns_take [OF this fd, of i] show ?thesis using inv i False by (simp add: fd_inv_def fd_defs)
  qed
qed

lemma transfer_inv:
  assumes inv: "fd_inv w" and ij: "i \<noteq> j" and j: "fw_owner w j = Some f"
    and i: "fw_owner w i = None \<or> fw_owner w i = Some (-1)"
  shows "fd_inv (set_fd j (-1) (set_fd i (fd_get j w) w))"
proof -
  have o: "owns (fw_owner w) (fw_open w) (fw_raw w)" using inv by (simp add: fd_inv_def)
  let ?raw = "if 0 \<le> f then insert f (fw_raw w) else fw_raw w"
  have f: "f = -1 \<or> 0 \<le> f \<and> f \<notin> fw_raw w" using ownsD(1,3) [OF o j] by blast
  have "f = -1 \<or> f \<in> ?raw" using f by auto
  moreover have "((fw_owner w)(j \<mapsto> -1)) i = None \<or> ((fw_owner w)(j \<mapsto> -1)) i = Some (-1)" using i ij by simp
  ultimately have "owns ((fw_owner w)(j \<mapsto> -1, i \<mapsto> f)) (fw_open w) (?raw - {f})"
    by (rule owns_take [OF owns_give [OF o j]])
  moreover have "?raw - {f} = fw_raw w - {f} - {-1}" using ownsD(8) [OF o] by simp
  moreover have "(fw_owner w)(j \<mapsto> -1, i \<mapsto> f) = (fw_owner w)(i \<mapsto> f, j \<mapsto> -1)" using ij by (rule fun_upd_twist [symmetric])
  ultimately show ?thesis using inv j by (simp add: fd_inv_def set_fd_def fd_get_def)
qed

lemma drop_object_inv: "fd_inv w \<Longrightarrow> fw_owner w i = Some (-1) \<Longrightarrow> fd_inv (w\<lparr>fw_owner := (fw_owner w)(i := None)\<rparr>)"
  by (simp add: fd_inv_def owns_drop)

lemma opened_inv:
  "fd_inv w \<Longrightarrow> 0 \<le> fd \<Longrightarrow> fd \<notin> fw_open w \<Longrightarrow>
   fd_inv (w\<lparr>fw_open := insert fd (fw_open w), fw_raw := insert fd (fw_raw w)\<rparr>)"
  by (simp add: fd_inv_def owns_open)

lemma closed_inv: "fd_inv w \<Longrightarrow> fd \<in> fw_raw w \<Longrightarrow> fd_inv (k_close fd w)"
  using ownsD(7) [of "fw_owner w" "fw_open w" "fw_raw w" fd] by (simp add: fd_inv_def owns_close k_close_def)

lemma constructed_inv:
  "fd_inv w \<Longrightarrow> fw_owner w i = None \<Longrightarrow> fd = -1 \<or> fd \<in> fw_raw w \<Longrightarrow> fd_inv (fd_construct i fd w)"
  by (simp add: fd_inv_def fd_construct_def set_fd_def owns_take)

lemma released_inv: "fd_inv w \<Longrightarrow> fw_owner w i = Some f \<Longrightarrow> fd_inv (snd (fd_release i w))"
  using owns_give [of "fw_owner w" "fw_open w" "fw_raw w" i f]
  by (simp add: fd_inv_def fd_release_def set_fd_def fd_get_def Let_def)

lemma fd_step_inv: "fd_step w w' \<Longrightarrow> fd_inv w \<Longrightarrow> fd_inv w'"
proof (induction rule: fd_step.induct)
  case (fd_opened fd w)
  then show ?case using opened_inv by blast
next
  case (fd_closed fd w)
  then show ?case using closed_inv by blast
next
  case (fd_constructed w i fd)
  then show ?case using constructed_inv by blast
next
  case (fd_resets w i fd)
  then show ?case using reset_inv by blast
next
  case (fd_releases w i)
  then show ?case using released_inv by blast
next
  case (fd_destroyed w i)
  then obtain f where f: "fw_owner w i = Some f" by blast
  from reset_inv [OF fd_destroyed(2) f] have "fd_inv (fd_reset i (-1) w)" by simp
  moreover have "fw_owner (fd_reset i (-1) w) i = Some (-1)" by (simp add: fd_defs)
  ultimately show ?case unfolding fd_destroy_def Let_def by (rule drop_object_inv)
next
  case (fd_moved w i j)
  then have "i \<noteq> j" by auto
  with fd_moved transfer_inv show ?case unfolding fd_move_def by blast
next
  case (fd_assigned w i j)
  show ?case
  proof (cases "i = j")
    case False
    let ?w = "fd_reset i (-1) w"
    obtain f g where f: "fw_owner w i = Some f" "fw_owner w j = Some g" using fd_assigned by blast
    from reset_inv [OF fd_assigned(3) f(1)] have "fd_inv ?w" by simp
    moreover have "fw_owner ?w i = Some (-1)" "fw_owner ?w j = Some g" using f False by (simp_all add: fd_defs)
    ultimately show ?thesis using transfer_inv [of ?w i j g] False by (simp add: fd_assign_def Let_def)
  qed (use fd_assigned in \<open>simp add: fd_assign_def\<close>)
qed

lemma fd_reach_inv: "fd_reach w \<Longrightarrow> fd_inv w"
proof (induction rule: fd_reach.induct)
  case fd_start
  show ?case by (simp add: fd_inv_def owns_def)
next
  case (fd_next w w')
  then show ?case using fd_step_inv by blast
qed

section \<open>What the operations promise\<close>

definition held :: "fd_world \<Rightarrow> int set" where
  "held w = {fd. 0 \<le> fd \<and> fd \<in> ran (fw_owner w)}"

lemma open_split: "fd_inv w \<Longrightarrow> fw_open w = fw_raw w \<union> held w \<and> fw_raw w \<inter> held w = {}"
proof -
  assume "fd_inv w"
  then have o: "owns (fw_owner w) (fw_open w) (fw_raw w)" by (simp add: fd_inv_def)
  note d = ownsD [OF o]
  have "fw_open w \<subseteq> fw_raw w \<union> held w" using d(5,6) unfolding held_def ran_def by blast
  moreover have "fw_raw w \<union> held w \<subseteq> fw_open w" using d(2,7) unfolding held_def ran_def by blast
  moreover have "fw_raw w \<inter> held w = {}" using d(3) unfolding held_def ran_def by blast
  ultimately show ?thesis by blast
qed

lemma destroy_closes:
  assumes "fd_inv w" "fw_owner w i = Some f"
  shows "fw_open (fd_destroy i w) = fw_open w - (if 0 \<le> f then {f} else {})"
  using assms ownsD(2) [of "fw_owner w" "fw_open w" "fw_raw w" i f]
  by (auto simp: fd_defs fd_inv_def)

text \<open>
  C19:
  However a program constructs, resets, releases, moves and destroys owners (also by a move of an object
  to itself), no descriptor is closed twice and none has two owners. What is open is exactly what an
  owner holds or what is still in the hands of other code, so that once no object holds anything nothing
  leaks; and the end of an object closes the descriptor it holds, and no other.
\<close>

theorem descriptors_closed_once:
  assumes "fd_reach w"
  shows "fw_bad w = [] \<and>
    (\<forall>i j. fw_owner w i = fw_owner w j \<and> fd_bool i w \<longrightarrow> i = j) \<and>
    fw_open w = fw_raw w \<union> held w \<and> fw_raw w \<inter> held w = {} \<and>
    (\<forall>i. fw_owner w i \<noteq> None \<longrightarrow>
       fw_open (fd_destroy i w) = fw_open w - (if fd_bool i w then {fd_get i w} else {})) \<and>
    fd_assign i i w = w"
proof -
  have inv: "fd_inv w" using assms by (rule fd_reach_inv)
  have "i = j" if eq: "fw_owner w i = fw_owner w j" and b: "fd_bool i w" for i j
  proof -
    obtain f where f: "fw_owner w i = Some f" "0 \<le> f"
      using b by (cases "fw_owner w i") (simp_all add: fd_bool_def fd_get_def)
    moreover have "fw_owner w j = Some f" using eq f(1) by simp
    moreover have "owns (fw_owner w) (fw_open w) (fw_raw w)" using inv by (simp add: fd_inv_def)
    ultimately show ?thesis using ownsD(4) by blast
  qed
  moreover have "fw_open (fd_destroy i w) = fw_open w - (if fd_bool i w then {fd_get i w} else {})"
    if "fw_owner w i \<noteq> None" for i
    using destroy_closes [OF inv] that by (auto simp: fd_bool_def fd_get_def)
  moreover have "fw_bad w = []" "fd_assign i i w = w" using inv by (simp_all add: fd_inv_def fd_assign_def)
  ultimately show ?thesis using open_split [OF inv] by blast
qed

text \<open>Descriptor 5 goes from other code to object 0, then to object 1 and back; both objects end.\<close>

definition fd_run :: "fd_world list" where
  "fd_run =
     (let w0 = \<lparr>fw_owner = Map.empty, fw_open = {}, fw_raw = {}, fw_bad = []\<rparr>;
          w1 = w0\<lparr>fw_open := insert 5 (fw_open w0), fw_raw := insert 5 (fw_raw w0)\<rparr>;
          w2 = fd_construct 0 5 w1; w3 = fd_move 1 0 w2; w4 = fd_assign 0 1 w3; w5 = fd_destroy 1 w4
      in [w0, w1, w2, w3, w4, w5])"

lemma fd_run_reach: "fd_reach (fd_run ! 5)"
proof -
  note fd_run_def [simp] Let_def [simp]
  have 0: "fd_reach (fd_run ! 0)" using fd_start by simp
  have 1: "fd_reach (fd_run ! 1)" using fd_next [OF 0 fd_opened [of 5]] by simp
  have 2: "fd_reach (fd_run ! 2)"
    using fd_next [OF 1 fd_constructed [of _ 0 5]] by (simp add: eval_nat_numeral)
  have 3: "fd_reach (fd_run ! 3)"
    using fd_next [OF 2 fd_moved [of _ 1 0]] by (simp add: eval_nat_numeral fd_defs)
  have 4: "fd_reach (fd_run ! 4)"
    using fd_next [OF 3 fd_assigned [of _ 0 1]] by (simp add: eval_nat_numeral fd_defs)
  show ?thesis using fd_next [OF 4 fd_destroyed [of _ 1]] by (simp add: eval_nat_numeral fd_defs)
qed

lemma descriptors_closed_once_witness:
  "fw_bad (fd_run ! 5) = [] \<and> fw_open (fd_run ! 5) = {5} \<and>
   fw_open (fd_destroy 0 (fd_run ! 5)) = fw_open (fd_run ! 5) - {5}"
proof -
  have five: "fw_owner (fd_run ! 5) 0 = Some 5" "fd_bool 0 (fd_run ! 5)" "fw_open (fd_run ! 5) = {5}"
    by (simp_all add: fd_run_def fd_defs fd_bool_def eval_nat_numeral)
  note c = descriptors_closed_once [OF fd_run_reach]
  have "fw_bad (fd_run ! 5) = []" using c by (rule conjunct1)
  moreover have "fw_owner (fd_run ! 5) 0 \<noteq> None" using five by simp
  then have "fw_open (fd_destroy 0 (fd_run ! 5)) =
      fw_open (fd_run ! 5) - (if fd_bool 0 (fd_run ! 5) then {fd_get 0 (fd_run ! 5)} else {})" using c by blast
  ultimately show ?thesis using five by (simp only: fd_get_def option.case if_True)
qed

text \<open>
  \<open>redirect_stdio\<close> leaves every descriptor above the three standard ones as it was: the readiness pipe
  of the daemon and its other files survive, and the two files that it opens are not left open under
  another number. When both files can be opened, and a descriptor above 2 is free, the standard input is
  the null device and both outputs are the log afterwards, also when the daemon was started with some of
  the three closed.
\<close>

lemma redirect_stdio_effect:
  "(\<forall>n. n \<notin> {0, 1, 2} \<longrightarrow> redirect_stdio rlim can log_path t n = t n) \<and>
   (can ''/dev/null'' \<and> can log_path \<and> k < rlim \<and> 2 < k \<and> t (int k) = None \<longrightarrow>
    redirect_stdio rlim can log_path t 0 = Some (File ''/dev/null'') \<and>
    redirect_stdio rlim can log_path t 1 = Some (File log_path) \<and> redirect_stdio rlim can log_path t 2 = Some (File log_path))"
  using redirect_standard [of can log_path k rlim t] by (simp add: redirect_others)

lemma redirect_stdio_effect_witness:
  "let t = redirect_stdio 16 (\<lambda>_. True) ''/log'' [0 \<mapsto> File ''tty'', 4 \<mapsto> Pipe_write]
   in t 0 = Some (File ''/dev/null'') \<and> t 1 = Some (File ''/log'') \<and> t 2 = Some (File ''/log'') \<and> t 4 = Some Pipe_write"
proof -
  let ?t = "[0 \<mapsto> File ''tty'', 4 \<mapsto> Pipe_write] :: fd_table"
  note e = redirect_stdio_effect [of 16 "\<lambda>_. True" "''/log''" ?t 5]
  have "redirect_stdio 16 (\<lambda>_. True) ''/log'' ?t 4 = ?t 4" using spec [OF conjunct1 [OF e], of 4] by auto
  moreover have "5 < (16::nat) \<and> 2 < (5::nat) \<and> ?t (int 5) = None" by simp
  then have "redirect_stdio 16 (\<lambda>_. True) ''/log'' ?t 0 = Some (File ''/dev/null'') \<and>
    redirect_stdio 16 (\<lambda>_. True) ''/log'' ?t 1 = Some (File ''/log'') \<and>
    redirect_stdio 16 (\<lambda>_. True) ''/log'' ?t 2 = Some (File ''/log'')"
    using conjunct2 [OF e] by blast
  moreover have "?t 4 = Some Pipe_write" by simp
  ultimately show ?thesis unfolding Let_def by (simp only: simp_thms)
qed

end
