(* ===== verification/Daemonize.thy ===== *)
theory Daemonize
  imports Startup Descriptors
begin

text \<open>
  Going into the background, and the files left when the daemon stops (\<open>daemonize_and_run\<close> and
  \<open>graceful_stop\<close> in \<open>src/proxchunkd.cpp\<close>): the two forks and the pipe through which the parent learns how
  the start went, over the descriptors of the process and the start of the server.
\<close>

section \<open>The two forks\<close>

text \<open>Which of the calls succeed.\<close>

record fork_env =
  fk_pipe :: bool
  fk_first :: bool
  fk_setsid :: bool
  fk_second :: bool

definition k_pipe :: "nat \<Rightarrow> fd_table \<Rightarrow> (int \<times> int \<times> fd_table) option" where
  "k_pipe rlim t =
     (let (r, t1) = k_open rlim True Pipe_read t; (w, t2) = k_open rlim True Pipe_write t1
      in if r \<ge> 0 \<and> w \<ge> 0 then Some (r, w, t2) else None)"

text \<open>
  The exit code of the parent, whether a server runs in the end, and the state it leaves. The server
  writes its byte to the number of the pipe, which is the pipe unless \<open>redirect_stdio\<close> has put another
  file there; without it the parent reads the end of the pipe.
\<close>

definition daemonize_and_run ::
  "fork_env \<Rightarrow> nat \<Rightarrow> (string \<Rightarrow> bool) \<Rightarrow> string \<Rightarrow> boot_env \<Rightarrow> fd_table \<Rightarrow> os_state \<Rightarrow> int \<times> bool \<times> os_state" where
  "daemonize_and_run fk rlim can log_path env t s =
     (case (if fk_pipe fk then k_pipe rlim t else None) of
        None \<Rightarrow> (1, False, s)
      | Some (pread, pwrite, t) \<Rightarrow>
          if \<not> fk_first fk then (1, False, s)
          else if \<not> fk_setsid fk \<or> \<not> fk_second fk then (parent_exit [], False, s)
          else
            (let t = t(pread := None);
                 t = redirect_stdio rlim can log_path t
             in case server_boot env s of (byte, res, s) \<Rightarrow>
                  (parent_exit (if t pwrite = Some Pipe_write then [byte] else []), res = Served, s)))"

section \<open>The files at the end\<close>

text \<open>
  The inodes at the two paths. The socket is removed whatever is there, the pid file only when it is the
  one the daemon holds open.
\<close>

record stop_files =
  sf_sock :: "nat option"
  sf_pid :: "nat option"

definition stop_unlinks :: "nat option \<Rightarrow> stop_files \<Rightarrow> stop_files" where
  "stop_unlinks pid_fd f =
     (let f = f\<lparr>sf_sock := None\<rparr>
      in case pid_fd of
           None \<Rightarrow> f
         | Some ino \<Rightarrow> (let ours = (sf_pid f = Some ino) in if ours then f\<lparr>sf_pid := None\<rparr> else f))"

lemma stop_keeps_replacement:
  "sf_pid (stop_unlinks pid_fd f) = (if pid_fd = sf_pid f then None else sf_pid f)"
  by (auto simp: stop_unlinks_def Let_def split: option.split)

section \<open>What the parent reports\<close>

lemma k_open_lowest:
  assumes "k_open rlim can file t = (fd, t')" "0 \<le> fd" "0 \<le> n" "n < fd"
  shows "t n \<noteq> None"
proof -
  obtain m where m: "List.find (\<lambda>n. t (int n) = None) [0..<rlim] = Some m" "fd = int m"
    using assms(1,2) by (auto simp: k_open_def split: option.splits if_splits)
  then have first: "i < m \<Longrightarrow> t (int i) \<noteq> None" for i by (auto simp: find_Some_iff)
  have "nat n < m" "int (nat n) = n" using assms(3,4) m(2) by simp_all
  then show ?thesis using first [of "nat n"] by simp
qed

lemma k_pipe_ends:
  assumes "k_pipe rlim t = Some (r, w, t2)"
  shows "0 \<le> r" "r < w" "t r = None" "t w = None" "t2 w = Some Pipe_write"
    "0 \<le> n \<Longrightarrow> n < w \<Longrightarrow> n \<noteq> r \<Longrightarrow> t n \<noteq> None"
proof -
  obtain t1 where o: "k_open rlim True Pipe_read t = (r, t1)" "k_open rlim True Pipe_write t1 = (w, t2)" "0 \<le> r" "0 \<le> w"
    using assms by (auto simp: k_pipe_def Let_def split: prod.splits if_splits)
  from o(1,3) have r: "t r = None" "t1 = t(r \<mapsto> Pipe_read)" by (auto elim: k_openE)
  from o(2,4) have w: "t1 w = None" "t2 = t1(w \<mapsto> Pipe_write)" by (auto elim: k_openE)
  show "0 \<le> r" "t r = None" "t w = None" "t2 w = Some Pipe_write" using o r w by (auto split: if_splits)
  have "w \<noteq> r" using r w by auto
  moreover have "\<not> w < r" using k_open_lowest [OF o(1,3,4)] w r(2) by (auto split: if_splits)
  ultimately show "r < w" by simp
  show "t n \<noteq> None" if "0 \<le> n" "n < w" "n \<noteq> r"
    using k_open_lowest [OF o(2,4) that(1,2)] that(3) r(2) by simp
qed

lemma pipe_above_standard:
  assumes "k_pipe rlim t = Some (r, w, t2)" "a \<in> {0, 1, 2}" "\<forall>n\<in>{0, 1, 2} - {a}. t n \<noteq> None"
  shows "w \<notin> {0, 1, 2}"
proof
  assume w: "w \<in> {0, 1, 2}"
  note e = k_pipe_ends [OF assms(1)]
  from w e(4) assms(3) have wa: "w = a" by blast
  have "r \<in> {0, 1, 2}" using e(1,2) w by auto
  with e(3) assms(3) have "r = a" by blast
  with wa e(2) show False by simp
qed

lemma daemonize_delivers:
  assumes "fk_pipe fk" "fk_first fk" "fk_setsid fk" "fk_second fk" "k_pipe rlim t \<noteq> None"
    and "a \<in> {0, 1, 2}" "\<forall>n\<in>{0, 1, 2} - {a}. t n \<noteq> None"
  shows "daemonize_and_run fk rlim can log_path env t s =
    (case server_boot env s of (byte, res, s) \<Rightarrow> (parent_exit [byte], res = Served, s))"
proof -
  obtain r w t2 where p: "k_pipe rlim t = Some (r, w, t2)" using assms(5) by auto
  note e = k_pipe_ends [OF p]
  have w: "w \<notin> {0, 1, 2}" by (rule pipe_above_standard [OF p assms(6,7)])
  have "(t2(r := None)) w = Some Pipe_write" using e(2,5) by simp
  then have "redirect_stdio rlim can log_path (t2(r := None)) w = Some Pipe_write"
    using redirect_others [OF w] by simp
  then show ?thesis using assms(1-4) p by (simp add: daemonize_and_run_def split: prod.split)
qed

definition all_forks :: fork_env where
  "all_forks = \<lparr>fk_pipe = True, fk_first = True, fk_setsid = True, fk_second = True\<rparr>"



end
