(* ===== verification/Progress.thy ===== *)
theory Progress
  imports Cpp_Number
begin

text \<open>
  What the downloader tracks of a transfer that is running, and what it draws (\<open>src/proxchunk.cpp\<close>; the
  bar of the daemon in \<open>src/proxchunkd.cpp\<close>): the address field, the callback that aborts a stalled
  transfer, the time limits of a transfer, and the numbers behind the bars. The terminal itself is
  not modelled.
\<close>

section \<open>The address field\<close>

text \<open>\<open>format_ipv4_field\<close>: the 15 characters before the terminating zero.\<close>

definition k_ipv4_field_width :: nat where
  "k_ipv4_field_width = 15"

definition format_ipv4_field :: "string \<Rightarrow> string" where
  "format_ipv4_field addr =
     (let addr = (case find_str ''://'' addr of Some i \<Rightarrow> drop (i + 3) addr | None \<Rightarrow> addr);
          addr = (case find_char CHR ''/'' addr of Some i \<Rightarrow> take i addr | None \<Rightarrow> addr);
          addr = (case find_char CHR '':'' addr of Some i \<Rightarrow> take i addr | None \<Rightarrow> addr);
          shown = take k_ipv4_field_width addr
      in shown @ replicate (k_ipv4_field_width - length shown) sp)"

section \<open>One transfer\<close>

text \<open>\<open>struct SlotProgress\<close>; its members are atomic, and only its own worker writes them.\<close>

record slot =
  sl_chunk_id :: int
  sl_now :: int
  sl_want :: int
  sl_active :: bool
  sl_ip :: string
  sl_last_byte :: int
  sl_last_move_ms :: int
  sl_resume_base :: int

definition new_slot :: slot where
  "new_slot =
     \<lparr>sl_chunk_id = -1, sl_now = 0, sl_want = 0, sl_active = False, sl_ip = format_ipv4_field [],
      sl_last_byte = 0, sl_last_move_ms = 0, sl_resume_base = 0\<rparr>"

definition set_ip :: "string \<Rightarrow> slot \<Rightarrow> slot" where
  "set_ip addr s = s\<lparr>sl_ip := format_ipv4_field addr\<rparr>"

text \<open>The worker takes a chunk of \<open>want\<close> bytes; \<open>download_chunk\<close> starts the transfer with \<open>have\<close> of them.\<close>

definition slot_take :: "int \<Rightarrow> int \<Rightarrow> slot \<Rightarrow> slot" where
  "slot_take chunk_id want s = s\<lparr>sl_chunk_id := chunk_id, sl_want := want, sl_now := 0, sl_active := True\<rparr>"

definition slot_start :: "int \<Rightarrow> int \<Rightarrow> slot \<Rightarrow> slot" where
  "slot_start have now_ms s =
     s\<lparr>sl_resume_base := have, sl_now := have, sl_last_byte := 0, sl_last_move_ms := now_ms\<rparr>"

text \<open>
  \<open>chunk_xfer\<close>, called by libcurl with the bytes of this transfer so far at the time \<open>now_ms\<close>: 1 aborts
  it. \<open>None\<close> is signed overflow.
\<close>

definition chunk_xfer :: "int \<Rightarrow> int \<Rightarrow> slot \<Rightarrow> (int \<times> slot) option" where
  "chunk_xfer now_ms dlnow s =
     do {
       cur \<leftarrow> i64 (sl_resume_base s + (if dlnow < 0 then 0 else dlnow));
       let want = sl_want s;
       let s = s\<lparr>sl_now := (if want > 0 \<and> cur > want then want else cur)\<rparr>;
       if want > 0 \<and> cur \<ge> want then Some (0, s)
       else if dlnow > sl_last_byte s
       then Some (0, s\<lparr>sl_last_byte := dlnow, sl_last_move_ms := now_ms\<rparr>)
       else do {
         idle \<leftarrow> i64 (now_ms - sl_last_move_ms s);
         Some (if sl_last_move_ms s > 0 \<and> idle > 8000 then 1 else 0, s)
       }
     }"

text \<open>The callbacks of a whole transfer: whether it is aborted, and the slot at its end.\<close>

fun chunk_xfers :: "(int \<times> int) list \<Rightarrow> slot \<Rightarrow> (bool \<times> slot) option" where
  "chunk_xfers [] s = Some (False, s)"
| "chunk_xfers ((now_ms, dlnow) # calls) s =
     (case chunk_xfer now_ms dlnow s of
        None \<Rightarrow> None
      | Some (rc, s') \<Rightarrow> if rc \<noteq> 0 then Some (True, s') else chunk_xfers calls s')"

text \<open>\<open>is_socks_proxy\<close>, and the seconds \<open>download_chunk\<close> allows for the transfer and for connecting.\<close>

definition is_socks_proxy :: "string \<Rightarrow> bool" where
  "is_socks_proxy proxy \<longleftrightarrow> starts_with proxy ''socks5://'' \<or> starts_with proxy ''socks5h://'' \<or>
     starts_with proxy ''socks4://'' \<or> starts_with proxy ''socks4a://''"

definition chunk_timeouts :: "string \<Rightarrow> int \<Rightarrow> int \<times> int" where
  "chunk_timeouts proxy want =
     (let timeout_s = max 45 (want div (32 * 1024) + 20)
      in if is_socks_proxy proxy then (max timeout_s 25, 15) else (timeout_s, 8))"

section \<open>The bars\<close>

text \<open>\<open>draw_byte_bar\<close>: the progress and the total it hands to the bar.\<close>

definition draw_byte_bar :: "int \<Rightarrow> int \<Rightarrow> int \<times> int" where
  "draw_byte_bar now want =
     (let total_bytes = (if want > 0 then want else 1);
          progress = (if now < 0 then 0 else now)
      in (if progress > total_bytes then total_bytes else progress, total_bytes))"

text \<open>\<open>live_bytes\<close> of \<open>run_download\<close>.\<close>

definition live_bytes :: "int \<Rightarrow> slot list \<Rightarrow> int" where
  "live_bytes bytes_done slots =
     fold (\<lambda>s n. if sl_active s then n + sl_now s else n) slots bytes_done"

text \<open>The label of the bar of a slot.\<close>

definition slot_label :: "bool \<Rightarrow> slot \<Rightarrow> string" where
  "slot_label show_proxies s =
     take 63 (if show_proxies
        then sl_ip s @ (if sl_chunk_id s \<ge> 0 then '' chunk '' @ show_int (sl_chunk_id s) else '' idle'')
        else if sl_chunk_id s \<ge> 0 then ''chunk '' @ show_int (sl_chunk_id s) else ''idle'')"

text \<open>
  \<open>BarLayout::begin\<close> of the downloader and of the daemon: the row of the first bar. The arguments are the
  rows of the terminal and the row of the cursor, when they are known.
\<close>

definition bars_row :: "int option \<Rightarrow> int \<Rightarrow> int" where
  "bars_row rows n_lines =
     (let term_rows = (case rows of Some r \<Rightarrow> if r > 0 then r else 24 | None \<Rightarrow> 24);
          row = term_rows - n_lines + 1
      in if row < 1 then 1 else row)"

definition daemon_bar_row :: "int option \<Rightarrow> int option \<Rightarrow> int \<Rightarrow> int" where
  "daemon_bar_row rows cursor n_lines =
     (let term_rows = (case rows of Some r \<Rightarrow> if r > 0 then r else 24 | None \<Rightarrow> 24);
          row = (case cursor of Some r \<Rightarrow> if r > 0 then r else 0 | None \<Rightarrow> 0);
          row = (if row \<le> 0 then term_rows - n_lines + 1 else row);
          row = (if row + n_lines - 1 > term_rows then term_rows - n_lines + 1 else row)
      in if row < 1 then 1 else row)"

section \<open>Properties\<close>

lemma format_ipv4_field_width: "length (format_ipv4_field addr) = 15"
  by (simp add: format_ipv4_field_def Let_def k_ipv4_field_width_def)

text \<open>
  What the callback keeps: the bytes shown stay between those there at the start and those wanted, and
  the time of the last new byte is not in the future.
\<close>

definition slot_ok :: "int \<Rightarrow> slot \<Rightarrow> bool" where
  "slot_ok now_ms s \<longleftrightarrow> 0 \<le> sl_resume_base s \<and> sl_resume_base s < sl_want s \<and> in_i64 (sl_want s) \<and>
     sl_resume_base s \<le> sl_now s \<and> sl_now s \<le> sl_want s \<and> 0 \<le> sl_last_byte s \<and>
     0 < sl_last_move_ms s \<and> sl_last_move_ms s \<le> now_ms"

lemma chunk_xfer_cases:
  assumes "slot_ok t s" "t \<le> now_ms" "in_i64 now_ms" "in_i64 (sl_resume_base s + max 0 dlnow)"
  shows "chunk_xfer now_ms dlnow s =
    (let cur = sl_resume_base s + max 0 dlnow
     in if cur \<ge> sl_want s then Some (0, s\<lparr>sl_now := sl_want s\<rparr>)
        else if dlnow > sl_last_byte s
        then Some (0, s\<lparr>sl_now := cur, sl_last_byte := dlnow, sl_last_move_ms := now_ms\<rparr>)
        else Some (if now_ms - sl_last_move_ms s > 8000 then 1 else 0, s\<lparr>sl_now := cur\<rparr>))"
proof -
  have m: "(if dlnow < 0 then 0 else dlnow) = max 0 dlnow" by simp
  have "in_i64 (now_ms - sl_last_move_ms s)" "sl_want s > 0" "sl_last_move_ms s > 0"
    using assms(1-3) by (auto simp: slot_ok_def in_i64_def)
  then show ?thesis
    using assms(4) by (simp add: chunk_xfer_def m Let_def)
qed

text \<open>
  A run of callbacks as libcurl makes them: time goes on and the byte count does not fall. It never
  stalls if no callback without new bytes comes more than 8 s after the last new byte.
\<close>

fun calls_ok :: "int \<Rightarrow> int \<Rightarrow> int \<Rightarrow> (int \<times> int) list \<Rightarrow> bool" where
  "calls_ok base t d [] = True"
| "calls_ok base t d ((now_ms, dlnow) # calls) =
     (t \<le> now_ms \<and> d \<le> dlnow \<and> in_i64 now_ms \<and> in_i64 (base + max 0 dlnow) \<and> calls_ok base now_ms dlnow calls)"

fun never_stalls :: "int \<Rightarrow> int \<Rightarrow> (int \<times> int) list \<Rightarrow> bool" where
  "never_stalls last_byte last_move [] = True"
| "never_stalls last_byte last_move ((now_ms, dlnow) # calls) =
     (if dlnow > last_byte then never_stalls dlnow now_ms calls
      else now_ms - last_move \<le> 8000 \<and> never_stalls last_byte last_move calls)"

lemma chunk_xfers_complete:
  assumes "calls_ok (sl_resume_base s) t d calls" "sl_want s > 0" "sl_resume_base s + max 0 d \<ge> sl_want s"
    and "sl_now s \<le> sl_want s" "sl_resume_base s \<le> sl_now s" "sl_resume_base s \<le> sl_want s"
  shows "\<exists>s'. chunk_xfers calls s = Some (False, s') \<and> sl_resume_base s \<le> sl_now s' \<and> sl_now s' \<le> sl_want s"
  using assms
proof (induction calls arbitrary: s t d)
  case (Cons call calls)
  obtain n e where c: "call = (n, e)" by fastforce
  have m: "(if e < 0 then 0 else e) = max 0 e" by simp
  have "sl_want s \<le> sl_resume_base s + max 0 e" using Cons.prems(1,3) c by (auto simp: max_def split: if_splits)
  then have "chunk_xfer n e s = Some (0, s\<lparr>sl_now := if sl_resume_base s + max 0 e > sl_want s then sl_want s
      else sl_resume_base s + max 0 e\<rparr>)"
    using Cons.prems c by (simp add: chunk_xfer_def m Let_def)
  moreover let ?s = "s\<lparr>sl_now := if sl_resume_base s + max 0 e > sl_want s then sl_want s
      else sl_resume_base s + max 0 e\<rparr>"
  have "\<exists>s'. chunk_xfers calls ?s = Some (False, s') \<and> sl_resume_base ?s \<le> sl_now s' \<and> sl_now s' \<le> sl_want ?s"
    by (rule Cons.IH [of _ n e]) (use Cons.prems c \<open>sl_want s \<le> sl_resume_base s + max 0 e\<close> in auto)
  ultimately show ?case by (simp add: c)
qed auto

lemma chunk_xfers_steady:
  assumes "slot_ok t s" "calls_ok (sl_resume_base s) t d calls" "d \<le> sl_last_byte s"
    and "never_stalls (sl_last_byte s) (sl_last_move_ms s) calls"
  shows "\<exists>s'. chunk_xfers calls s = Some (False, s') \<and> sl_resume_base s \<le> sl_now s' \<and> sl_now s' \<le> sl_want s"
  using assms
proof (induction calls arbitrary: s t d)
  case Nil
  then show ?case by (simp add: slot_ok_def)
next
  case (Cons call calls)
  obtain n e where c: "call = (n, e)" by fastforce
  let ?cur = "sl_resume_base s + max 0 e"
  have p: "t \<le> n" "d \<le> e" "in_i64 n" "in_i64 ?cur" "calls_ok (sl_resume_base s) n e calls"
    using Cons.prems(2) c by simp_all
  note x = chunk_xfer_cases [OF Cons.prems(1) p(1,3,4)]
  consider "?cur \<ge> sl_want s" | "?cur < sl_want s" "e > sl_last_byte s" | "?cur < sl_want s" "e \<le> sl_last_byte s"
    by linarith
  then show ?case
  proof cases
    case 1
    let ?s = "s\<lparr>sl_now := sl_want s\<rparr>"
    have "\<exists>s'. chunk_xfers calls ?s = Some (False, s') \<and> sl_resume_base ?s \<le> sl_now s' \<and> sl_now s' \<le> sl_want ?s"
      by (rule chunk_xfers_complete [of _ n e]) (use Cons.prems(1) p 1 in \<open>auto simp: slot_ok_def\<close>)
    with 1 show ?thesis by (simp add: c x Let_def)
  next
    case 2
    let ?s = "s\<lparr>sl_now := ?cur, sl_last_byte := e, sl_last_move_ms := n\<rparr>"
    have "\<exists>s'. chunk_xfers calls ?s = Some (False, s') \<and> sl_resume_base ?s \<le> sl_now s' \<and> sl_now s' \<le> sl_want ?s"
      by (rule Cons.IH [of n _ e]) (use Cons.prems p 2 c in \<open>auto simp: slot_ok_def\<close>)
    with 2 show ?thesis by (simp add: c x Let_def)
  next
    case 3
    let ?s = "s\<lparr>sl_now := ?cur\<rparr>"
    have "\<exists>s'. chunk_xfers calls ?s = Some (False, s') \<and> sl_resume_base ?s \<le> sl_now s' \<and> sl_now s' \<le> sl_want ?s"
      by (rule Cons.IH [of n _ e]) (use Cons.prems p 3 c in \<open>auto simp: slot_ok_def\<close>)
    moreover have "n - sl_last_move_ms s \<le> 8000" using Cons.prems(4) 3 c by simp
    ultimately show ?thesis using 3 by (simp add: c x Let_def)
  qed
qed



end
