(* ===== verification/Curl_Setup.thy ===== *)
theory Curl_Setup
  imports Progress Plan "HOL-Library.Word"
begin

text \<open>
  What the program asks of libcurl: the options of every kind of request that it makes, as a map from
  options to the values set last, and the callbacks that receive the data
  (\<open>include/proxchunk/curl_util.hpp\<close>, \<open>src/proxchunk.cpp\<close>, \<open>src/proxy_engine.cpp\<close>).
\<close>

section \<open>An easy handle\<close>

datatype curl_opt =
    CURLOPT_URL | CURLOPT_PROXY | CURLOPT_HTTPPROXYTUNNEL | CURLOPT_FOLLOWLOCATION | CURLOPT_NOSIGNAL
  | CURLOPT_USERAGENT | CURLOPT_RANGE | CURLOPT_TIMEOUT | CURLOPT_CONNECTTIMEOUT | CURLOPT_LOW_SPEED_LIMIT
  | CURLOPT_LOW_SPEED_TIME | CURLOPT_HTTP_VERSION | CURLOPT_FORBID_REUSE | CURLOPT_FRESH_CONNECT
  | CURLOPT_PRIVATE | CURLOPT_WRITEFUNCTION | CURLOPT_WRITEDATA | CURLOPT_HEADERFUNCTION | CURLOPT_HEADERDATA
  | CURLOPT_NOPROGRESS | CURLOPT_XFERINFOFUNCTION | CURLOPT_XFERINFODATA | CURLOPT_TCP_NODELAY
  | CURLOPT_TCP_KEEPALIVE | CURLOPT_TCP_KEEPIDLE | CURLOPT_TCP_KEEPINTVL | CURLOPT_TCP_FASTOPEN
  | CURLOPT_SOCKOPTFUNCTION

text \<open>Strings, numbers, and pointers to the functions and variables of the program, by name.\<close>

datatype opt_value = Text string | Num int | Ref string

type_synonym easy = "curl_opt \<rightharpoonup> opt_value"

definition k_user_agent :: string where
  "k_user_agent = ''proxchunk/1.1''"

text \<open>
  \<open>apply_fast_tcp\<close>. Three options are set only where the headers of libcurl define a macro of that name:
  \<open>defd\<close> says which do. \<open>apply_curl_proxy\<close>.
\<close>

definition apply_fast_tcp :: "(curl_opt \<Rightarrow> bool) \<Rightarrow> easy \<Rightarrow> easy" where
  "apply_fast_tcp defd c =
     (let c = c(CURLOPT_TCP_NODELAY \<mapsto> Num 1);
          c = c(CURLOPT_TCP_KEEPALIVE \<mapsto> Num 1);
          c = (if defd CURLOPT_TCP_KEEPIDLE then c(CURLOPT_TCP_KEEPIDLE \<mapsto> Num 30) else c);
          c = (if defd CURLOPT_TCP_KEEPINTVL then c(CURLOPT_TCP_KEEPINTVL \<mapsto> Num 10) else c);
          c = (if defd CURLOPT_TCP_FASTOPEN then c(CURLOPT_TCP_FASTOPEN \<mapsto> Num 1) else c)
      in c(CURLOPT_SOCKOPTFUNCTION \<mapsto> Ref ''fast_tcp_sockopt''))"

definition apply_curl_proxy :: "string \<Rightarrow> bool \<Rightarrow> easy \<Rightarrow> easy" where
  "apply_curl_proxy proxy target_https c =
     (if proxy = '''' then c
      else let c = c(CURLOPT_PROXY \<mapsto> Text proxy)
           in if target_https \<and> \<not> is_socks_proxy proxy then c(CURLOPT_HTTPPROXYTUNNEL \<mapsto> Num 1) else c)"

section \<open>The requests\<close>

definition is_https :: "string \<Rightarrow> bool" where
  "is_https url \<longleftrightarrow> starts_with url ''https://''"

text \<open>The size probe, with \<open>probe_curl_common\<close>, and the metadata of archive.org.\<close>

definition probe_curl_common :: "(curl_opt \<Rightarrow> bool) \<Rightarrow> string \<Rightarrow> string \<Rightarrow> easy \<Rightarrow> easy" where
  "probe_curl_common defd url proxy c =
     (let c = c(CURLOPT_URL \<mapsto> Text url, CURLOPT_FOLLOWLOCATION \<mapsto> Num 1, CURLOPT_NOSIGNAL \<mapsto> Num 1,
                CURLOPT_USERAGENT \<mapsto> Text k_user_agent);
          c = apply_curl_proxy proxy (is_https url) c;
          c = apply_fast_tcp defd c
      in c(CURLOPT_CONNECTTIMEOUT \<mapsto> Num 10))"

definition probe_handle :: "(curl_opt \<Rightarrow> bool) \<Rightarrow> string \<Rightarrow> string \<Rightarrow> easy" where
  "probe_handle defd url proxy =
     (probe_curl_common defd url proxy Map.empty)
       (CURLOPT_RANGE \<mapsto> Text ''0-8191'', CURLOPT_HEADERFUNCTION \<mapsto> Ref ''write_to_string'',
        CURLOPT_HEADERDATA \<mapsto> Ref ''headers'', CURLOPT_WRITEFUNCTION \<mapsto> Ref ''write_null'',
        CURLOPT_CONNECTTIMEOUT \<mapsto> Num 10, CURLOPT_TIMEOUT \<mapsto> Num 20)"

definition metadata_handle :: "(curl_opt \<Rightarrow> bool) \<Rightarrow> string \<Rightarrow> easy" where
  "metadata_handle defd meta_url =
     (let c = [CURLOPT_URL \<mapsto> Text meta_url, CURLOPT_FOLLOWLOCATION \<mapsto> Num 1, CURLOPT_NOSIGNAL \<mapsto> Num 1,
               CURLOPT_USERAGENT \<mapsto> Text k_user_agent, CURLOPT_WRITEFUNCTION \<mapsto> Ref ''write_to_string'',
               CURLOPT_WRITEDATA \<mapsto> Ref ''body''];
          c = apply_fast_tcp defd c
      in c(CURLOPT_CONNECTTIMEOUT \<mapsto> Num 15, CURLOPT_TIMEOUT \<mapsto> Num 30))"

text \<open>A public list (\<open>fetch_all_lists\<close>), a proxy under test (\<open>make_test_easy\<close>), a proxy against the target (\<open>verify_target\<close>).\<close>

definition list_handle :: "(curl_opt \<Rightarrow> bool) \<Rightarrow> string \<Rightarrow> easy" where
  "list_handle defd url =
     (let c = [CURLOPT_URL \<mapsto> Text url, CURLOPT_WRITEFUNCTION \<mapsto> Ref ''write_to_string'', CURLOPT_WRITEDATA \<mapsto> Ref ''bodies'',
               CURLOPT_TIMEOUT \<mapsto> Num 12, CURLOPT_FOLLOWLOCATION \<mapsto> Num 1, CURLOPT_NOSIGNAL \<mapsto> Num 1,
               CURLOPT_USERAGENT \<mapsto> Text k_user_agent];
          c = apply_fast_tcp defd c
      in c(CURLOPT_NOPROGRESS \<mapsto> Num 0, CURLOPT_XFERINFOFUNCTION \<mapsto> Ref ''stop_xfer'', CURLOPT_XFERINFODATA \<mapsto> Ref ''stop_flag''))"

definition make_test_easy :: "(curl_opt \<Rightarrow> bool) \<Rightarrow> string \<Rightarrow> string \<Rightarrow> easy" where
  "make_test_easy defd test_url address =
     (let https = is_https test_url;
          c = [CURLOPT_URL \<mapsto> Text test_url, CURLOPT_WRITEFUNCTION \<mapsto> Ref ''write_null'', CURLOPT_TIMEOUT \<mapsto> Num 8,
               CURLOPT_CONNECTTIMEOUT \<mapsto> Num 3, CURLOPT_FOLLOWLOCATION \<mapsto> Num 1, CURLOPT_NOSIGNAL \<mapsto> Num 1,
               CURLOPT_USERAGENT \<mapsto> Text k_user_agent, CURLOPT_HTTP_VERSION \<mapsto> Text ''1.1'', CURLOPT_PRIVATE \<mapsto> Ref ''job''];
          c = apply_curl_proxy address https c;
          c = apply_fast_tcp defd c
      in if is_socks_proxy address then c(CURLOPT_CONNECTTIMEOUT \<mapsto> Num 15, CURLOPT_TIMEOUT \<mapsto> Num 25) else c)"

definition verify_handle :: "(curl_opt \<Rightarrow> bool) \<Rightarrow> string \<Rightarrow> string \<Rightarrow> easy" where
  "verify_handle defd url addr =
     (let c = [CURLOPT_URL \<mapsto> Text url, CURLOPT_RANGE \<mapsto> Text ''0-8191'', CURLOPT_WRITEFUNCTION \<mapsto> Ref ''write_null'',
               CURLOPT_FOLLOWLOCATION \<mapsto> Num 1, CURLOPT_NOSIGNAL \<mapsto> Num 1, CURLOPT_USERAGENT \<mapsto> Text k_user_agent,
               CURLOPT_TIMEOUT \<mapsto> Num 8, CURLOPT_CONNECTTIMEOUT \<mapsto> Num 5];
          c = apply_curl_proxy addr (is_https url) c;
          c = apply_fast_tcp defd c
      in c(CURLOPT_PRIVATE \<mapsto> Ref ''job''))"

text \<open>
  A pipe of the downloader (\<open>setup_pipeline\<close>), and the settings \<open>download_chunk\<close> makes on it before
  each transfer, with \<open>have\<close> bytes of the chunk on disk.
\<close>

definition setup_pipeline :: "(curl_opt \<Rightarrow> bool) \<Rightarrow> string \<Rightarrow> string \<Rightarrow> easy \<Rightarrow> easy" where
  "setup_pipeline defd url proxy c =
     (let c = c(CURLOPT_URL \<mapsto> Text url);
          c = apply_curl_proxy proxy (is_https url) c;
          c = apply_fast_tcp defd c
      in c(CURLOPT_FOLLOWLOCATION \<mapsto> Num 1, CURLOPT_NOSIGNAL \<mapsto> Num 1, CURLOPT_USERAGENT \<mapsto> Text k_user_agent,
           CURLOPT_HTTP_VERSION \<mapsto> Text ''2TLS'', CURLOPT_FORBID_REUSE \<mapsto> Num 0, CURLOPT_FRESH_CONNECT \<mapsto> Num 0))"

definition chunk_settings :: "string \<Rightarrow> string \<Rightarrow> chunk \<Rightarrow> int \<Rightarrow> bool \<Rightarrow> easy \<Rightarrow> easy" where
  "chunk_settings url proxy ch have slot c =
     (let want = ch_end ch - ch_start ch + 1;
          from = ch_start ch + have;
          range = show_int from @ ''-'' @ show_int (ch_end ch);
          c = c(CURLOPT_URL \<mapsto> Text url, CURLOPT_RANGE \<mapsto> Text range, CURLOPT_WRITEFUNCTION \<mapsto> Ref ''write_to_file'',
                CURLOPT_WRITEDATA \<mapsto> Ref ''f'');
          (timeout, connect_timeout) = chunk_timeouts proxy want;
          c = (if is_socks_proxy proxy
               then c(CURLOPT_CONNECTTIMEOUT \<mapsto> Num connect_timeout, CURLOPT_TIMEOUT \<mapsto> Num timeout)
               else c(CURLOPT_TIMEOUT \<mapsto> Num timeout, CURLOPT_CONNECTTIMEOUT \<mapsto> Num connect_timeout));
          c = c(CURLOPT_LOW_SPEED_LIMIT \<mapsto> Num (16 * 1024), CURLOPT_LOW_SPEED_TIME \<mapsto> Num 8)
      in if slot
         then c(CURLOPT_NOPROGRESS \<mapsto> Num 0, CURLOPT_XFERINFOFUNCTION \<mapsto> Ref ''chunk_xfer'', CURLOPT_XFERINFODATA \<mapsto> Ref ''slot'')
         else c)"

section \<open>All requests\<close>

datatype request =
    Size_probe string string
  | Metadata string
  | Public_list string
  | Proxy_test string string
  | Target_test string string
  | Chunk_fetch string string chunk int bool

fun request_url :: "request \<Rightarrow> string" where
  "request_url (Size_probe url proxy) = url"
| "request_url (Metadata url) = url"
| "request_url (Public_list url) = url"
| "request_url (Proxy_test url proxy) = url"
| "request_url (Target_test url proxy) = url"
| "request_url (Chunk_fetch url proxy ch have slot) = url"

fun request_proxy :: "request \<Rightarrow> string" where
  "request_proxy (Size_probe url proxy) = proxy"
| "request_proxy (Metadata url) = ''''"
| "request_proxy (Public_list url) = ''''"
| "request_proxy (Proxy_test url proxy) = proxy"
| "request_proxy (Target_test url proxy) = proxy"
| "request_proxy (Chunk_fetch url proxy ch have slot) = proxy"

fun request_handle :: "(curl_opt \<Rightarrow> bool) \<Rightarrow> request \<Rightarrow> easy" where
  "request_handle defd (Size_probe url proxy) = probe_handle defd url proxy"
| "request_handle defd (Metadata url) = metadata_handle defd url"
| "request_handle defd (Public_list url) = list_handle defd url"
| "request_handle defd (Proxy_test url proxy) = make_test_easy defd url proxy"
| "request_handle defd (Target_test url proxy) = verify_handle defd url proxy"
| "request_handle defd (Chunk_fetch url proxy ch have slot) =
     chunk_settings url proxy ch have slot (setup_pipeline defd url proxy Map.empty)"

section \<open>The callbacks\<close>

text \<open>
  libcurl hands a callback the bytes, and a size and a number of items whose product is their number. A
  result other than that number makes libcurl fail the transfer. \<open>fwrite\<close> writes a prefix of what it is given.
\<close>

definition write_null :: "64 word \<Rightarrow> 64 word \<Rightarrow> 64 word" where
  "write_null sz nmemb = sz * nmemb"

definition write_to_string :: "string \<Rightarrow> 64 word \<Rightarrow> 64 word \<Rightarrow> string \<Rightarrow> 64 word \<times> string" where
  "write_to_string ptr sz nmemb s = (sz * nmemb, s @ take (unat (sz * nmemb)) ptr)"

definition write_to_file ::
  "(nat \<Rightarrow> nat) \<Rightarrow> string \<Rightarrow> 64 word \<Rightarrow> 64 word \<Rightarrow> string \<Rightarrow> 64 word \<times> string" where
  "write_to_file fwrite ptr sz nmemb f =
     (let n = min (fwrite (unat (sz * nmemb))) (unat (sz * nmemb)) in (of_nat n, f @ take n ptr))"

text \<open>
  \<open>fast_tcp_sockopt\<close>: the options it sets on a socket for connecting, given which congestion controls
  the kernel takes; it always lets libcurl go on.
\<close>

datatype sock_opt = TCP_NODELAY | TCP_QUICKACK | TCP_FASTOPEN_CONNECT | TCP_CONGESTION string

fun try_cc :: "(string \<Rightarrow> bool) \<Rightarrow> string list \<Rightarrow> sock_opt list" where
  "try_cc takes [] = []"
| "try_cc takes (cc # ccs) = TCP_CONGESTION cc # (if takes cc then [] else try_cc takes ccs)"

definition fast_tcp_sockopt :: "(string \<Rightarrow> bool) \<Rightarrow> bool \<Rightarrow> sock_opt list \<times> int" where
  "fast_tcp_sockopt takes ipcxn =
     (if \<not> ipcxn then ([], 0)
      else ([TCP_NODELAY, TCP_QUICKACK, TCP_FASTOPEN_CONNECT] @ try_cc takes [''fast'', ''bbr'', ''westwood''], 0))"

section \<open>What the requests have in common\<close>

definition expires :: "easy \<Rightarrow> bool" where
  "expires c =
     (case (c CURLOPT_TIMEOUT, c CURLOPT_CONNECTTIMEOUT) of
        (Some (Num s), Some (Num k)) \<Rightarrow> 0 < k \<and> k < s
      | (Some (Num s), None) \<Rightarrow> 0 < s
      | _ \<Rightarrow> False)"

definition proxied :: "string \<Rightarrow> string \<Rightarrow> easy \<Rightarrow> bool" where
  "proxied url proxy c \<longleftrightarrow>
     c CURLOPT_PROXY = (if proxy = '''' then None else Some (Text proxy)) \<and>
     c CURLOPT_HTTPPROXYTUNNEL =
       (if proxy \<noteq> '''' \<and> is_https url \<and> \<not> is_socks_proxy proxy then Some (Num 1) else None)"

lemma chunk_timeouts_expire: "0 < snd (chunk_timeouts proxy want) \<and> snd (chunk_timeouts proxy want) < fst (chunk_timeouts proxy want)"
  by (auto simp: chunk_timeouts_def Let_def)

lemma fast_tcp_keeps:
  "opt \<notin> {CURLOPT_TCP_NODELAY, CURLOPT_TCP_KEEPALIVE, CURLOPT_TCP_KEEPIDLE, CURLOPT_TCP_KEEPINTVL, CURLOPT_TCP_FASTOPEN,
     CURLOPT_SOCKOPTFUNCTION} \<Longrightarrow> apply_fast_tcp defd c opt = c opt"
  by (simp add: apply_fast_tcp_def Let_def)

lemma curl_proxy_keeps: "opt \<notin> {CURLOPT_PROXY, CURLOPT_HTTPPROXYTUNNEL} \<Longrightarrow> apply_curl_proxy proxy https c opt = c opt"
  by (simp add: apply_curl_proxy_def Let_def)

lemma curl_proxy_sets:
  "apply_curl_proxy proxy https c CURLOPT_PROXY = (if proxy = '''' then c CURLOPT_PROXY else Some (Text proxy))"
  "apply_curl_proxy proxy https c CURLOPT_HTTPPROXYTUNNEL =
     (if proxy \<noteq> '''' \<and> https \<and> \<not> is_socks_proxy proxy then Some (Num 1) else c CURLOPT_HTTPPROXYTUNNEL)"
  by (simp_all add: apply_curl_proxy_def Let_def)

lemma chunk_settings_keeps:
  "opt \<in> {CURLOPT_PROXY, CURLOPT_HTTPPROXYTUNNEL, CURLOPT_NOSIGNAL, CURLOPT_FOLLOWLOCATION, CURLOPT_USERAGENT} \<Longrightarrow>
   chunk_settings url proxy ch have slot c opt = c opt"
  by (auto simp: chunk_settings_def Let_def split: prod.split)

lemma chunk_settings_sets:
  "chunk_settings url proxy ch have slot c CURLOPT_URL = Some (Text url)"
  "chunk_settings url proxy ch have slot c CURLOPT_RANGE = Some (Text (show_int (ch_start ch + have) @ ''-'' @ show_int (ch_end ch)))"
  "chunk_settings url proxy ch have slot c CURLOPT_TIMEOUT = Some (Num (fst (chunk_timeouts proxy (ch_want ch))))"
  "chunk_settings url proxy ch have slot c CURLOPT_CONNECTTIMEOUT = Some (Num (snd (chunk_timeouts proxy (ch_want ch))))"
  by (simp_all add: chunk_settings_def ch_want_def Let_def split: prod.split)

lemmas option_simps = fast_tcp_keeps curl_proxy_keeps curl_proxy_sets chunk_settings_keeps chunk_settings_sets
  probe_handle_def probe_curl_common_def metadata_handle_def list_handle_def make_test_easy_def verify_handle_def
  setup_pipeline_def Let_def

text \<open>Settings of an earlier chunk on the same handle leave no trace.\<close>

lemma chunk_settings_again:
  "chunk_settings url proxy ch have slot (chunk_settings url' proxy ch' have' slot c) = chunk_settings url proxy ch have slot c"
  by (rule ext) (simp add: chunk_settings_def Let_def split: prod.split)

lemma write_to_file_complete:
  assumes "length ptr = unat (sz * nmemb)"
  shows "fst (write_to_file fwrite ptr sz nmemb f) = sz * nmemb \<longleftrightarrow> snd (write_to_file fwrite ptr sz nmemb f) = f @ ptr"
proof -
  let ?n = "min (fwrite (unat (sz * nmemb))) (unat (sz * nmemb))"
  have "(of_nat ?n :: 64 word) = sz * nmemb \<longleftrightarrow> ?n = unat (sz * nmemb)"
  proof
    assume "(of_nat ?n :: 64 word) = sz * nmemb"
    moreover have "?n < 2 ^ 64" using unsigned_less [of "sz * nmemb", where 'a = nat] by simp
    then have "unat (of_nat ?n :: 64 word) = ?n" by (simp add: unat_of_nat take_bit_nat_eq_self)
    ultimately show "?n = unat (sz * nmemb)" by simp
  next
    assume "?n = unat (sz * nmemb)"
    then have "(of_nat ?n :: 64 word) = of_nat (unat (sz * nmemb))" by (rule arg_cong)
    then show "(of_nat ?n :: 64 word) = sz * nmemb" by simp
  qed
  moreover have "take ?n ptr = ptr \<longleftrightarrow> ?n = unat (sz * nmemb)" using assms by (auto simp: take_all_iff min_def)
  ultimately show ?thesis by (simp add: write_to_file_def Let_def)
qed

text \<open>
  C21:
  Whatever request is made, of a list, a size, a proxy or a chunk, libcurl is told the address of that
  request and no proxy other than its own; through a HTTP proxy a https address is always tunnelled, so
  that the proxy never sees the request, and no tunnel is asked for in any other case. Signals are off,
  which threads need; and the request cannot hang: it has a time limit, and a shorter one for connecting.
  A chunk is asked for from its first missing byte to its last byte, whatever the handle was used for before.
\<close>

theorem requests_configured:
  "(let c = request_handle defd rq
    in c CURLOPT_URL = Some (Text (request_url rq)) \<and> proxied (request_url rq) (request_proxy rq) c \<and>
       c CURLOPT_NOSIGNAL = Some (Num 1) \<and> c CURLOPT_FOLLOWLOCATION = Some (Num 1) \<and> expires c) \<and>
   (let c = chunk_settings url proxy ch have slot (chunk_settings url' proxy ch' have' slot (setup_pipeline defd url proxy Map.empty))
    in c = request_handle defd (Chunk_fetch url proxy ch have slot) \<and>
       c CURLOPT_RANGE = Some (Text (show_int (ch_start ch + have) @ ''-'' @ show_int (ch_end ch))))"
proof -
  have url: "request_handle defd rq CURLOPT_URL = Some (Text (request_url rq))"
    by (cases rq) (simp_all add: option_simps)
  have prox: "proxied (request_url rq) (request_proxy rq) (request_handle defd rq)"
    unfolding proxied_def by (cases rq) (simp_all add: option_simps)
  have sig: "request_handle defd rq CURLOPT_NOSIGNAL = Some (Num 1)"
    "request_handle defd rq CURLOPT_FOLLOWLOCATION = Some (Num 1)"
    by (cases rq; simp add: option_simps)+
  have exp: "expires (request_handle defd rq)"
    unfolding expires_def by (cases rq) (simp_all add: option_simps chunk_timeouts_expire)
  show ?thesis
    unfolding Let_def chunk_settings_again request_handle.simps
    using url prox sig exp chunk_settings_sets(2) by blast
qed

end
