(* ===== verification/Launcher.thy ===== *)
theory Launcher
  imports Cmdline Server
begin

text \<open>
  How the graphical client is started: the launcher (\<open>src/gui_launch.c\<close>), which prepares the environment
  and executes the GUI, and the GUI (\<open>src/gui.cpp\<close>), which finds its files, spawns \<open>proxchunk --repl\<close> in a
  terminal and ends with it. GTK and VTE are seen through the values they are given and the callbacks
  they make.
\<close>

section \<open>The launcher\<close>

text \<open>
  What the launcher finds out: the link \<open>/proc/self/exe\<close>, which files may be read and executed
  (\<open>access\<close>), which can be created when it tries to, and which programs the system can execute.
\<close>

record launch_env =
  le_exe :: "string option"
  le_reads :: "string \<Rightarrow> bool"
  le_runs :: "string \<Rightarrow> bool"
  le_creates :: "string \<Rightarrow> bool"
  le_execs :: "string \<Rightarrow> bool"

type_synonym variables = "string \<rightharpoonup> string"

datatype launch = Executes string "string list" variables | Dies string

definition set_if_exists :: "launch_env \<Rightarrow> string \<Rightarrow> string \<Rightarrow> variables \<Rightarrow> variables" where
  "set_if_exists le key path env = (if le_reads le path then env(key \<mapsto> path) else env)"

text \<open>\<open>readlink\<close> into \<open>exe\<close>, and the name of the directory in front of the last slash.\<close>

definition launch_root :: "launch_env \<Rightarrow> string + string" where
  "launch_root le =
     (case le_exe le of
        None \<Rightarrow> Inl ''readlink /proc/self/exe''
      | Some link \<Rightarrow>
          if link = [] then Inl ''readlink /proc/self/exe''
          else let exe = take 4095 link
               in case find_last_char CHR ''/'' exe of
                    None \<Rightarrow> Inl ''binary path''
                  | Some slash \<Rightarrow> Inr (take slash exe))"

text \<open>
  The list of image loaders, written beside them or in the cache of the user: its name, when it could be
  opened, and its text.
\<close>

definition quoted :: "string \<Rightarrow> string" where
  "quoted s = CHR 0x22 # s @ [CHR 0x22]"

definition newline :: string where
  "newline = [CHR 0x0A]"

definition loaders_text :: "string \<Rightarrow> string" where
  "loaders_text loader =
     ''# GdkPixbuf Image Loader Modules file'' @ newline @ quoted loader @ newline @
     quoted ''legacy-xpm'' @ '' 4 '' @ quoted ''gdk-pixbuf'' @ '' '' @ quoted ''XPM'' @ '' '' @ quoted ''LGPL'' @ newline @
     quoted ''image/x-xpixmap'' @ '' '' @ quoted '''' @ newline @ quoted '''' @ newline @
     quoted ''/* XPM */'' @ '' '' @ quoted '''' @ '' 100'' @ newline"

definition loaders_cache :: "launch_env \<Rightarrow> string \<Rightarrow> variables \<Rightarrow> (string \<times> string) option" where
  "loaders_cache le dir env =
     (let loader = snprintf 4224 (dir @ ''/lib/gdk-pixbuf-2.0/2.10.0/loaders/libpixbufloader-xpm.so'');
          cache = snprintf 4224 (dir @ ''/lib/gdk-pixbuf-2.0/2.10.0/loaders.cache'')
      in if \<not> le_reads le loader then None
         else if le_creates le cache then Some (cache, loaders_text loader)
         else case env ''HOME'' of
                None \<Rightarrow> None
              | Some home \<Rightarrow>
                  (let cache = snprintf 4224 (home @ ''/.cache/proxchunk/loaders.cache'')
                   in if le_creates le cache then Some (cache, loaders_text loader) else None))"

text \<open>The variables the GUI gets.\<close>

definition launch_variables :: "launch_env \<Rightarrow> string \<Rightarrow> variables \<Rightarrow> variables" where
  "launch_variables le dir env =
     (let env = env(''PROXCHUNK_ROOT'' \<mapsto> dir);
          pixdir = snprintf 4224 (dir @ ''/lib/gdk-pixbuf-2.0/2.10.0/loaders'');
          env = set_if_exists le ''GDK_PIXBUF_MODULEDIR'' pixdir env;
          env = (case loaders_cache le dir env of Some (cache, _) \<Rightarrow> env(''GDK_PIXBUF_MODULE_FILE'' \<mapsto> cache) | None \<Rightarrow> env);
          env = env(''GTK_IM_MODULE'' \<mapsto> ''gtk-im-context-simple'');
          gio = snprintf 4224 (dir @ ''/lib/gio/modules'');
          env = (if le_runs le gio then env(''GIO_MODULE_DIR'' \<mapsto> gio) else env);
          share = snprintf 4224 (dir @ ''/share'');
          xdg = snprintf 8192 (share @ (case env ''XDG_DATA_DIRS'' of Some old \<Rightarrow> '':'' @ old | None \<Rightarrow> ''''));
          env = env(''XDG_DATA_DIRS'' \<mapsto> xdg);
          env = env(''GDK_BACKEND'' \<mapsto> ''x11'')
      in env(''GTK_CSD'' \<mapsto> ''0''))"

text \<open>\<open>main\<close>, with the arguments behind the program's name.\<close>

definition launch_main :: "launch_env \<Rightarrow> variables \<Rightarrow> string list \<Rightarrow> launch" where
  "launch_main le env args =
     (case launch_root le of
        Inl msg \<Rightarrow> Dies msg
      | Inr dir \<Rightarrow>
          if length (''PROXCHUNK_ROOT='' @ dir) \<ge> 4224 then Dies ''PROXCHUNK_ROOT too long''
          else
            (let lib = snprintf 4224 (dir @ ''/lib'');
                 loader = snprintf 4224 (dir @ ''/lib/ld-musl-x86_64.so.1'');
                 bin = snprintf 4224 (dir @ ''/libexec/proxchunk-gui.bin'');
                 bin = (if \<not> le_runs le bin then snprintf 4224 (dir @ ''/proxchunk-gui.bin'') else bin);
                 env = launch_variables le dir env
             in if le_runs le loader
                then (if le_execs le loader then Executes loader ([loader, ''--library-path'', lib, bin] @ args) env
                      else Dies ''exec bundled ld-musl'')
                else (if le_execs le bin then Executes bin (bin # args) env else Dies ''exec proxchunk-gui.bin'')))"

section \<open>The files of the GUI\<close>

definition exe_path :: "string option \<Rightarrow> string" where
  "exe_path exe = (case exe of Some link \<Rightarrow> take 4095 link | None \<Rightarrow> [])"

definition path_filename :: "string \<Rightarrow> string" where
  "path_filename p = rev (takeWhile (\<lambda>c. c \<noteq> CHR ''/'') (rev p))"

definition install_root :: "string option \<Rightarrow> variables \<Rightarrow> string" where
  "install_root exe env =
     (case env_value env ''PROXCHUNK_ROOT'' of
        Some r \<Rightarrow> r
      | None \<Rightarrow>
          (let p = exe_path exe
           in if p = [] then ''.''
              else let p = parent_path p
                   in if path_filename p = ''libexec'' then parent_path p else p))"

definition find_cli :: "(string \<Rightarrow> bool) \<Rightarrow> string option \<Rightarrow> string \<Rightarrow> string" where
  "find_cli is_file exe dir =
     (let a = path_join dir ''proxchunk''
      in if is_file a then a
         else let b = path_join (parent_path (exe_path exe)) ''proxchunk''
              in if is_file b then b else ''proxchunk'')"

definition icon_places :: "string list" where
  "icon_places = [''icons/hicolor/48x48/apps/proxchunk.png'', ''icons/pixmaps/proxchunk.png'', ''icons/proxchunk.png'']"

definition find_icon :: "(string \<Rightarrow> bool) \<Rightarrow> string \<Rightarrow> string" where
  "find_icon is_file dir =
     (case List.find is_file (map (path_join dir) icon_places) of Some p \<Rightarrow> p | None \<Rightarrow> [])"

text \<open>\<open>main\<close>: the variables it sets, which the terminal's program inherits, and that program's arguments.\<close>

definition gui_variables :: "(string \<Rightarrow> bool) \<Rightarrow> string option \<Rightarrow> variables \<Rightarrow> variables" where
  "gui_variables is_directory exe env =
     (let root_early = install_root exe env;
          env = env(''GTK_CSD'' \<mapsto> ''0'', ''GTK_IM_MODULE'' \<mapsto> ''gtk-im-context-simple'', ''GDK_BACKEND'' \<mapsto> ''x11'');
          gio = path_join (path_join (path_join root_early ''lib'') ''gio'') ''modules''
      in if is_directory gio then env(''GIO_MODULE_DIR'' \<mapsto> gio) else env)"

definition spawn_argv :: "(string \<Rightarrow> bool) \<Rightarrow> string option \<Rightarrow> variables \<Rightarrow> string list" where
  "spawn_argv is_file exe env = [find_cli is_file exe (install_root exe env), ''--repl'']"


section \<open>The window\<close>

text \<open>
  A key press with the modifiers that count, which \<open>on_key\<close> answers; the bool says that the key goes no
  further.
\<close>

datatype modifier = Control_mask | Shift_mask | Other_mask nat

datatype key = Key_char char | Key_Insert | Key_other nat

datatype gui_act = Paste_clipboard | Main_quit | Show_error string | Show_about "string list"

definition on_key :: "modifier set \<Rightarrow> key \<Rightarrow> gui_act list \<times> bool" where
  "on_key mods keyval =
     (if mods = {Control_mask} \<and> (keyval = Key_char CHR ''v'' \<or> keyval = Key_char CHR ''V'') then ([Paste_clipboard], True)
      else if mods = {Shift_mask} \<and> keyval = Key_Insert then ([Paste_clipboard], True)
      else if mods = {Control_mask} \<and> (keyval = Key_char CHR ''q'' \<or> keyval = Key_char CHR ''Q'') then ([Main_quit], True)
      else ([], False))"

definition on_quit :: "gui_act list" where
  "on_quit = [Main_quit]"

definition on_child_exited :: "int \<Rightarrow> gui_act list" where
  "on_child_exited status = [Main_quit]"

definition on_spawn :: "int \<Rightarrow> string option \<Rightarrow> gui_act list" where
  "on_spawn pid err =
     (case err of Some msg \<Rightarrow> [Show_error (''Could not start proxchunk:'' @ newline @ msg), Main_quit] | None \<Rightarrow> [])"

text \<open>The rows of the about box, from the icon to the button.\<close>

definition on_about :: "string \<Rightarrow> gui_act list" where
  "on_about icon =
     [Show_about ((if icon = [] then [] else [icon]) @
        [''<b>proxchunk</b>'', ''proxchunk 1.1'', ''Copyright (c) 2026 proxchunk contributors'', ''OK''])]"

text \<open>The menus, with the callback of each item.\<close>

datatype callback = On_quit | On_about

definition make_menubar :: "(string \<times> (string \<times> callback) list) list" where
  "make_menubar = [(''_File'', [(''_Quit'', On_quit)]), (''_Help'', [(''_About'', On_about)])]"

text \<open>What may happen to the window, and the loop \<open>gtk_main\<close>, which ends when a callback asks for it.\<close>

datatype gui_event =
    Ev_destroyed
  | Ev_menu callback
  | Ev_key "modifier set" key
  | Ev_spawned int "string option"
  | Ev_child_exited int

fun gui_callback :: "string \<Rightarrow> gui_event \<Rightarrow> gui_act list" where
  "gui_callback icon Ev_destroyed = on_quit"
| "gui_callback icon (Ev_menu On_quit) = on_quit"
| "gui_callback icon (Ev_menu On_about) = on_about icon"
| "gui_callback icon (Ev_key mods keyval) = fst (on_key mods keyval)"
| "gui_callback icon (Ev_spawned pid err) = on_spawn pid err"
| "gui_callback icon (Ev_child_exited status) = on_child_exited status"

fun gtk_main :: "string \<Rightarrow> gui_event list \<Rightarrow> gui_act list \<times> bool" where
  "gtk_main icon [] = ([], False)"
| "gtk_main icon (ev # evs) =
     (let acts = gui_callback icon ev
      in if Main_quit \<in> set acts then (acts, True)
         else case gtk_main icon evs of (rest, ended) \<Rightarrow> (acts @ rest, ended))"

section \<open>What is started\<close>

lemma snprintf_fits: "length s < n \<Longrightarrow> snprintf n s = s"
  by (simp add: snprintf_def)

lemma find_last_char_append: "c \<notin> set t \<Longrightarrow> find_last_char c (s @ c # t) = Some (length s)"
proof -
  assume "c \<notin> set t"
  then have "\<forall>x\<in>set (rev t). x \<noteq> c" by auto
  from find_if_append_stop [OF this refl, of "rev s"] show ?thesis by (simp add: find_last_char_def find_char_def)
qed

lemma launch_root_of:
  assumes "le_exe le = Some (dir @ CHR ''/'' # name)" "CHR ''/'' \<notin> set name" "length (dir @ CHR ''/'' # name) \<le> 4095"
  shows "launch_root le = Inr dir"
  using assms by (simp add: launch_root_def find_last_char_append Let_def)

lemma launch_variables_keep:
  "k \<notin> {''PROXCHUNK_ROOT'', ''GDK_PIXBUF_MODULEDIR'', ''GDK_PIXBUF_MODULE_FILE'', ''GTK_IM_MODULE'', ''GIO_MODULE_DIR'',
     ''XDG_DATA_DIRS'', ''GDK_BACKEND'', ''GTK_CSD''} \<Longrightarrow> launch_variables le dir env k = env k"
  by (simp add: launch_variables_def set_if_exists_def Let_def split: option.split)

lemma launch_variables_root: "launch_variables le dir env ''PROXCHUNK_ROOT'' = Some dir"
  by (simp add: launch_variables_def set_if_exists_def Let_def split: option.split)

definition launch_bin :: "launch_env \<Rightarrow> string \<Rightarrow> string" where
  "launch_bin le dir =
     (if le_runs le (dir @ ''/libexec/proxchunk-gui.bin'') then dir @ ''/libexec/proxchunk-gui.bin''
      else dir @ ''/proxchunk-gui.bin'')"

lemma launch_main_of:
  assumes "launch_root le = Inr dir" "length dir \<le> 4094"
  shows "launch_main le env args =
    (let loader = dir @ ''/lib/ld-musl-x86_64.so.1''; env = launch_variables le dir env
     in if le_runs le loader
        then (if le_execs le loader
              then Executes loader ([loader, ''--library-path'', dir @ ''/lib'', launch_bin le dir] @ args) env
              else Dies ''exec bundled ld-musl'')
        else (if le_execs le (launch_bin le dir) then Executes (launch_bin le dir) (launch_bin le dir # args) env
              else Dies ''exec proxchunk-gui.bin''))"
  using assms by (simp add: launch_main_def launch_bin_def snprintf_fits Let_def)


definition demo_launch :: launch_env where
  "demo_launch = \<lparr>le_exe = Some ''/opt/p/proxchunk-gui'', le_reads = (\<lambda>_. True), le_runs = (\<lambda>_. True),
     le_creates = (\<lambda>_. False), le_execs = (\<lambda>_. True)\<rparr>"


text \<open>The terminal ends with its program: nothing the GUI does keeps the window open after that.\<close>

lemma gtk_main_ends: "Ev_child_exited status \<in> set evs \<Longrightarrow> snd (gtk_main icon evs)"
  by (induction evs) (auto simp: on_child_exited_def Let_def split: prod.split)

end
