(* ===== verification/Bars.thy ===== *)
theory Bars
  imports Progress Scorer
begin

text \<open>
  Progress on the terminal: the block of bars of a download (\<open>BarLayout\<close> and \<open>draw_bars\<close> in
  \<open>src/proxchunk.cpp\<close>) and the one bar of a daemon in the foreground (\<open>BarLayout\<close> and \<open>FgBar\<close> in
  \<open>src/proxchunkd.cpp\<close>), as changes of the terminal. How the tui library draws a bar is not modelled:
  a bar is its row, its label, and the two numbers it is given.
\<close>

record tty =
  tt_cursor :: bool
  tt_wrap :: bool
  tt_raw :: bool
  tt_drawn :: "(int \<times> string \<times> int \<times> int) list"
  tt_err :: "string list"

text \<open>\<open>%.nf\<close>: the exact binary value rounded to \<open>n\<close> decimals, ties to even.\<close>

definition fixed_digits :: "nat \<Rightarrow> double \<Rightarrow> string" where
  "fixed_digits d x =
     (case x of
        NaN \<Rightarrow> ''nan''
      | PInf \<Rightarrow> ''inf''
      | MInf \<Rightarrow> ''-inf''
      | Fin q \<Rightarrow>
          (let n = nat (round_even (\<bar>q\<bar> * 10 ^ d))
           in (if q < 0 then ''-'' else '''') @ show_nat (n div 10 ^ d) @ ''.'' @ pad_left d (show_nat (n mod 10 ^ d))))"

section \<open>The bars of a download\<close>

text \<open>
  \<open>struct BarLayout\<close>: \<open>cooked\<close> holds the mode of the terminal while \<open>have_cooked\<close>. The first argument of
  \<open>begin\<close> says whether the mode could be read.
\<close>

record bar_layout =
  origin_row :: int
  n_lines :: int
  bars_active :: bool
  cooked :: bool
  have_cooked :: bool

definition new_layout :: bar_layout where
  "new_layout = \<lparr>origin_row = 1, n_lines = 0, bars_active = False, cooked = False, have_cooked = False\<rparr>"

definition layout_begin :: "bool \<Rightarrow> int option \<Rightarrow> int \<Rightarrow> bar_layout \<times> tty \<Rightarrow> bar_layout \<times> tty" where
  "layout_begin got_mode rows bars lt =
     (let (l, t) = lt;
          (l, t) = (if got_mode then (l\<lparr>cooked := tt_raw t, have_cooked := True\<rparr>, t\<lparr>tt_raw := True\<rparr>) else (l, t));
          t = t\<lparr>tt_cursor := False, tt_wrap := False\<rparr>
      in (l\<lparr>n_lines := bars, origin_row := bars_row rows bars, bars_active := True\<rparr>, t))"

definition layout_finish :: "bar_layout \<times> tty \<Rightarrow> bar_layout \<times> tty" where
  "layout_finish lt =
     (let (l, t) = lt
      in if \<not> bars_active l then (l, t)
         else let t = t\<lparr>tt_wrap := True, tt_cursor := True\<rparr>;
                  (l, t) = (if have_cooked l then (l\<lparr>have_cooked := False\<rparr>, t\<lparr>tt_raw := cooked l\<rparr>) else (l, t))
              in (l\<lparr>bars_active := False\<rparr>, t))"

definition draw_at :: "int \<Rightarrow> string \<Rightarrow> int \<times> int \<Rightarrow> tty \<Rightarrow> tty" where
  "draw_at row label numbers t = t\<lparr>tt_drawn := tt_drawn t @ [(row, label, numbers)]\<rparr>"

text \<open>The speed shown after \<open>elapsed\<close> seconds. The literal is the double nearest to 0.1.\<close>

definition shown_speed :: "int \<Rightarrow> rat \<Rightarrow> double" where
  "shown_speed byte_count elapsed =
     (if dgt (Fin elapsed) (dbl_round (1 / 10)) then ddiv_pos (ddiv_pos (dbl_round (of_int byte_count)) (1024 * 1024)) elapsed
      else Fin 0)"

definition shown_percent :: "int \<Rightarrow> int \<Rightarrow> double" where
  "shown_percent live dl_size =
     (case dbl_round (of_int dl_size) of
        Fin q \<Rightarrow> ddiv_pos (dmul (Fin 100) (dbl_round (of_int live))) q
      | _ \<Rightarrow> NaN)"

text \<open>One call of \<open>draw_bars\<close>, at \<open>elapsed\<close> seconds with \<open>finished\<close> chunks of \<open>n\<close>.\<close>

definition draw_bars ::
  "bool \<Rightarrow> bool \<Rightarrow> int \<Rightarrow> nat \<Rightarrow> bar_layout \<Rightarrow> rat \<times> int \<times> int \<times> slot list \<Rightarrow> tty \<Rightarrow> tty" where
  "draw_bars use_bar show_proxies dl_size n l now t =
     (case now of (elapsed, finished, bytes_done, slots) \<Rightarrow>
        let live = live_bytes bytes_done slots;
            speed = shown_speed live elapsed;
            count = show_int finished @ ''/'' @ show_nat n
        in if use_bar
           then
             (let t = fold (\<lambda>(i, sl). draw_at (origin_row l + int i) (slot_label show_proxies sl) (draw_byte_bar (sl_now sl) (sl_want sl)))
                        (enumerate 0 slots) t
              in draw_at (origin_row l + int (length slots)) (take 79 (''total  '' @ fixed_digits 2 speed @ '' MB/s  '' @ count))
                   (draw_byte_bar live dl_size) t)
           else t\<lparr>tt_err := tt_err t @
                  [''[proxchunk] '' @ fixed_digits 1 (shown_percent live dl_size) @ ''%  '' @ fixed_digits 2 speed @
                   '' MB/s  '' @ count @ '' chunks   '']\<rparr>)"

text \<open>
  The bars in \<open>run_download\<close>, with the states of the transfers at the times of the calls. The destructor
  of the layout calls \<open>finish\<close> once more.
\<close>

definition download_bars ::
  "bool \<Rightarrow> bool \<Rightarrow> bool \<Rightarrow> int option \<Rightarrow> int \<Rightarrow> nat \<Rightarrow> nat \<Rightarrow> (rat \<times> int \<times> int \<times> slot list) list \<Rightarrow> tty \<Rightarrow> bar_layout \<times> tty" where
  "download_bars use_bar show_proxies got_mode rows dl_size n n_workers nows t =
     (let (l, t) = (if use_bar then layout_begin got_mode rows (int n_workers + 1) (new_layout, t) else (new_layout, t));
          t = fold (draw_bars use_bar show_proxies dl_size n l) nows t;
          (l, t) = (if use_bar then layout_finish (l, t) else (l, t))
      in layout_finish (l, t))"

section \<open>The bar of a daemon in the foreground\<close>

record fg_bar =
  use_bar :: bool
  started :: bool
  fg_origin :: int
  fg_lines :: int

definition fg_begin :: "int option \<Rightarrow> int option \<Rightarrow> int \<Rightarrow> fg_bar \<times> tty \<Rightarrow> fg_bar \<times> tty" where
  "fg_begin rows cursor bars bt =
     (let (b, t) = bt
      in (b\<lparr>fg_lines := bars, fg_origin := daemon_bar_row rows cursor bars\<rparr>, t\<lparr>tt_cursor := False, tt_wrap := False\<rparr>))"

definition fg_finish :: "tty \<Rightarrow> tty" where
  "fg_finish t = t\<lparr>tt_wrap := True, tt_cursor := True\<rparr>"

definition fg_draw :: "int option \<times> int option \<Rightarrow> nat \<times> nat \<times> nat \<times> nat \<times> bool \<Rightarrow> fg_bar \<times> tty \<Rightarrow> fg_bar \<times> tty" where
  "fg_draw term ev bt =
     (case (ev, bt) of ((completed, total_n, live, curl_ok, final), (b, t)) \<Rightarrow>
        if \<not> use_bar b then (b, t)
        else
          (let (b, t) = (if \<not> started b then (case fg_begin (fst term) (snd term) 1 (b, t) of (b, t) \<Rightarrow> (b\<lparr>started := True\<rparr>, t)) else (b, t));
               msg = take 79 (''proxies  live '' @ show_nat live @ ''  curl-ok '' @ show_nat curl_ok);
               tot = (if total_n > 0 then int total_n else 1);
               now = (if final then tot else int completed);
               t = draw_at (fg_origin b) msg (now, tot) t
           in if final then (b\<lparr>started := False\<rparr>, fg_finish t) else (b, t)))"

section \<open>Properties\<close>

lemma draw_byte_bar_range: "draw_byte_bar now want = (p, tot) \<Longrightarrow> 0 \<le> p \<and> p \<le> tot \<and> 0 < tot"
  by (auto simp: draw_byte_bar_def Let_def split: if_splits)

lemma bars_row_range: "1 \<le> bars_row rows n" "rows = Some r \<Longrightarrow> n \<le> r \<Longrightarrow> 0 < r \<Longrightarrow> bars_row rows n + n - 1 \<le> r"
  by (auto simp: bars_row_def Let_def)

text \<open>What a call of \<open>draw_bars\<close> changes of the terminal.\<close>

definition bar_in :: "int \<Rightarrow> int \<Rightarrow> int \<times> string \<times> int \<times> int \<Rightarrow> bool" where
  "bar_in first last_row d \<longleftrightarrow> (case d of (row, label, now, tot) \<Rightarrow> first \<le> row \<and> row \<le> last_row \<and> 0 \<le> now \<and> now \<le> tot \<and> 0 < tot)"

definition same_modes :: "tty \<Rightarrow> tty \<Rightarrow> bool" where
  "same_modes t t' \<longleftrightarrow> tt_cursor t' = tt_cursor t \<and> tt_wrap t' = tt_wrap t \<and> tt_raw t' = tt_raw t"

lemma draw_at_modes [simp]: "same_modes t (draw_at row label numbers t') = same_modes t t'"
  by (simp add: draw_at_def same_modes_def)

lemma draw_at_drawn: "tt_drawn (draw_at row label numbers t) = tt_drawn t @ [(row, label, numbers)]"
  by (simp add: draw_at_def)

lemma draw_slots:
  assumes "\<forall>(i, sl)\<in>set slots. i < k"
  shows "same_modes t (fold (\<lambda>(i, sl). draw_at (o' + int i) (f sl) (draw_byte_bar (sl_now sl) (sl_want sl))) slots t) \<and>
    (\<exists>ds. tt_drawn (fold (\<lambda>(i, sl). draw_at (o' + int i) (f sl) (draw_byte_bar (sl_now sl) (sl_want sl))) slots t) = tt_drawn t @ ds \<and>
      (\<forall>d\<in>set ds. bar_in o' (o' + int k) d))"
  using assms
proof (induction slots rule: rev_induct)
  case (snoc s slots)
  obtain i sl where s: "s = (i, sl)" by (cases s)
  obtain p tot where n: "draw_byte_bar (sl_now sl) (sl_want sl) = (p, tot)" by fastforce
  from snoc obtain ds where ds:
    "tt_drawn (fold (\<lambda>(i, sl). draw_at (o' + int i) (f sl) (draw_byte_bar (sl_now sl) (sl_want sl))) slots t) = tt_drawn t @ ds"
    "\<forall>d\<in>set ds. bar_in o' (o' + int k) d" by auto
  have "bar_in o' (o' + int k) (o' + int i, f sl, p, tot)"
    using snoc(2) s draw_byte_bar_range [OF n] by (simp add: bar_in_def)
  then show ?case using snoc ds s n by (auto simp: draw_at_drawn)
qed (simp add: same_modes_def)

lemma draw_bars_changes:
  assumes "draw_bars use show_p dl_size n l now t = t'" "length (snd (snd (snd now))) = w"
  shows "same_modes t t' \<and> (\<exists>ds. tt_drawn t' = tt_drawn t @ ds \<and>
    (\<forall>d\<in>set ds. bar_in (origin_row l) (origin_row l + int w) d)) \<and> (\<not> use \<longrightarrow> tt_drawn t' = tt_drawn t)"
proof -
  obtain elapsed fin dn slots where now: "now = (elapsed, fin, dn, slots)" by (cases now) auto
  have lt: "\<forall>(i, sl)\<in>set (enumerate 0 slots). i < w" using assms(2) now by (auto simp: in_set_enumerate_eq)
  obtain p tot where n: "draw_byte_bar (live_bytes dn slots) dl_size = (p, tot)" by fastforce
  show ?thesis
  proof (cases use)
    case True
    have "bar_in (origin_row l) (origin_row l + int w) (origin_row l + int w, lab, p, tot)" for lab
      using draw_byte_bar_range [OF n] by (simp add: bar_in_def)
    then show ?thesis
      using draw_slots [OF lt, of t "origin_row l" "slot_label show_p"] assms now True n
      by (auto simp: draw_bars_def Let_def draw_at_drawn)
  next
    case False
    then show ?thesis using assms(1) now by (auto simp: draw_bars_def Let_def same_modes_def)
  qed
qed

lemma draws_changes:
  assumes "\<forall>now\<in>set nows. length (snd (snd (snd now))) = w"
  shows "same_modes t (fold (draw_bars use show_p dl_size n l) nows t) \<and>
    (\<exists>ds. tt_drawn (fold (draw_bars use show_p dl_size n l) nows t) = tt_drawn t @ ds \<and>
      (\<forall>d\<in>set ds. bar_in (origin_row l) (origin_row l + int w) d))"
  using assms
proof (induction nows rule: rev_induct)
  case (snoc now nows)
  let ?t = "fold (draw_bars use show_p dl_size n l) nows t"
  from snoc obtain ds where ds: "tt_drawn ?t = tt_drawn t @ ds" "\<forall>d\<in>set ds. bar_in (origin_row l) (origin_row l + int w) d"
    "same_modes t ?t" by auto
  from draw_bars_changes [OF refl, where now = now and w = w and use = use and show_p = show_p and dl_size = dl_size and n = n and l = l and t = ?t] snoc(2)
  obtain es where es: "tt_drawn (draw_bars use show_p dl_size n l now ?t) = tt_drawn ?t @ es"
    "\<forall>d\<in>set es. bar_in (origin_row l) (origin_row l + int w) d" "same_modes ?t (draw_bars use show_p dl_size n l now ?t)" by auto
  then have "same_modes t (draw_bars use show_p dl_size n l now ?t)" using ds(3) by (simp add: same_modes_def)
  moreover have "tt_drawn (draw_bars use show_p dl_size n l now ?t) = tt_drawn t @ (ds @ es)" using ds(1) es(1) by simp
  moreover have "\<forall>d\<in>set (ds @ es). bar_in (origin_row l) (origin_row l + int w) d" using ds(2) es(2) by auto
  ultimately show ?case by fastforce
qed (simp add: same_modes_def)

lemma layout_restores:
  assumes "layout_begin got_mode rows bars (new_layout, t) = (l, t1)" "same_modes t1 t2"
  shows "\<exists>l' t3. layout_finish (layout_finish (l, t2)) = (l', t3) \<and> tt_cursor t3 \<and> tt_wrap t3 \<and> tt_raw t3 = tt_raw t \<and>
    tt_drawn t3 = tt_drawn t2 \<and> \<not> bars_active l'"
  using assms
  by (auto simp: layout_begin_def layout_finish_def new_layout_def same_modes_def Let_def split: if_splits)

text \<open>
  C23:
  The bars of a download leave the terminal as they should find it. However often they are drawn, and with
  whatever numbers, in the end the cursor is visible, lines wrap and the input has the mode it had before;
  in between every bar is drawn in its own block of rows, on the screen if the terminal has as many rows,
  and never beyond its total. Without a terminal nothing of it is touched.
\<close>

theorem download_bars_restore:
  assumes "\<forall>now\<in>set nows. length (snd (snd (snd now))) = w" "tt_cursor t" "tt_wrap t" "tt_drawn t = []"
  shows "case download_bars use show_p got_mode rows dl_size n w nows t of (l, t') \<Rightarrow>
    same_modes t t' \<and> \<not> bars_active l \<and>
    (if use
     then \<forall>d\<in>set (tt_drawn t'). bar_in 1 (bars_row rows (int w + 1) + int w) d \<and>
       (case rows of Some r \<Rightarrow> int w < r \<longrightarrow> bar_in (r - int w) r d | None \<Rightarrow> True)
     else tt_drawn t' = [])"
proof (cases use)
  case True
  obtain l t1 where b: "layout_begin got_mode rows (int w + 1) (new_layout, t) = (l, t1)" by fastforce
  then have l: "origin_row l = bars_row rows (int w + 1)" "tt_drawn t1 = []"
    using assms(4) by (auto simp: layout_begin_def Let_def split: if_splits prod.splits)
  let ?t2 = "fold (draw_bars use show_p dl_size n l) nows t1"
  have m: "same_modes t1 ?t2" using draws_changes [OF assms(1)] by blast
  have "\<exists>ds. tt_drawn ?t2 = tt_drawn t1 @ ds \<and> (\<forall>d\<in>set ds. bar_in (origin_row l) (origin_row l + int w) d)"
    using draws_changes [OF assms(1)] by blast
  then have ds: "\<forall>d\<in>set (tt_drawn ?t2). bar_in (bars_row rows (int w + 1)) (bars_row rows (int w + 1) + int w) d"
    using l by auto
  obtain l' t3 where f: "layout_finish (layout_finish (l, ?t2)) = (l', t3)" "tt_cursor t3" "tt_wrap t3"
    "tt_raw t3 = tt_raw t" "tt_drawn t3 = tt_drawn ?t2" "\<not> bars_active l'"
    using layout_restores [OF b m] by blast
  have "download_bars use show_p got_mode rows dl_size n w nows t = (l', t3)"
    using b f(1) True by (simp add: download_bars_def split: prod.splits)
  moreover have "bar_in 1 (bars_row rows (int w + 1) + int w) d" if "d \<in> set (tt_drawn ?t2)" for d
    using ds that bars_row_range(1) [of rows "int w + 1"] by (auto simp: bar_in_def split: prod.splits)
  moreover have "bar_in (r - int w) r d" if "d \<in> set (tt_drawn ?t2)" "rows = Some r" "int w < r" for d r
    using ds that by (auto simp: bars_row_def bar_in_def split: prod.splits)
  ultimately show ?thesis
    using f assms(2,3) True by (auto simp: same_modes_def split: option.split)
next
  case False
  have "tt_drawn (fold (draw_bars use show_p dl_size n new_layout) nows t) = [] \<and>
    same_modes t (fold (draw_bars use show_p dl_size n new_layout) nows t)"
    using False assms(4)
    by (induction nows rule: rev_induct) (auto simp: same_modes_def draw_bars_def Let_def split: prod.splits)
  then show ?thesis
    using False by (simp add: download_bars_def layout_finish_def new_layout_def)
qed

definition plain_tty :: tty where
  "plain_tty = \<lparr>tt_cursor = True, tt_wrap = True, tt_raw = False, tt_drawn = [], tt_err = []\<rparr>"

definition drawn_well :: "bar_layout \<times> tty \<Rightarrow> bool" where
  "drawn_well lt \<longleftrightarrow> same_modes plain_tty (snd lt) \<and> \<not> bars_active (fst lt)"

lemma download_bars_restore_witness:
  "drawn_well (download_bars True False True (Some 24) 1000 4 2 [(0, 0, 0, [new_slot, new_slot]), (0, 1, 10, [new_slot, new_slot])] plain_tty)"
proof -
  have p: "tt_cursor plain_tty" "tt_wrap plain_tty" "tt_drawn plain_tty = []" by (simp_all add: plain_tty_def)
  have w: "\<forall>now\<in>set [(0 :: rat, 0 :: int, 0 :: int, [new_slot, new_slot]), (0, 1, 10, [new_slot, new_slot])].
    length (snd (snd (snd now))) = 2" by simp
  show ?thesis
    unfolding drawn_well_def
    using download_bars_restore [OF w p, where use = True and show_p = False and got_mode = True and rows = "Some 24" and dl_size = 1000 and n = 4] by (simp split: prod.splits)
qed

text \<open>A foreground daemon's bar: whatever was drawn before, the last call of a scoring pass restores the terminal.\<close>

definition fg_draws :: "int option \<times> int option \<Rightarrow> (nat \<times> nat \<times> nat \<times> nat \<times> bool) list \<Rightarrow> fg_bar \<times> tty \<Rightarrow> fg_bar \<times> tty" where
  "fg_draws term evs bt = fold (fg_draw term) evs bt"

lemma fg_draw_final:
  "fg_draw term (c, n, l, k, True) (b, t) = (b', t') \<Longrightarrow> use_bar b \<Longrightarrow>
   \<not> started b' \<and> use_bar b' \<and> tt_cursor t' \<and> tt_wrap t'"
  by (auto simp: fg_draw_def fg_begin_def fg_finish_def Let_def split: if_splits prod.splits)

lemma fg_draw_use: "fg_draw term ev (b, t) = (b', t') \<Longrightarrow> use_bar b' = use_bar b \<and> tt_raw t' = tt_raw t"
  by (auto simp: fg_draw_def fg_begin_def fg_finish_def draw_at_def Let_def split: if_splits prod.splits)

lemma fg_draws_use: "fg_draws term evs (b, t) = (b', t') \<Longrightarrow> use_bar b' = use_bar b \<and> tt_raw t' = tt_raw t"
proof (induction evs arbitrary: b t)
  case (Cons ev evs)
  obtain b1 t1 where d: "fg_draw term ev (b, t) = (b1, t1)" by fastforce
  with Cons show ?case using fg_draw_use [OF d] by (fastforce simp: fg_draws_def)
qed (simp add: fg_draws_def)

lemma scoring_bar_restored:
  assumes "test_proxies_multi te c cands must = Some s" "\<not> started b" "tt_cursor t" "tt_wrap t"
  shows "case fg_draws term (sc_emits s) (b, t) of (b', t') \<Rightarrow> \<not> started b' \<and> same_modes t t'"
proof (cases "te_multi te \<and> use_bar b")
  case True
  from True assms(1) obtain s0 where s: "s = score_emit (length cands) True s0" by (auto simp: test_proxies_multi_def)
  obtain b1 t1 where one: "fg_draws term (sc_emits s0) (b, t) = (b1, t1)" by fastforce
  obtain b2 t2 where two: "fg_draws term (sc_emits s) (b, t) = (b2, t2)" by fastforce
  then have last: "fg_draw term (sc_completed s0, length cands, length (sc_tested s0), sc_curl_ok s0, True) (b1, t1) = (b2, t2)"
    using one s by (simp add: fg_draws_def score_emit_def)
  have "use_bar b1" using fg_draws_use [OF one] True by simp
  from fg_draw_final [OF last this] have "\<not> started b2" "tt_cursor t2" "tt_wrap t2" by simp_all
  moreover have "tt_raw t2 = tt_raw t" using fg_draws_use [OF two] by simp
  ultimately show ?thesis using two assms(3,4) by (simp add: same_modes_def)
next
  case False
  have same: "\<not> use_bar b \<Longrightarrow> fg_draws term evs (b, t) = (b, t)" for evs
    by (induction evs) (simp_all add: fg_draws_def fg_draw_def)
  from False assms(1) have "sc_emits s = [] \<or> \<not> use_bar b" by (auto simp: test_proxies_multi_def new_scoring_def)
  with same assms(2) show ?thesis by (auto simp: fg_draws_def same_modes_def)
qed

end
