(* ===== verification/Usage.thy ===== *)
theory Usage
  imports Cmdline Ipc
begin

text \<open>
  The help of both programs (\<open>usage\<close> in \<open>src/proxchunk.cpp\<close> and \<open>src/proxchunkd.cpp\<close>), line by line, and that it
  names the options the parsers know.
\<close>

definition client_option_lines :: "string list" where
  "client_option_lines =
     [''  -o, --output <file>   Output path (default: basename of URL)'',
      ''  -c, --concurrent <N>  Equal Range pieces and parallel connections'',
      ''                        (default: logical CPUs)'',
      ''  -s, --chunk-mb <MB>   Split by this size in MiB instead of N equal pieces'',
      ''  -p, --proxies <N>     Max proxies (passed to proxchunkd on auto-start; default: 128)'',
      ''  -r, --refresh <sec>   Re-test interval for auto-started daemon (default: off)'',
      ''      --limit-mb <MB>   Download only the first MB (0 = full file)'',
      ''      --direct          Single-IP download (no daemon, no proxies)'',
      ''      --socket <path>   proxchunkd UNIX socket (default: runtime dir)'',
      ''      --no-progress     Do not draw the TUI progress bar'',
      ''      --no-cache        Do not load/save ~/.cache/proxchunk/proxies.txt'',
      ''      --show-proxies    Prefix each chunk bar with a 15-char IPv4 field'',
      ''      --socks <url>     Extra SOCKS/HTTP proxy (repeatable; e.g. socks5h://127.0.0.1:9050)'',
      ''      --proxy-file <f>  Extra proxy list (ip:port or scheme://host:port per line)'',
      ''      --no-user-proxies Do not load ~/.config/proxchunk/proxies.txt'',
      ''      --no-tor          Do not auto-add local Tor on 127.0.0.1:9050'',
      ''  -h, --help            Show this help'',
      ''  -v, --version         Print version'',
      ''      --repl            Interactive prompt (used by proxchunk-gui)'']"

definition client_usage :: "string \<Rightarrow> string list" where
  "client_usage prog =
     [''Usage: '' @ prog @ '' [options] <URL>'',
      ''       '' @ prog @ '' <URL> [options]'',
      ''''] @
     client_option_lines @
     ['''',
      ''Downloads N Range pieces through scored proxies from proxchunkd'',
      ''(auto-started from this binary's directory if needed). --direct skips'',
      ''the daemon. Failed pieces are retried automatically.'']"

definition daemon_option_lines :: "string list" where
  "daemon_option_lines =
     [''      --foreground      Stay in the terminal (Ctrl+C = graceful stop)'',
      ''      --stop            Graceful stop (socket STOP, then SIGTERM)'',
      ''      --status          Ping the socket; print live/busy/top'',
      ''      --socket <path>   UNIX socket (default: $XDG_RUNTIME_DIR/proxchunk/proxchunkd.sock)'',
      ''      --pid-file <path> PID file (default: sibling proxchunkd.pid)'',
      ''  -p, --proxies <N>     Max live proxies to keep (default: 128)'',
      ''  -r, --refresh <sec>   Re-test interval (default: 180; 0 = off)'',
      ''      --test-url <url>  Scoring URL (default: cloudflare 64KiB)'',
      ''      --no-cache        Do not load/save ~/.cache/proxchunk/proxies.txt'',
      ''      --no-tor          Do not auto-add local Tor on 127.0.0.1:9050'',
      ''      --no-fetch        Do not fetch public proxy lists'',
      ''      --socks <url>     Extra SOCKS/HTTP proxy (repeatable)'',
      ''      --proxy-file <f>  Extra proxy list (ip:port or URL per line)'',
      ''      --no-user-proxies Do not load ~/.config/proxchunk/proxies.txt'',
      ''      --log-file <path> Log file when daemonized (default: cache dir)'',
      ''      --debug           Log IPC (ACQUIRE/RELEASE/HELLO) to stderr'',
      ''  -h, --help            Show this help'',
      ''  -v, --version         Print version'']"

definition daemon_usage :: "string \<Rightarrow> string list" where
  "daemon_usage prog =
     [''Usage: '' @ prog @ '' [options]'',
      ''       '' @ prog @ '' --foreground [options]'',
      ''       '' @ prog @ '' --stop'',
      ''       '' @ prog @ '' --status'',
      '''',
      ''Start the proxy engine daemon. With no arguments the process'',
      ''daemonizes; the parent exits 0 when the UNIX socket is listening'',
      ''(initial proxy refresh may still be running '' @ [CHR 0xE2, CHR 0x80, CHR 0x94] @ '' ACQUIRE retries).'',
      ''''] @
     daemon_option_lines"

text \<open>
  The words of the first column, of 24 characters, that begin with a dash. Option lines are those that
  begin with the option or with six blanks in its place.
\<close>

definition option_line :: "string \<Rightarrow> bool" where
  "option_line l \<longleftrightarrow> starts_with l ''  -'' \<or> starts_with l ''      --''"

definition option_words :: "string \<Rightarrow> string list" where
  "option_words l =
     map (\<lambda>w. if last w = CHR '','' then butlast w else w) (filter (\<lambda>w. starts_with w ''-'') (ipc_split (take 24 l)))"

definition usage_words :: "string list \<Rightarrow> string list" where
  "usage_words ls = concat (map option_words (filter option_line ls))"

text \<open>
  An option that the parser knows: it does not refuse it, alone or with a number behind it. \<open>main\<close> of the
  client looks for \<open>--repl\<close> before it parses.
\<close>

fun not_refused :: "'o parsed \<Rightarrow> bool" where
  "not_refused (Exits n) = (n \<noteq> 1)"
| "not_refused Undefined = True"
| "not_refused (Parsed opt) = True"

definition client_accepts :: "string \<Rightarrow> bool" where
  "client_accepts a \<longleftrightarrow> starts_with a ''-'' \<and> (a = ''--repl'' \<or> not_refused (parse_client_loop [a, ''1''] default_client_options))"

definition daemon_accepts :: "string \<Rightarrow> bool" where
  "daemon_accepts a \<longleftrightarrow> not_refused (parse_args [a]) \<or> not_refused (parse_args [a, ''1''])"

section \<open>The options named\<close>

lemma client_words:
  "usage_words client_option_lines =
     [''-o'', ''--output'', ''-c'', ''--concurrent'', ''-s'', ''--chunk-mb'', ''-p'', ''--proxies'', ''-r'', ''--refresh'',
      ''--limit-mb'', ''--direct'', ''--socket'', ''--no-progress'', ''--no-cache'', ''--show-proxies'', ''--socks'',
      ''--proxy-file'', ''--no-user-proxies'', ''--no-tor'', ''-h'', ''--help'', ''-v'', ''--version'', ''--repl'']"
  by code_simp

lemma daemon_words:
  "usage_words daemon_option_lines =
     [''--foreground'', ''--stop'', ''--status'', ''--socket'', ''--pid-file'', ''-p'', ''--proxies'', ''-r'', ''--refresh'',
      ''--test-url'', ''--no-cache'', ''--no-tor'', ''--no-fetch'', ''--socks'', ''--proxy-file'', ''--no-user-proxies'',
      ''--log-file'', ''--debug'', ''-h'', ''--help'', ''-v'', ''--version'']"
  by code_simp

lemma usage_words_append: "usage_words (ls @ ms) = usage_words ls @ usage_words ms"
  by (simp add: usage_words_def)

lemma usage_words_plain: "\<forall>l\<in>set ls. \<not> option_line l \<Longrightarrow> usage_words ls = []"
  by (simp add: usage_words_def)

lemma client_usage_words: "usage_words (client_usage prog) = usage_words client_option_lines"
  unfolding client_usage_def usage_words_append
  by (simp add: usage_words_plain option_line_def starts_with_def)

lemma daemon_usage_words: "usage_words (daemon_usage prog) = usage_words daemon_option_lines"
  unfolding daemon_usage_def usage_words_append
  by (simp add: usage_words_plain option_line_def starts_with_def)

lemma client_takes: "a \<in> set (usage_words client_option_lines) \<Longrightarrow> client_accepts a"
proof -
  have "list_all client_accepts (usage_words client_option_lines)" by code_simp
  then show "a \<in> set (usage_words client_option_lines) \<Longrightarrow> client_accepts a" by (simp add: list_all_iff)
qed

lemma daemon_takes: "a \<in> set (usage_words daemon_option_lines) \<Longrightarrow> daemon_accepts a"
proof -
  have "list_all daemon_accepts (usage_words daemon_option_lines)" by code_simp
  then show "a \<in> set (usage_words daemon_option_lines) \<Longrightarrow> daemon_accepts a" by (simp add: list_all_iff)
qed

lemma client_refuses: "a \<notin> set (usage_words client_option_lines) \<Longrightarrow> \<not> client_accepts a"
proof
  assume a: "a \<notin> set (usage_words client_option_lines)" and "client_accepts a"
  then have d: "starts_with a ''-''" "not_refused (parse_client_loop [a, ''1''] default_client_options)"
    unfolding client_words by (auto simp: client_accepts_def)
  have "a \<noteq> [] \<and> hd a = CHR ''-''" using d(1) by (cases a) (simp_all add: starts_with_def)
  moreover have "\<not> client_value_option a" "client_flag a opt = None" "\<not> (a = ''-h'' \<or> a = ''--help'' \<or> a = ''-v'' \<or> a = ''--version'')" for opt
    using a unfolding client_words by (simp_all add: client_value_option_def client_flag_def)
  ultimately show False using d(2) by simp
qed

lemma daemon_refuses: "a \<notin> set (usage_words daemon_option_lines) \<Longrightarrow> \<not> daemon_accepts a"
proof -
  assume a: "a \<notin> set (usage_words daemon_option_lines)"
  then have "daemon_flag a opt = None" "daemon_value a v opt = None" "\<not> (a = ''-h'' \<or> a = ''--help'' \<or> a = ''-v'' \<or> a = ''--version'')" for opt v
    unfolding daemon_words by (simp_all add: daemon_flag_def daemon_value_def)
  then show "\<not> daemon_accepts a" by (simp add: daemon_accepts_def parse_args_def)
qed


end
