(* ===== verification/Spec2Isabelle.thy ===== *)
theory Spec2Isabelle
  imports Pool_Props Download_Props Repl Probe Startup Client_Props Scorer_Props Session_Props Speed_Props
    Descriptors Daemonize Curl_Setup Launcher Bars Usage
begin

text \<open>
  A verification development of proxchunk, a downloader that fetches the ranges of a file through
  many proxies at once.

  The program. The daemon \<open>proxchunkd\<close> keeps a pool of scored proxies and leases them to clients over a
  UNIX socket, one line per command. The downloader \<open>proxchunk\<close> finds the size of the file, plans its
  ranges, and starts workers that fetch each range into a part file, one over the direct connection
  and the others through leased proxies; then it joins the parts. It starts the daemon when none
  answers. A third program, \<open>proxchunk-gui\<close>, opens a window with the downloader's prompt in it; a launcher
  starts it with the libraries bundled beside it.

  Foundations. \<open>Prelude\<close> has the collections of hints and the lemmas on lists and options. \<open>Double\<close> is IEEE
  binary64 with rounding; a speed never becomes NaN. \<open>Cpp_String\<close> and \<open>Cpp_Number\<close> are what the source
  uses of \<open>std::string\<close>, streams and number parsing and printing, \<open>Cpp_Number_Laws\<close> how far a speed is off
  after it is printed and read back; integers are \<open>int\<close>, and \<open>i32\<close> and \<open>i64\<close> give
  \<open>None\<close> where signed arithmetic of the source would overflow.

  The pool (\<open>include/proxchunk/proxy_engine.hpp\<close>, \<open>src/proxy_engine.cpp\<close>).
    \<^item> \<open>Engine\<close>: \<open>struct Proxy\<close>, the configuration, and every operation under the mutex (\<open>acquire\<close>, \<open>release\<close>,
      \<open>live\<close>, \<open>busy\<close>, \<open>top_mbps\<close>, \<open>install_tested\<close>, the two critical sections of \<open>verify_target\<close>, \<open>save_cache\<close>).
      \<open>Proxy_List\<close>: the text formats (\<open>include/proxchunk/plan.hpp\<close>, \<open>parse_proxy_body\<close>, \<open>load_cache\<close>).
    \<^item> \<open>Engine_Laws\<close>: the invariant (rows alive, below the failure limit, with proper speeds, sorted; at most
      one row per address) and that every operation keeps it. The locale \<open>speed_sorter\<close> is what the standard
      promises of \<open>std::sort\<close>, \<open>engine_env\<close> adds the order of a hash map; \<open>Lease\<close> is the contract of a pool of
      leases, which the engine gives (\<open>sublocale\<close>). \<open>Pool_Props\<close> has the properties of each operation.
    \<^item> \<open>Scorer\<close>: \<open>test_proxies_multi\<close>, the transfers of \<open>verify_target\<close>, \<open>refresh\<close>, \<open>try_reuse_cache\<close>,
      \<open>fetch_all_lists\<close>, and the threads of \<open>start\<close>. libcurl's answers are a script of turns. The locale
      \<open>transfer_rounds\<close> of \<open>Scorer_Laws\<close> is the contract of both transfer loops: every message takes a job
      away and the work shrinks, so a loop ends when as many turns bring an answer as there are
      candidates. \<open>Scorer_Props\<close>: what is scored, termination, leases across a warm-up, and the early end
      of the loop.

  The protocol (\<open>include/proxchunk/proxy_ipc.hpp\<close>, \<open>src/proxy_ipc.cpp\<close>).
    \<^item> \<open>Ipc\<close>: \<open>ipc_write_line\<close> and \<open>ipc_read_line\<close> over scripts of what \<open>poll\<close>, \<open>send\<close> and \<open>recv\<close> return; framing is
      a round trip, and the read buffer is bounded.
    \<^item> \<open>Client\<close>: \<open>class ProxyClient\<close> over a link, a record of what its calls on the socket do to the other side.
      \<open>Client_Laws\<close>: the locale \<open>rpc_link\<close> says what one exchange gives; its interpretation is the daemon of
      this development behind the framing of both sides. \<open>Client_Refines\<close> and \<open>Client_Props\<close>: in step with
      the daemon, every operation of the client is the operation on the engine (a simulation).

  The daemon (\<open>src/proxchunkd.cpp\<close>).
    \<^item> \<open>Server\<close>: a connection, \<open>handle_line\<close> with its commands, one round of the poll loop, the graceful stop.
      \<open>Server_Laws\<close>: sessions as steps of single lines, for the locale \<open>daemon\<close>; \<open>Daemon\<close>: reachable states, and
      that a busy proxy is always held by an open connection.
    \<^item> \<open>Startup\<close>: starting and stopping, against the files and locks another daemon may have. \<open>Descriptors\<close>:
      \<open>class unique_fd\<close> (\<open>include/proxchunk/unique_fd.hpp\<close>) over the descriptors of a process, and the
      redirection of the standard streams. \<open>Daemonize\<close>: the two forks and the pipe on which the parent
      waits, as a refinement of the start in \<open>Startup\<close>; the files left at the end.

  The downloader (\<open>src/proxchunk.cpp\<close>, \<open>include/proxchunk/plan.hpp\<close>, \<open>include/proxchunk/plan_n.h\<close>).
    \<^item> \<open>Plan\<close>: both planners; the locale \<open>planner\<close> (chunks tile the file) has both as interpretations.
    \<^item> \<open>Download\<close>: part files, the queue, and one step of a worker as the code between two blocking calls;
      any interleaving is a sequence of steps. \<open>Download_Laws\<close>: the invariant; \<open>Download_Props\<close>: the output is
      the file.
    \<^item> \<open>Client_Start\<close>, \<open>Session\<close>, \<open>Session_Props\<close>: the program put together. A download through proxies is the
      workers of \<open>Download\<close> over the client of \<open>Client\<close> and a connection of the daemon, with the keepalive
      thread and the daemon's other users in between; its steps project to those of \<open>Download\<close>. In every
      interleaving the workers' proxies are the leases, and in the end the output is the file and no
      lease is left. \<open>Speed_Props\<close>: the measured speed on its way into the pool.
    \<^item> \<open>Probe\<close>: the size from archive.org metadata or a range probe. \<open>Progress\<close>: the callback that aborts a
      stalled transfer, the time limits, and the numbers behind the bars; \<open>Bars\<close>: what drawing them does to
      the terminal, in the downloader and in a daemon in the foreground.
    \<^item> \<open>Curl_Setup\<close>: the options of every kind of libcurl handle, as a map, and the callbacks
      (\<open>include/proxchunk/curl_util.hpp\<close> and the places that make handles).
    \<^item> \<open>Cmdline\<close>: the command lines of both programs and the one a client starts the daemon with; \<open>Paths\<close>: the
      default paths; \<open>Usage\<close>: the help texts, which name the options the parsers know. \<open>Repl\<close>: the prompt
      (\<open>include/proxchunk/repl.hpp\<close>, \<open>run_repl\<close>).

  The graphical client (\<open>src/gui_launch.c\<close>, \<open>src/gui.cpp\<close>).
    \<^item> \<open>Launcher\<close>: the environment and the program the launcher executes, the files the GUI looks for, the
      program it spawns, and its callbacks; from the launcher to the prompt.

  Bounds and fuel. Recursions are structural or have a measure. The environment is a list that a loop
  consumes (bytes received, answers of libcurl, outcomes of a deadline); where it may end before the
  loop, the result is an option, and the theorems on termination say which lists are long enough.

  Hypotheses on the environment. \<open>engine_env\<close> (the sort sorts, the map iterates over its rows);
  \<open>probes_ok\<close> and \<open>passes_ok\<close> (what transfers and scoring deliver), which \<open>Scorer_Props\<close> proves of the loops
  under \<open>scoring_script\<close> and \<open>check_script\<close> (libcurl reports each transfer once and counts the others as
  running); the hypotheses of \<open>Download_Props\<close> on servers (a 206 sends a prefix of the range).

  Not modelled. What libcurl, GTK, VTE and the tui library do with what they are given: none of them is
  in the repository. The layout of the window's widgets. Log lines and messages. The mask of signals;
  a signal appears as a flag of a round.
\<close>

end
